(* ===== verification/Prelude.thy ===== *)
theory Prelude
  imports Complex_Main
begin

text \<open>
  Shared vocabulary of the development: names for the value types of the TypeScript code,
  the few operators of JavaScript that the code uses everywhere (nullish defaulting,
  rounding, insertion-ordered maps), generic lemmas about them, the contract of a bounded
  retry delay, and the collections of lemmas that the component theories fill.

  Numbers. Timestamps, sequence numbers, counters and byte counts of the code are
  JavaScript numbers that hold integers below \<open>2 ^ 53\<close>; they are \<open>int\<close> here, so that
  \<open>next_sequence - 1\<close> is \<open>-1\<close> for an empty take, as in the code. Values that can be
  fractions (clock offsets, medians, megabytes) are \<open>rat\<close>.
\<close>

section \<open>Names for the value types\<close>

type_synonym ms = int
type_synonym seqno = int

section \<open>Operators of the language\<close>

text \<open>\<open>a ?? b\<close>: the left operand unless it is null or undefined.\<close>

fun nullish :: "'a option \<Rightarrow> 'a \<Rightarrow> 'a" where
  "nullish None b = b"
| "nullish (Some a) b = a"

text \<open>\<open>a ?? b\<close> where the right operand may itself be null.\<close>

fun or_else :: "'a option \<Rightarrow> 'a option \<Rightarrow> 'a option" where
  "or_else None b = b"
| "or_else (Some a) b = Some a"

text \<open>A string is truthy when it is not empty; an absent string is falsy.\<close>

fun truthy :: "string option \<Rightarrow> bool" where
  "truthy None = False"
| "truthy (Some s) = (s \<noteq> [])"

text \<open>\<open>Math.round\<close>: to the nearest integer, halves towards plus infinity.\<close>

definition js_round :: "rat \<Rightarrow> int" where
  "js_round x = \<lfloor>x + 1 / 2\<rfloor>"

lemma js_round_of_int [simp]: "js_round (of_int n) = n"
  unfolding js_round_def by linarith

lemma js_round_mono: "x \<le> y \<Longrightarrow> js_round x \<le> js_round y"
  unfolding js_round_def by (rule floor_mono) simp

lemma js_round_near: "\<bar>of_int (js_round x) - x\<bar> \<le> 1 / 2"
  unfolding js_round_def by linarith

text \<open>\<open>String(n)\<close> of an integer: its decimal digits.\<close>

definition digit :: "nat \<Rightarrow> char" where
  "digit n = char_of (48 + n)"

fun decimal :: "nat \<Rightarrow> string" where
  "decimal n = (if n < 10 then [digit n] else decimal (n div 10) @ [digit (n mod 10)])"

declare decimal.simps [simp del]

definition string_of_int :: "int \<Rightarrow> string" where
  "string_of_int n = (if n < 0 then CHR ''-'' # decimal (nat (- n)) else decimal (nat n))"

text \<open>The value a string of digits denotes; it undoes \<open>String(n)\<close>.\<close>

definition digits_value :: "string \<Rightarrow> nat" where
  "digits_value ds = foldl (\<lambda>v c. 10 * v + (of_char c - 48)) 0 ds"

lemma digits_value_decimal [simp]: "digits_value (decimal n) = n"
proof (induction n rule: decimal.induct)
  case (1 n)
  show ?case
  proof (cases "n < 10")
    case True
    then show ?thesis by (simp add: decimal.simps [of n] digits_value_def digit_def)
  next
    case False
    with 1 have "digits_value (decimal (n div 10)) = n div 10" by blast
    with False show ?thesis by (simp add: decimal.simps [of n] digits_value_def digit_def)
  qed
qed

lemma decimal_inj [simp]: "decimal m = decimal n \<longleftrightarrow> m = n"
  by (metis digits_value_decimal)

lemma decimal_nonempty [simp]: "decimal n \<noteq> []"
  by (simp add: decimal.simps [of n])

text \<open>The operations on texts, for the characters of Latin-1; letters are those of ASCII.\<close>

definition js_space :: "char \<Rightarrow> bool" where
  "js_space c = (let n = of_char c :: nat in (9 \<le> n \<and> n \<le> 13) \<or> n = 32 \<or> n = 160)"

definition js_trim :: "string \<Rightarrow> string" where
  "js_trim t = rev (dropWhile js_space (rev (dropWhile js_space t)))"

definition upper_char :: "char \<Rightarrow> char" where
  "upper_char c = (let n = of_char c :: nat in if 97 \<le> n \<and> n \<le> 122 then char_of (n - 32) else c)"

definition toUpperCase :: "string \<Rightarrow> string" where
  "toUpperCase = map upper_char"

definition lower_char :: "char \<Rightarrow> char" where
  "lower_char c = (let n = of_char c :: nat in if 65 \<le> n \<and> n \<le> 90 then char_of (n + 32) else c)"

definition toLowerCase :: "string \<Rightarrow> string" where
  "toLowerCase = map lower_char"

definition startsWith :: "string \<Rightarrow> string \<Rightarrow> bool" where
  "startsWith t p \<longleftrightarrow> take (length p) t = p"

fun text_within :: "string \<Rightarrow> string \<Rightarrow> bool" where
  "text_within p [] \<longleftrightarrow> p = []"
| "text_within p (c # t) \<longleftrightarrow> startsWith (c # t) p \<or> text_within p t"

text \<open>\<open>join\<close> of an array of texts.\<close>

fun js_join :: "string \<Rightarrow> string list \<Rightarrow> string" where
  "js_join sep [] = []"
| "js_join sep [t] = t"
| "js_join sep (t # u # ts) = t @ sep @ js_join sep (u # ts)"

section \<open>Insertion-ordered maps\<close>

text \<open>
  The \<open>Map\<close> of JavaScript iterates in insertion order; setting an existing key keeps its
  position. It is an association list here, read with \<open>map_of\<close>.
\<close>

fun map_set :: "'k \<Rightarrow> 'v \<Rightarrow> ('k \<times> 'v) list \<Rightarrow> ('k \<times> 'v) list" where
  "map_set k v [] = [(k, v)]"
| "map_set k v ((k', v') # m) = (if k' = k then (k, v) # m else (k', v') # map_set k v m)"

definition map_delete :: "'k \<Rightarrow> ('k \<times> 'v) list \<Rightarrow> ('k \<times> 'v) list" where
  "map_delete k m = filter (\<lambda>e. fst e \<noteq> k) m"

definition map_has :: "'k \<Rightarrow> ('k \<times> 'v) list \<Rightarrow> bool" where
  "map_has k m \<longleftrightarrow> k \<in> set (map fst m)"

definition map_wf :: "('k \<times> 'v) list \<Rightarrow> bool" where
  "map_wf m \<longleftrightarrow> distinct (map fst m)"

lemma map_of_map_set [simp]: "map_of (map_set k v m) = (map_of m)(k \<mapsto> v)"
  by (induction m) auto

lemma map_fst_map_set:
  "map fst (map_set k v m) = (if k \<in> set (map fst m) then map fst m else map fst m @ [k])"
proof (induction m)
  case (Cons e m)
  then show ?case by (cases e) (simp del: set_map)
qed simp

lemma keys_map_set: "fst ` set (map_set k v m) = insert k (fst ` set m)"
proof -
  have "set (map fst (map_set k v m)) = insert k (set (map fst m))"
    by (simp only: map_fst_map_set) (auto simp del: set_map)
  then show ?thesis by simp
qed

lemma map_wf_Nil [simp]: "map_wf []"
  by (simp add: map_wf_def)

lemma map_wf_set [simp]: "map_wf m \<Longrightarrow> map_wf (map_set k v m)"
  unfolding map_wf_def by (simp only: map_fst_map_set) (simp del: set_map)

lemma map_of_map_delete [simp]: "map_of (map_delete k m) = (map_of m)(k := None)"
  unfolding map_delete_def by (induction m) auto

lemma keys_map_delete: "fst ` set (map_delete k m) = fst ` set m - {k}"
  unfolding map_delete_def by auto

lemma map_wf_delete [simp]: "map_wf m \<Longrightarrow> map_wf (map_delete k m)"
  unfolding map_wf_def map_delete_def by (induction m) auto

lemma map_has_iff: "map_has k m \<longleftrightarrow> map_of m k \<noteq> None"
  by (simp add: map_has_def map_of_eq_None_iff)

lemma map_set_fresh: "map_of m k = None \<Longrightarrow> map_set k v m = m @ [(k, v)]"
  by (induction m) (auto split: if_splits)

section \<open>The contract of a retry delay\<close>

text \<open>
  Three places of the code back off: the upload of a slice, the POST of a finalize, and the
  reconnect of a socket. Each computes a delay from the number of attempts so far. What
  their callers rely on is the same: the delay is positive, never shrinks, and is capped.
\<close>

locale bounded_delay =
  fixes delay :: "nat \<Rightarrow> int" and cap :: int
  assumes delay_pos: "0 < delay n"
    and delay_mono: "m \<le> n \<Longrightarrow> delay m \<le> delay n"
    and delay_cap: "delay n \<le> cap"
begin

text \<open>The time of the \<open>n\<close>-th attempt of a client that waits the delay between attempts.\<close>

primrec attempt_time :: "int \<Rightarrow> nat \<Rightarrow> int" where
  "attempt_time t0 0 = t0"
| "attempt_time t0 (Suc n) = attempt_time t0 n + delay n"

lemma attempt_time_strict: "attempt_time t0 n < attempt_time t0 (Suc n)"
  using delay_pos by simp

lemma attempt_time_upper: "attempt_time t0 n \<le> t0 + cap * int n"
proof (induction n)
  case 0
  then show ?case by simp
next
  case (Suc n)
  have "delay n \<le> cap" by (rule delay_cap)
  with Suc show ?case by (simp add: algebra_simps)
qed

lemma attempt_time_lower: "t0 + delay 0 * int n \<le> attempt_time t0 n"
proof (induction n)
  case 0
  then show ?case by simp
next
  case (Suc n)
  have "delay 0 \<le> delay n" by (rule delay_mono) simp
  with Suc show ?case by (simp add: algebra_simps)
qed

lemma cap_pos: "0 < cap"
  using delay_pos delay_cap less_le_trans by blast

end

section \<open>The contract of a program that handles events\<close>

text \<open>
  The modules of the code that keep a state and handle events (a page, a document, a hook) are
  step functions; what every event keeps holds after every sequence of events.
\<close>

locale event_handler =
  fixes step :: "'e \<Rightarrow> 's \<Rightarrow> 's" and inv :: "'s \<Rightarrow> bool"
  assumes step_keeps: "inv s \<Longrightarrow> inv (step e s)"
begin

lemma run_keeps: "inv s \<Longrightarrow> inv (fold step es s)"
  by (induction es arbitrary: s) (simp_all add: step_keeps)

end

section \<open>Collections\<close>

text \<open>
  \<open>meta_frame\<close> collects what an operation on the persisted row leaves alone;
  \<open>gate\<close> collects the early returns of the handlers.
\<close>

named_theorems meta_frame \<open>fields that a mutation of the persisted row leaves alone\<close>
named_theorems gate \<open>early returns of the handlers\<close>

end
