(* ===== verification/UploadQueue.thy ===== *)
theory UploadQueue
  imports Prelude
begin

text \<open>
  \<open>apps/student/src/uploadQueue.ts\<close>: the decisions of the student's persistent upload
  queue. A recording take has one row, \<open>recording_meta\<close>, that numbers the slices, says
  what was declared to the server (the finalize payload) and what the server confirmed.
  Every function of the file is pure; each is one definition here, in the file's order and
  with the file's names. The messages shown to the user are constructors instead of text.
\<close>

section \<open>Data\<close>

definition FINALIZE_DELAY_MS :: ms where
  "FINALIZE_DELAY_MS = 30000"

definition META_RETENTION_MS :: ms where
  "META_RETENTION_MS = 7 * 24 * 60 * 60 * 1000"

definition QUEUE_CAPACITY_BYTES :: int where
  "QUEUE_CAPACITY_BYTES = 500 * 1024 * 1024"

definition QUEUE_WARN_RATIO :: rat where
  "QUEUE_WARN_RATIO = 8 / 10"

datatype recorder_state = RsRecording | RsStopped | RsLost

datatype server_finalize_state = FsNone | FsPending | FsComplete | FsIncomplete

datatype upload_block = SequenceConflict | SequencePastFinal | Checksum | Unauthorized
  | FinalBelowStored | InvalidFinalize | FinalizeConflict | RecordingDeleted

datatype finalize_reason = RecorderLost

record finalize_payload =
  p_final_sequence :: seqno
  p_total_chunks :: int
  p_total_duration_ms :: ms
  p_reason :: "finalize_reason option"

record recording_meta =
  session_id :: string
  next_sequence :: seqno
  recorder_started_at :: "ms option"
  recorder_state :: recorder_state
  final_sequence :: "seqno option"
  finalize_pending :: bool
  finalize_payload :: "finalize_payload option"
  finalize_confirmed :: bool
  finalize_persisted_at :: "ms option"
  finalize_confirmed_at :: "ms option"
  finalize_attempt :: nat
  finalize_next_attempt_at :: "ms option"
  server_finalize_state :: server_finalize_state
  last_chunk_end_ms :: ms
  needs_operator :: bool
  upload_block :: "upload_block option"
  recorder_flush_pending :: "bool option"

record stored_chunk_draft =
  d_session_id :: string
  d_sequence :: seqno
  d_start_ms :: ms
  d_end_ms :: ms
  d_checksum :: string
  d_byte_length :: int

record server_upload_status =
  s_finalize_state :: server_finalize_state
  s_recording_state :: string
  s_received_sequences :: "seqno list"
  s_take_claimed :: "bool option"

definition takeAlreadyStarted :: "server_upload_status \<Rightarrow> bool" where
  "takeAlreadyStarted status \<longleftrightarrow>
     s_take_claimed status = Some True \<or>
     s_received_sequences status \<noteq> [] \<or>
     s_finalize_state status \<noteq> FsNone"

datatype reload_plan = PlanIdle | PlanSafeToClose | PlanRecorderLost | PlanResumeUploads

datatype close_banner = BannerNone | BannerSafe | BannerConfirming | BannerUploading int
  | BannerInterrupted | BannerIncomplete | BannerNeedsOperator "upload_block option"

text \<open>The truth value of the optional flag: absent and false are the same.\<close>

definition flush_pending :: "recording_meta \<Rightarrow> bool" where
  "flush_pending m \<longleftrightarrow> recorder_flush_pending m = Some True"

text \<open>The server closed the take; nothing it says later reopens it.\<close>

definition terminal_state :: "server_finalize_state \<Rightarrow> bool" where
  "terminal_state s \<longleftrightarrow> s = FsComplete \<or> s = FsIncomplete"

lemma terminal_state_simps [simp]:
  "terminal_state FsComplete" "terminal_state FsIncomplete"
  "\<not> terminal_state FsNone" "\<not> terminal_state FsPending"
  by (simp_all add: terminal_state_def)

section \<open>Numbering the slices\<close>

definition emptyMeta :: "string \<Rightarrow> ms \<Rightarrow> recording_meta" where
  "emptyMeta sid now = \<lparr>
     session_id = sid,
     next_sequence = 0,
     recorder_started_at = Some now,
     recorder_state = RsRecording,
     final_sequence = None,
     finalize_pending = False,
     finalize_payload = None,
     finalize_confirmed = False,
     finalize_persisted_at = None,
     finalize_confirmed_at = None,
     finalize_attempt = 0,
     finalize_next_attempt_at = None,
     server_finalize_state = FsNone,
     last_chunk_end_ms = 0,
     needs_operator = False,
     upload_block = None,
     recorder_flush_pending = None\<rparr>"

definition assignChunkSequence :: "recording_meta \<Rightarrow> seqno \<times> recording_meta" where
  "assignChunkSequence m = (next_sequence m, m\<lparr>next_sequence := next_sequence m + 1\<rparr>)"

definition acknowledgeChunk :: "recording_meta \<Rightarrow> recording_meta" where
  "acknowledgeChunk m = m\<lparr>next_sequence := next_sequence m\<rparr>"

definition buildStoredChunk ::
  "recording_meta \<Rightarrow> ms \<Rightarrow> string \<Rightarrow> int \<Rightarrow> seqno \<times> recording_meta \<times> stored_chunk_draft" where
  "buildStoredChunk m end_ms checksum byte_length =
     (let (sequence, m1) = assignChunkSequence m;
          next = m1\<lparr>last_chunk_end_ms := end_ms\<rparr>
      in (sequence, next,
          \<lparr>d_session_id = session_id m, d_sequence = sequence,
           d_start_ms = last_chunk_end_ms m, d_end_ms = end_ms,
           d_checksum = checksum, d_byte_length = byte_length\<rparr>))"

section \<open>When to finalize\<close>

definition finalizeDue :: "recording_meta \<Rightarrow> int \<Rightarrow> ms \<Rightarrow> bool" where
  "finalizeDue m pendingChunkCount now =
     (if \<not> finalize_pending m \<or> finalize_confirmed m then False
      else if flush_pending m then False
      else case (finalize_payload m, finalize_persisted_at m) of
        (Some _, Some persisted_at) \<Rightarrow>
          (if terminal_state (server_finalize_state m) then False
           else let deadlineReached = now \<ge> persisted_at + FINALIZE_DELAY_MS;
                    due = (pendingChunkCount = 0 \<or> deadlineReached)
             in if \<not> due then False
                else case finalize_next_attempt_at m of
                  Some t \<Rightarrow> \<not> now < t
                | None \<Rightarrow> True)
      | _ \<Rightarrow> False)"

definition noteFinalizeAttempt :: "recording_meta \<Rightarrow> ms \<Rightarrow> bool \<Rightarrow> recording_meta" where
  "noteFinalizeAttempt m now failed =
     (if \<not> failed then m\<lparr>finalize_next_attempt_at := None\<rparr>
      else let attempt = finalize_attempt m + 1;
               delay = min 30000 (1000 * 2 ^ min attempt 5)
        in m\<lparr>finalize_attempt := attempt, finalize_next_attempt_at := Some (now + delay)\<rparr>)"

definition chunkRetryDelayMs :: "int \<Rightarrow> ms" where
  "chunkRetryDelayMs attempts = min 30000 (1000 * 2 ^ nat (min (max attempts 0) 5))"

section \<open>Declaring the end of a take\<close>

definition persistStop :: "recording_meta \<Rightarrow> ms \<Rightarrow> recording_meta" where
  "persistStop m now =
     (let finalSequence = next_sequence m - 1
      in m\<lparr>recorder_state := RsStopped,
           final_sequence := Some finalSequence,
           finalize_pending := True,
           finalize_confirmed := False,
           finalize_persisted_at := Some now,
           server_finalize_state :=
             (if server_finalize_state m = FsNone then FsPending else server_finalize_state m),
           finalize_payload := Some \<lparr>
             p_final_sequence = finalSequence,
             p_total_chunks = next_sequence m,
             p_total_duration_ms = last_chunk_end_ms m,
             p_reason = None\<rparr>\<rparr>)"

definition persistRecorderLost :: "recording_meta \<Rightarrow> ms \<Rightarrow> recording_meta" where
  "persistRecorderLost m now =
     (let finalSequence = next_sequence m - 1
      in m\<lparr>recorder_state := RsLost,
           final_sequence := Some finalSequence,
           finalize_pending := True,
           finalize_confirmed := False,
           finalize_persisted_at := Some (nullish (finalize_persisted_at m) now),
           server_finalize_state :=
             (if server_finalize_state m = FsNone then FsPending else server_finalize_state m),
           finalize_payload := Some \<lparr>
             p_final_sequence = finalSequence,
             p_total_chunks = next_sequence m,
             p_total_duration_ms = last_chunk_end_ms m,
             p_reason = Some RecorderLost\<rparr>\<rparr>)"

fun stopsFinalize :: "upload_block \<Rightarrow> bool" where
  "stopsFinalize Unauthorized = True"
| "stopsFinalize FinalBelowStored = True"
| "stopsFinalize InvalidFinalize = True"
| "stopsFinalize FinalizeConflict = True"
| "stopsFinalize RecordingDeleted = True"
| "stopsFinalize _ = False"

definition notePermanentFailure :: "recording_meta \<Rightarrow> upload_block \<Rightarrow> recording_meta" where
  "notePermanentFailure m block = m\<lparr>
     needs_operator := True,
     upload_block := Some block,
     finalize_pending := (if stopsFinalize block then False else finalize_pending m),
     finalize_next_attempt_at :=
       (if stopsFinalize block then None else finalize_next_attempt_at m)\<rparr>"

definition persistInterrupted :: "recording_meta \<Rightarrow> ms \<Rightarrow> recording_meta" where
  "persistInterrupted m now =
     (if recorder_state m = RsStopped \<or> finalize_confirmed m then m
      else if terminal_state (server_finalize_state m) then m
      else if recorder_state m = RsLost \<and> final_sequence m = Some (next_sequence m - 1) then m
      else let lost = (persistRecorderLost m now)\<lparr>needs_operator := True\<rparr>
        in case upload_block m of
          Some block \<Rightarrow> notePermanentFailure lost block
        | None \<Rightarrow> lost)"

definition persistReplaced :: "recording_meta \<Rightarrow> ms \<Rightarrow> recording_meta" where
  "persistReplaced m now =
     (if recorder_state m = RsStopped \<or> finalize_confirmed m then m
      else if terminal_state (server_finalize_state m) then m
      else if recorder_state m = RsLost \<and> final_sequence m = Some (next_sequence m - 1) then m
      else persistRecorderLost m now)"

definition holdForRecorderFlush :: "recording_meta \<Rightarrow> recording_meta" where
  "holdForRecorderFlush m =
     (if recorder_state m \<noteq> RsLost \<or> finalize_confirmed m then m
      else if terminal_state (server_finalize_state m) then m
      else m\<lparr>recorder_flush_pending := Some True\<rparr>)"

definition releaseRecorderFlush :: "recording_meta \<Rightarrow> ms \<Rightarrow> recording_meta" where
  "releaseRecorderFlush m now =
     (if \<not> flush_pending m then m
      else let released = m\<lparr>recorder_flush_pending := Some False\<rparr>
        in if recorder_state released \<noteq> RsLost \<or> finalize_confirmed released then released
           else if terminal_state (server_finalize_state released) then released
           else let lost = persistRecorderLost (released\<lparr>finalize_persisted_at := None\<rparr>) now
             in case upload_block released of
               Some block \<Rightarrow> notePermanentFailure lost block
             | None \<Rightarrow> lost)"

section \<open>Reload and server status\<close>

fun planReload :: "recording_meta option \<Rightarrow> reload_plan" where
  "planReload None = PlanIdle"
| "planReload (Some m) =
     (if finalize_confirmed m \<and> server_finalize_state m = FsComplete then PlanSafeToClose
      else if recorder_state m = RsRecording then PlanRecorderLost
      else PlanResumeUploads)"

definition shouldDiscardMeta :: "recording_meta \<Rightarrow> ms \<Rightarrow> bool" where
  "shouldDiscardMeta m now =
     (if recorder_state m = RsLost then False
      else if \<not> finalize_confirmed m \<or> server_finalize_state m \<noteq> FsComplete then False
      else case finalize_confirmed_at m of
        None \<Rightarrow> False
      | Some t \<Rightarrow> now \<ge> t + META_RETENTION_MS)"

definition sequencesAlreadyReceived :: "seqno list \<Rightarrow> seqno list \<Rightarrow> seqno list" where
  "sequencesAlreadyReceived local received = filter (\<lambda>sequence. sequence \<in> set received) local"

definition applyServerStatus ::
  "recording_meta \<Rightarrow> server_upload_status \<Rightarrow> ms \<Rightarrow> recording_meta" where
  "applyServerStatus m status now =
     (let held = server_finalize_state m;
          incoming = s_finalize_state status;
          finalizeState =
            (if terminal_state held \<and> \<not> terminal_state incoming then held else incoming);
          next = m\<lparr>server_finalize_state := finalizeState\<rparr>
      in if finalizeState = FsComplete then
           next\<lparr>finalize_confirmed := True,
                finalize_pending := False,
                finalize_confirmed_at := Some (nullish (finalize_confirmed_at m) now)\<rparr>
         else if finalizeState = FsIncomplete then
           next\<lparr>finalize_confirmed := False, finalize_pending := False\<rparr>
         else next)"

section \<open>Permanent failures\<close>

definition permanentUploadBlock :: "int \<Rightarrow> string option \<Rightarrow> upload_block option" where
  "permanentUploadBlock status code =
     (if status = 401 then Some Unauthorized
      else if status = 409 \<and> code = Some ''sequence_past_final'' then Some SequencePastFinal
      else if status = 409 \<and> code = Some ''final_sequence_below_stored'' then Some FinalBelowStored
      else if status = 409 \<and> code = Some ''sequence_conflict'' then Some SequenceConflict
      else if status = 409 \<and> code = Some ''finalize_conflict'' then Some FinalizeConflict
      else if status = 409 \<and> code = Some ''recording_deleted'' then Some RecordingDeleted
      else if status = 409 then Some SequenceConflict
      else if status = 400 \<and> (code = Some ''checksum_mismatch'' \<or> code = Some ''checksum'')
        then Some Checksum
      else if status = 400 \<or> status = 422 then Some InvalidFinalize
      else None)"

definition clearUnauthorizedUploadBlock ::
  "recording_meta \<Rightarrow> ms \<Rightarrow> upload_block list \<Rightarrow> recording_meta" where
  "clearUnauthorizedUploadBlock m now remainingTerminal =
     (if upload_block m \<noteq> Some Unauthorized then m
      else let remaining = filter (\<lambda>block. block \<noteq> Unauthorized) remainingTerminal;
               next = m\<lparr>
                 upload_block := (case remaining of [] \<Rightarrow> None | block # _ \<Rightarrow> Some block),
                 needs_operator :=
                   (remaining \<noteq> [] \<or> (recorder_state m = RsLost \<and> needs_operator m))\<rparr>;
               stoppedOnlyByAuth =
                 (finalize_payload m \<noteq> None \<and>
                  \<not> finalize_confirmed m \<and>
                  server_finalize_state m \<noteq> FsComplete \<and>
                  server_finalize_state m \<noteq> FsIncomplete \<and>
                  \<not> list_ex stopsFinalize remaining)
        in if stoppedOnlyByAuth
           then next\<lparr>finalize_pending := True, finalize_next_attempt_at := Some now\<rparr>
           else next)"

text \<open>
  What the queue reads of a stored slice when it decides what may still be sent. The code
  is generic over the slice; the stored slice of the database extends this record.
\<close>

record chunk_retry =
  terminal :: "bool option"
  terminal_reason :: "upload_block option"
  next_attempt_at :: ms

definition clearUnauthorizedChunk :: "'a chunk_retry_scheme \<Rightarrow> ms \<Rightarrow> 'a chunk_retry_scheme" where
  "clearUnauthorizedChunk c now =
     (if terminal c \<noteq> Some True \<or> terminal_reason c \<noteq> Some Unauthorized then c
      else c\<lparr>terminal := Some False, terminal_reason := None, next_attempt_at := now\<rparr>)"

definition uploadWorkChunkCount :: "'a chunk_retry_scheme list \<Rightarrow> int" where
  "uploadWorkChunkCount chunks = int (length (filter
     (\<lambda>c. terminal c \<noteq> Some True \<or> terminal_reason c = Some Unauthorized) chunks))"

fun showUploadCodeEntry :: "recording_meta option \<Rightarrow> int \<Rightarrow> bool" where
  "showUploadCodeEntry None pendingChunkCount = False"
| "showUploadCodeEntry (Some m) pendingChunkCount =
     (if finalize_confirmed m \<and> server_finalize_state m = FsComplete then False
      else let finalizeHeldByAuth =
             (upload_block m = Some Unauthorized \<and>
              finalize_payload m \<noteq> None \<and>
              server_finalize_state m \<noteq> FsComplete \<and>
              server_finalize_state m \<noteq> FsIncomplete)
        in finalize_pending m \<or> finalizeHeldByAuth \<or> pendingChunkCount > 0)"

section \<open>What the user is told\<close>

datatype block_message = ConflictMessage | PastFinalMessage | ChecksumMessage
  | UploadWindowClosedMessage | FinalBelowStoredMessage | FinalizeMismatchMessage
  | FinalizeConflictMessage | RecordingDeletedMessage | CannotContinueMessage

fun permanentBlockMessage :: "upload_block option \<Rightarrow> block_message" where
  "permanentBlockMessage (Some SequenceConflict) = ConflictMessage"
| "permanentBlockMessage (Some SequencePastFinal) = PastFinalMessage"
| "permanentBlockMessage (Some Checksum) = ChecksumMessage"
| "permanentBlockMessage (Some Unauthorized) = UploadWindowClosedMessage"
| "permanentBlockMessage (Some FinalBelowStored) = FinalBelowStoredMessage"
| "permanentBlockMessage (Some InvalidFinalize) = FinalizeMismatchMessage"
| "permanentBlockMessage (Some FinalizeConflict) = FinalizeConflictMessage"
| "permanentBlockMessage (Some RecordingDeleted) = RecordingDeletedMessage"
| "permanentBlockMessage None = CannotContinueMessage"

text \<open>The warning carries the used space in megabytes, rounded as \<open>Math.round\<close> does.\<close>

definition storageWarning :: "int \<Rightarrow> int option" where
  "storageWarning totalBytes =
     (if of_int totalBytes < of_int QUEUE_CAPACITY_BYTES * QUEUE_WARN_RATIO then None
      else Some (js_round (of_int totalBytes / (1024 * 1024))))"

fun closeBanner :: "recording_meta option \<Rightarrow> int \<Rightarrow> close_banner" where
  "closeBanner None pending = BannerNone"
| "closeBanner (Some m) pending =
     (if finalize_confirmed m \<and> server_finalize_state m = FsComplete then BannerSafe
      else if recorder_state m = RsLost then BannerInterrupted
      else if needs_operator m then BannerNeedsOperator (upload_block m)
      else if server_finalize_state m = FsIncomplete then BannerIncomplete
      else if pending > 0 \<and> recorder_state m \<noteq> RsRecording then BannerUploading pending
      else if finalize_pending m then BannerConfirming
      else BannerNone)"

section \<open>The in-memory log\<close>

text \<open>\<open>MemoryUploadLog\<close>: the row and a map from sequence numbers to stored slices.\<close>

record memory_upload_log =
  log_meta :: recording_meta
  log_chunks :: "(seqno \<times> stored_chunk_draft) list"

definition newLog :: "string \<Rightarrow> ms \<Rightarrow> memory_upload_log" where
  "newLog sid now = \<lparr>log_meta = emptyMeta sid now, log_chunks = []\<rparr>"

definition put :: "memory_upload_log \<Rightarrow> ms \<Rightarrow> seqno \<times> memory_upload_log" where
  "put l endMs =
     (let (sequence, m, chunk) = buildStoredChunk (log_meta l) endMs ''abc'' 8
      in (sequence, l\<lparr>log_meta := m, log_chunks := map_set sequence chunk (log_chunks l)\<rparr>))"

definition ack :: "memory_upload_log \<Rightarrow> seqno \<Rightarrow> memory_upload_log" where
  "ack l sequence = l\<lparr>log_chunks := map_delete sequence (log_chunks l),
                      log_meta := acknowledgeChunk (log_meta l)\<rparr>"

section \<open>Well-formed rows\<close>

text \<open>
  What every operation keeps of a row: the counter is not negative; a take is declared
  exactly when it has a payload; the payload agrees with \<open>final_sequence\<close>, with the
  recorder state and with the counter; a pending finalize has a payload and a deadline; a
  confirmed one is complete, dated and not pending; only a lost take waits for a flush.
\<close>

definition payload_wf :: "recording_meta \<Rightarrow> finalize_payload \<Rightarrow> bool" where
  "payload_wf m p \<longleftrightarrow>
     final_sequence m = Some (p_final_sequence p) \<and>
     p_total_chunks p = p_final_sequence p + 1 \<and>
     0 \<le> p_total_chunks p \<and> p_total_chunks p \<le> next_sequence m \<and>
     recorder_state m = (if p_reason p = Some RecorderLost then RsLost else RsStopped)"

definition meta_wf :: "recording_meta \<Rightarrow> bool" where
  "meta_wf m \<longleftrightarrow>
     0 \<le> next_sequence m \<and>
     (case finalize_payload m of
        None \<Rightarrow> recorder_state m = RsRecording \<and> final_sequence m = None \<and> \<not> finalize_pending m
      | Some p \<Rightarrow> payload_wf m p \<and> finalize_persisted_at m \<noteq> None) \<and>
     (finalize_confirmed m \<longrightarrow>
        server_finalize_state m = FsComplete \<and> \<not> finalize_pending m \<and>
        finalize_confirmed_at m \<noteq> None) \<and>
     (flush_pending m \<longrightarrow> recorder_state m = RsLost)"

lemmas meta_wf_defs = meta_wf_def payload_wf_def flush_pending_def

lemma meta_wf_empty: "meta_wf (emptyMeta sid now)"
  by (simp add: meta_wf_defs emptyMeta_def)

lemma meta_wf_build: "meta_wf m \<Longrightarrow> meta_wf (fst (snd (buildStoredChunk m e c b)))"
  by (auto simp: buildStoredChunk_def assignChunkSequence_def meta_wf_defs split: option.splits)

lemma meta_wf_ack: "meta_wf m \<Longrightarrow> meta_wf (acknowledgeChunk m)"
  by (simp add: acknowledgeChunk_def)

lemma meta_wf_attempt: "meta_wf m \<Longrightarrow> meta_wf (noteFinalizeAttempt m now failed)"
  by (auto simp: noteFinalizeAttempt_def Let_def meta_wf_defs split: option.splits)

lemma meta_wf_stop: "meta_wf m \<Longrightarrow> recorder_state m \<noteq> RsLost \<Longrightarrow> meta_wf (persistStop m now)"
  by (auto simp: persistStop_def Let_def meta_wf_defs split: option.splits)

lemma meta_wf_lost: "meta_wf m \<Longrightarrow> meta_wf (persistRecorderLost m now)"
  by (auto simp: persistRecorderLost_def Let_def meta_wf_defs split: option.splits)

lemma meta_wf_failure: "meta_wf m \<Longrightarrow> meta_wf (notePermanentFailure m b)"
  by (auto simp: notePermanentFailure_def meta_wf_defs split: option.splits)

lemma meta_wf_operator: "meta_wf m \<Longrightarrow> meta_wf (m\<lparr>needs_operator := b\<rparr>)"
  by (auto simp: meta_wf_defs split: option.splits)

lemma meta_wf_interrupted: "meta_wf m \<Longrightarrow> meta_wf (persistInterrupted m now)"
  by (auto simp: persistInterrupted_def Let_def meta_wf_lost meta_wf_failure meta_wf_operator
      split: option.splits)

lemma meta_wf_replaced: "meta_wf m \<Longrightarrow> meta_wf (persistReplaced m now)"
  by (simp add: persistReplaced_def meta_wf_lost)

lemma meta_wf_hold: "meta_wf m \<Longrightarrow> meta_wf (holdForRecorderFlush m)"
  by (auto simp: holdForRecorderFlush_def meta_wf_defs split: option.splits)

lemma meta_wf_redeclare:
  "meta_wf m \<Longrightarrow>
   meta_wf (persistRecorderLost (m\<lparr>recorder_flush_pending := Some False, finalize_persisted_at := None\<rparr>) now)"
  by (auto simp: persistRecorderLost_def Let_def meta_wf_defs split: option.splits)

lemma meta_wf_flushed: "meta_wf m \<Longrightarrow> meta_wf (m\<lparr>recorder_flush_pending := Some False\<rparr>)"
  by (auto simp: meta_wf_defs split: option.splits)

lemma meta_wf_release: "meta_wf m \<Longrightarrow> meta_wf (releaseRecorderFlush m now)"
  by (auto simp: releaseRecorderFlush_def Let_def meta_wf_flushed meta_wf_redeclare
      meta_wf_failure split: option.splits)

lemma meta_wf_status: "meta_wf m \<Longrightarrow> meta_wf (applyServerStatus m status now)"
  by (auto simp: applyServerStatus_def Let_def meta_wf_defs terminal_state_def split: option.splits)

lemma meta_wf_clear: "meta_wf m \<Longrightarrow> meta_wf (clearUnauthorizedUploadBlock m now bs)"
  by (auto simp: clearUnauthorizedUploadBlock_def Let_def meta_wf_defs split: option.splits)

lemmas meta_wf_intros [intro] = meta_wf_empty meta_wf_build meta_wf_ack meta_wf_attempt
  meta_wf_stop meta_wf_lost meta_wf_failure meta_wf_operator meta_wf_interrupted
  meta_wf_replaced meta_wf_hold meta_wf_release meta_wf_status meta_wf_clear

section \<open>What the operations leave alone\<close>

text \<open>No mutation but the numbering itself touches the counter, the owner or the clock of the take.\<close>

definition same_take :: "recording_meta \<Rightarrow> recording_meta \<Rightarrow> bool" where
  "same_take m m' \<longleftrightarrow>
     session_id m' = session_id m \<and> next_sequence m' = next_sequence m \<and>
     last_chunk_end_ms m' = last_chunk_end_ms m \<and>
     recorder_started_at m' = recorder_started_at m"

lemma same_take_refl [simp]: "same_take m m"
  by (simp add: same_take_def)

lemma same_take_trans: "same_take a b \<Longrightarrow> same_take b c \<Longrightarrow> same_take a c"
  by (simp add: same_take_def)

lemma same_take_attempt [meta_frame]: "same_take m (noteFinalizeAttempt m now failed)"
  by (simp add: same_take_def noteFinalizeAttempt_def Let_def)

lemma same_take_stop [meta_frame]: "same_take m (persistStop m now)"
  by (simp add: same_take_def persistStop_def Let_def)

lemma same_take_lost [meta_frame]: "same_take m (persistRecorderLost m now)"
  by (simp add: same_take_def persistRecorderLost_def Let_def)

lemma same_take_failure [meta_frame]: "same_take m (notePermanentFailure m b)"
  by (simp add: same_take_def notePermanentFailure_def)

lemma same_take_interrupted [meta_frame]: "same_take m (persistInterrupted m now)"
  by (simp add: same_take_def persistInterrupted_def persistRecorderLost_def
      notePermanentFailure_def Let_def split: option.splits)

lemma same_take_replaced [meta_frame]: "same_take m (persistReplaced m now)"
  by (simp add: same_take_def persistReplaced_def persistRecorderLost_def Let_def)

lemma same_take_hold [meta_frame]: "same_take m (holdForRecorderFlush m)"
  by (simp add: same_take_def holdForRecorderFlush_def)

lemma same_take_release [meta_frame]: "same_take m (releaseRecorderFlush m now)"
  by (simp add: same_take_def releaseRecorderFlush_def persistRecorderLost_def
      notePermanentFailure_def Let_def split: option.splits)

lemma same_take_status [meta_frame]: "same_take m (applyServerStatus m status now)"
  by (simp add: same_take_def applyServerStatus_def Let_def)

lemma same_take_clear [meta_frame]: "same_take m (clearUnauthorizedUploadBlock m now bs)"
  by (simp add: same_take_def clearUnauthorizedUploadBlock_def Let_def)

text \<open>
  The contract of a function that the code hands to a read-modify-write of the row: it
  stays on the same take and keeps the row well formed.
\<close>

locale meta_mutation =
  fixes mutate :: "recording_meta \<Rightarrow> recording_meta"
  assumes mutate_same_take: "same_take m (mutate m)"
    and mutate_wf: "meta_wf m \<Longrightarrow> meta_wf (mutate m)"
begin

lemma mutate_owner: "session_id (mutate m) = session_id m"
  using mutate_same_take by (simp add: same_take_def)

lemma mutate_counter: "next_sequence (mutate m) = next_sequence m"
  using mutate_same_take by (simp add: same_take_def)

lemma mutate_end: "last_chunk_end_ms (mutate m) = last_chunk_end_ms m"
  using mutate_same_take by (simp add: same_take_def)

end

interpretation server_status: meta_mutation "\<lambda>m. applyServerStatus m status now" for status now
  by unfold_locales (auto simp: same_take_status)

interpretation permanent_failure: meta_mutation "\<lambda>m. notePermanentFailure m block" for block
  by unfold_locales (auto simp: same_take_failure)

interpretation finalize_attempted: meta_mutation "\<lambda>m. noteFinalizeAttempt m now failed" for now failed
  by unfold_locales (auto simp: same_take_attempt)

interpretation auth_cleared: meta_mutation "\<lambda>m. clearUnauthorizedUploadBlock m now bs" for now bs
  by unfold_locales (auto simp: same_take_clear)

interpretation declared_lost: meta_mutation "\<lambda>m. persistRecorderLost m now" for now
  by unfold_locales (auto simp: same_take_lost)

section \<open>Retry delays\<close>

lemma chunkRetryDelayMs_nat: "chunkRetryDelayMs (int n) = min 30000 (1000 * 2 ^ min n 5)"
proof -
  have "nat (min (max (int n) 0) 5) = min n 5" by (simp add: min_def)
  then show ?thesis by (simp add: chunkRetryDelayMs_def)
qed

lemma backoff_mono: "m \<le> n \<Longrightarrow> min 30000 (1000 * 2 ^ min m 5) \<le> min 30000 (1000 * (2::int) ^ min n 5)"
  by (intro min.mono order_refl mult_left_mono power_increasing) auto

interpretation chunk_retry: bounded_delay "\<lambda>n. chunkRetryDelayMs (int n)" 30000
proof unfold_locales
  show "m \<le> n \<Longrightarrow> chunkRetryDelayMs (int m) \<le> chunkRetryDelayMs (int n)" for m n :: nat
    by (simp only: chunkRetryDelayMs_nat) (rule backoff_mono)
qed (simp_all add: chunkRetryDelayMs_nat)

definition finalize_delay :: "nat \<Rightarrow> ms" where
  "finalize_delay n = min 30000 (1000 * 2 ^ min (n + 1) 5)"

lemma noteFinalizeAttempt_failed:
  "noteFinalizeAttempt m now True =
     m\<lparr>finalize_attempt := finalize_attempt m + 1,
       finalize_next_attempt_at := Some (now + finalize_delay (finalize_attempt m))\<rparr>"
  by (simp add: noteFinalizeAttempt_def finalize_delay_def Let_def)

interpretation finalize_retry: bounded_delay finalize_delay 30000
proof unfold_locales
  show "m \<le> n \<Longrightarrow> finalize_delay m \<le> finalize_delay n" for m n :: nat
    by (simp only: finalize_delay_def) (rule backoff_mono, simp)
qed (simp_all add: finalize_delay_def)

section \<open>When a finalize is due\<close>

definition finalize_ready :: "recording_meta \<Rightarrow> bool" where
  "finalize_ready m \<longleftrightarrow>
     finalize_pending m \<and> \<not> flush_pending m \<and> \<not> terminal_state (server_finalize_state m)"

text \<open>
  On a well-formed row the six early returns of \<open>finalizeDue\<close> come down to one
  condition on the row and one on the clock.
\<close>

lemma finalizeDue_iff:
  assumes "meta_wf m"
  shows "finalizeDue m n now \<longleftrightarrow>
    finalize_ready m \<and>
    (n = 0 \<or> the (finalize_persisted_at m) + FINALIZE_DELAY_MS \<le> now) \<and>
    (case finalize_next_attempt_at m of None \<Rightarrow> True | Some t \<Rightarrow> t \<le> now)"
proof (cases "finalize_pending m")
  case True
  with assms obtain p t where "finalize_payload m = Some p" "finalize_persisted_at m = Some t"
      "\<not> finalize_confirmed m"
    by (auto simp: meta_wf_def split: option.splits)
  with True show ?thesis
    by (auto simp: finalizeDue_def finalize_ready_def Let_def split: option.splits)
qed (simp add: finalizeDue_def finalize_ready_def)

lemma finalizeDue_later: "finalizeDue m n t \<Longrightarrow> t \<le> t' \<Longrightarrow> finalizeDue m n t'"
  by (auto simp: finalizeDue_def Let_def split: if_splits option.splits)

lemma finalizeDue_held [gate]: "flush_pending m \<Longrightarrow> \<not> finalizeDue m n now"
  by (simp add: finalizeDue_def)

lemma finalizeDue_terminal [gate]:
  "terminal_state (server_finalize_state m) \<Longrightarrow> \<not> finalizeDue m n now"
  by (simp add: finalizeDue_def split: option.splits)

lemma finalize_ready_attempt:
  "finalize_ready (noteFinalizeAttempt m now failed) = finalize_ready m"
  by (simp add: finalize_ready_def noteFinalizeAttempt_def flush_pending_def Let_def)

lemma persisted_attempt [simp]:
  "finalize_persisted_at (noteFinalizeAttempt m now failed) = finalize_persisted_at m"
  by (simp add: noteFinalizeAttempt_def Let_def)

section \<open>The life of a row\<close>

text \<open>
  Every mutation of the file as a step on one row. A normal stop is only declared for a take
  that was not lost before: the caller, \<open>declareStop\<close> of the recording controller, checks it.
\<close>

inductive row_step :: "recording_meta \<Rightarrow> recording_meta \<Rightarrow> bool" where
  store: "row_step m (fst (snd (buildStoredChunk m end_ms checksum byte_length)))"
| acked: "row_step m (acknowledgeChunk m)"
| stop: "recorder_state m \<noteq> RsLost \<Longrightarrow> row_step m (persistStop m now)"
| lost: "row_step m (persistRecorderLost m now)"
| interrupted: "row_step m (persistInterrupted m now)"
| replaced: "row_step m (persistReplaced m now)"
| hold: "row_step m (holdForRecorderFlush m)"
| release: "row_step m (releaseRecorderFlush m now)"
| status: "row_step m (applyServerStatus m st now)"
| attempt: "row_step m (noteFinalizeAttempt m now failed)"
| failure: "row_step m (notePermanentFailure m block)"
| clear: "row_step m (clearUnauthorizedUploadBlock m now blocks)"

inductive reachable_row :: "string \<Rightarrow> recording_meta \<Rightarrow> bool" for sid where
  start: "reachable_row sid (emptyMeta sid now)"
| step: "reachable_row sid m \<Longrightarrow> row_step m m' \<Longrightarrow> reachable_row sid m'"

lemma buildStoredChunk_fields [simp]:
  "session_id (fst (snd (buildStoredChunk m e c b))) = session_id m"
  "next_sequence (fst (snd (buildStoredChunk m e c b))) = next_sequence m + 1"
  "last_chunk_end_ms (fst (snd (buildStoredChunk m e c b))) = e"
  "fst (buildStoredChunk m e c b) = next_sequence m"
  by (simp_all add: buildStoredChunk_def assignChunkSequence_def)

lemma row_step_owner: "row_step m m' \<Longrightarrow> session_id m' = session_id m"
  by (induction rule: row_step.induct)
    (use meta_frame in \<open>auto simp: same_take_def acknowledgeChunk_def\<close>)

lemma row_step_counter: "row_step m m' \<Longrightarrow> next_sequence m \<le> next_sequence m'"
  by (induction rule: row_step.induct)
    (use meta_frame in \<open>auto simp: same_take_def acknowledgeChunk_def\<close>)

lemma row_step_wf: "row_step m m' \<Longrightarrow> meta_wf m \<Longrightarrow> meta_wf m'"
  by (induction rule: row_step.induct) auto

lemma reachable_row_inv: "reachable_row sid m \<Longrightarrow> session_id m = sid \<and> meta_wf m"
proof (induction rule: reachable_row.induct)
  case (start now)
  then show ?case by (simp add: meta_wf_empty) (simp add: emptyMeta_def)
next
  case (step m m')
  then show ?case using row_step_owner row_step_wf by blast
qed

text \<open>A row whose finalize POST fails at the given times.\<close>

fun fail_at :: "recording_meta \<Rightarrow> ms list \<Rightarrow> recording_meta" where
  "fail_at m [] = m"
| "fail_at m (t # ts) = fail_at (noteFinalizeAttempt m t True) ts"

lemma fail_at_ready [simp]: "finalize_ready (fail_at m ts) = finalize_ready m"
  by (induction ts arbitrary: m) (auto simp: finalize_ready_attempt)

lemma fail_at_persisted [simp]: "finalize_persisted_at (fail_at m ts) = finalize_persisted_at m"
  by (induction ts arbitrary: m) auto

lemma fail_at_wf: "meta_wf m \<Longrightarrow> meta_wf (fail_at m ts)"
  by (induction ts arbitrary: m) auto

lemma fail_at_next:
  assumes "\<forall>t \<in> set ts. t \<le> latest"
    and "case finalize_next_attempt_at m of None \<Rightarrow> True | Some t \<Rightarrow> t \<le> latest + 30000"
  shows "case finalize_next_attempt_at (fail_at m ts) of None \<Rightarrow> True | Some t \<Rightarrow> t \<le> latest + 30000"
  using assms
proof (induction ts arbitrary: m)
  case Nil
  then show ?case by simp
next
  case (Cons t ts)
  have "finalize_delay (finalize_attempt m) \<le> 30000" by (rule finalize_retry.delay_cap)
  with Cons.prems(1) Cons.IH [of "noteFinalizeAttempt m t True"] show ?case
    by (simp add: noteFinalizeAttempt_failed)
qed

text \<open>A row that stores the given slices (end time, checksum, size), in order.\<close>

fun store_slices :: "recording_meta \<Rightarrow> (ms \<times> string \<times> int) list \<Rightarrow> recording_meta" where
  "store_slices m [] = m"
| "store_slices m ((e, c, b) # sl) = store_slices (fst (snd (buildStoredChunk m e c b))) sl"

lemma store_slices_fields [simp]:
  "next_sequence (store_slices m sl) = next_sequence m + int (length sl)"
  "recorder_state (store_slices m sl) = recorder_state m"
  "finalize_confirmed (store_slices m sl) = finalize_confirmed m"
  "server_finalize_state (store_slices m sl) = server_finalize_state m"
  "upload_block (store_slices m sl) = upload_block m"
  "recorder_flush_pending (store_slices m sl) = recorder_flush_pending m"
  "finalize_next_attempt_at (store_slices m sl) = finalize_next_attempt_at m"
  by (induction m sl rule: store_slices.induct)
    (simp_all add: buildStoredChunk_def assignChunkSequence_def)

text \<open>A row that is given the server's answers (with their arrival times), in order of arrival.\<close>

fun apply_statuses :: "recording_meta \<Rightarrow> (server_upload_status \<times> ms) list \<Rightarrow> recording_meta" where
  "apply_statuses m [] = m"
| "apply_statuses m ((st, t) # sts) = apply_statuses (applyServerStatus m st t) sts"

lemma applyServerStatus_state:
  "server_finalize_state (applyServerStatus m st t) =
     (if terminal_state (server_finalize_state m) \<and> \<not> terminal_state (s_finalize_state st)
      then server_finalize_state m else s_finalize_state st)"
  by (simp add: applyServerStatus_def Let_def)

lemma apply_statuses_terminal:
  "terminal_state (server_finalize_state m) \<Longrightarrow>
   terminal_state (server_finalize_state (apply_statuses m sts))"
  by (induction m sts rule: apply_statuses.induct) (auto simp: applyServerStatus_state)

lemma held_flush:
  fixes t0 t1 :: ms and sl :: "(ms \<times> string \<times> int) list"
  assumes "recorder_state m = RsRecording" and "\<not> finalize_confirmed m"
    and "\<not> terminal_state (server_finalize_state m)" and "upload_block m = None"
    and "finalize_next_attempt_at m = None"
  defines "held \<equiv> holdForRecorderFlush (persistReplaced m t0)"
  defines "released \<equiv> releaseRecorderFlush (store_slices held sl) t1"
  shows "\<not> finalizeDue held n now" and "\<not> finalizeDue (store_slices held sl) n now"
    and "finalize_payload released = Some \<lparr>
           p_final_sequence = next_sequence m + int (length sl) - 1,
           p_total_chunks = next_sequence m + int (length sl),
           p_total_duration_ms = last_chunk_end_ms (store_slices held sl),
           p_reason = Some RecorderLost\<rparr>"
    and "finalizeDue released 0 t1"
    and "finalizeDue released k now \<longleftrightarrow> k = 0 \<or> t1 + FINALIZE_DELAY_MS \<le> now"
proof -
  have lost: "recorder_state held = RsLost" "flush_pending held" "\<not> finalize_confirmed held"
    "\<not> terminal_state (server_finalize_state held)" "upload_block held = None"
    "next_sequence held = next_sequence m" "finalize_next_attempt_at held = None"
    using assms(1-5) unfolding held_def
    by (auto simp: persistReplaced_def persistRecorderLost_def holdForRecorderFlush_def
        flush_pending_def terminal_state_def Let_def)
  then have flush: "flush_pending (store_slices held sl)" by (simp add: flush_pending_def)
  show "\<not> finalizeDue held n now" "\<not> finalizeDue (store_slices held sl) n now"
    using lost flush by (simp_all add: finalizeDue_held)
  have rel: "released = persistRecorderLost
     ((store_slices held sl)\<lparr>recorder_flush_pending := Some False, finalize_persisted_at := None\<rparr>) t1"
    unfolding released_def releaseRecorderFlush_def using lost flush by (simp add: Let_def)
  then show "finalize_payload released = Some \<lparr>
           p_final_sequence = next_sequence m + int (length sl) - 1,
           p_total_chunks = next_sequence m + int (length sl),
           p_total_duration_ms = last_chunk_end_ms (store_slices held sl),
           p_reason = Some RecorderLost\<rparr>"
    using lost by (simp add: persistRecorderLost_def Let_def)
  show "finalizeDue released 0 t1"
    "finalizeDue released k now \<longleftrightarrow> k = 0 \<or> t1 + FINALIZE_DELAY_MS \<le> now"
    using lost unfolding rel finalizeDue_def persistRecorderLost_def
    by (auto simp: flush_pending_def terminal_state_def FINALIZE_DELAY_MS_def Let_def)
qed

section \<open>The log against its specification\<close>

text \<open>
  What the in-memory log promises: a counter that only a stored slice moves, and the set of
  slices not acknowledged yet.
\<close>

datatype log_op = Put ms | Ack seqno

type_synonym log_spec = "seqno \<times> seqno set"

fun spec_step :: "log_spec \<Rightarrow> log_op \<Rightarrow> seqno option \<times> log_spec" where
  "spec_step (n, P) (Put e) = (Some n, (n + 1, insert n P))"
| "spec_step (n, P) (Ack i) = (None, (n, P - {i}))"

fun log_step :: "memory_upload_log \<Rightarrow> log_op \<Rightarrow> seqno option \<times> memory_upload_log" where
  "log_step l (Put e) = (let (i, l') = put l e in (Some i, l'))"
| "log_step l (Ack i) = (None, ack l i)"

fun log_run :: "memory_upload_log \<Rightarrow> log_op list \<Rightarrow> seqno list \<times> memory_upload_log" where
  "log_run l [] = ([], l)"
| "log_run l (x # xs) =
     (let (i, l') = log_step l x; (is, l'') = log_run l' xs
      in (case i of None \<Rightarrow> is | Some n \<Rightarrow> n # is, l''))"

definition log_abs :: "memory_upload_log \<Rightarrow> log_spec" where
  "log_abs l = (next_sequence (log_meta l), fst ` set (log_chunks l))"

lemma log_step_refines:
  "spec_step (log_abs l) x = (fst (log_step l x), log_abs (snd (log_step l x)))"
  by (cases x)
    (simp_all add: log_abs_def put_def ack_def buildStoredChunk_def assignChunkSequence_def
      acknowledgeChunk_def keys_map_set keys_map_delete)

fun is_put :: "log_op \<Rightarrow> bool" where
  "is_put (Put _) = True"
| "is_put (Ack _) = False"

lemma log_run_numbers:
  "fst (log_run l xs) = map (\<lambda>k. next_sequence (log_meta l) + int k) [0..<length (filter is_put xs)]"
proof (induction xs arbitrary: l)
  case (Cons x xs)
  show ?case
  proof (cases x)
    case (Put e)
    have "fst (log_run l (x # xs)) =
        next_sequence (log_meta l) # fst (log_run (snd (put l e)) xs)"
      by (simp add: Put put_def buildStoredChunk_def assignChunkSequence_def split: prod.splits)
    moreover have "next_sequence (log_meta (snd (put l e))) = next_sequence (log_meta l) + 1"
      by (simp add: put_def buildStoredChunk_def assignChunkSequence_def)
    ultimately show ?thesis
      by (simp add: Cons.IH Put upt_conv_Cons map_Suc_upt [symmetric] del: upt_Suc)
  next
    case (Ack i)
    then show ?thesis
      using Cons.IH [of "ack l i"]
      by (simp add: ack_def acknowledgeChunk_def split: prod.splits)
  qed
qed simp

section \<open>Properties\<close>

text \<open>
  Whatever the order in which slices are stored, stops, losses, takeovers, server answers,
  failures and upload codes reach a row, a finalize that is pending carries a payload whose
  slice count is its last sequence plus one and never exceeds the slices numbered so far, has
  a deadline, names \<open>recorder_lost\<close> exactly for a lost take, and is not confirmed.
\<close>

theorem pending_finalize_is_declared:
  assumes "reachable_row sid m" and "finalize_pending m"
  shows "\<exists>p t. finalize_payload m = Some p \<and> finalize_persisted_at m = Some t \<and>
    p_total_chunks p = p_final_sequence p + 1 \<and>
    0 \<le> p_total_chunks p \<and> p_total_chunks p \<le> next_sequence m \<and>
    (p_reason p = Some RecorderLost \<longleftrightarrow> recorder_state m = RsLost) \<and>
    \<not> finalize_confirmed m"
  using reachable_row_inv [OF assms(1)] assms(2)
  by (auto simp: meta_wf_defs split: option.splits if_splits)

theorem pending_finalize_is_declared_witness:
  "\<exists>p t. finalize_payload (persistStop (emptyMeta ''S1'' 7) 9) = Some p \<and>
    finalize_persisted_at (persistStop (emptyMeta ''S1'' 7) 9) = Some t \<and>
    p_total_chunks p = p_final_sequence p + 1 \<and>
    0 \<le> p_total_chunks p \<and> p_total_chunks p \<le> next_sequence (persistStop (emptyMeta ''S1'' 7) 9) \<and>
    (p_reason p = Some RecorderLost \<longleftrightarrow>
      recorder_state (persistStop (emptyMeta ''S1'' 7) 9) = RsLost) \<and>
    \<not> finalize_confirmed (persistStop (emptyMeta ''S1'' 7) 9)"
proof (rule pending_finalize_is_declared)
  have "recorder_state (emptyMeta ''S1'' 7) \<noteq> RsLost" by (simp add: emptyMeta_def)
  then show "reachable_row ''S1'' (persistStop (emptyMeta ''S1'' 7) 9)"
    by (blast intro: reachable_row.intros row_step.stop)
  show "finalize_pending (persistStop (emptyMeta ''S1'' 7) 9)"
    by (simp add: persistStop_def Let_def)
qed

text \<open>
  C20: the deadline of a finalize holds. However often its POST failed, and however many slices
  are still queued, it is due again at the latest 30 seconds after the later of its deadline
  and its last failed attempt; failures never move the time it was declared.
\<close>

theorem finalize_deadline_holds:
  assumes "reachable_row sid m" and "finalize_ready m"
    and "\<forall>t \<in> set ts. t \<le> latest"
    and "case finalize_next_attempt_at m of None \<Rightarrow> True | Some t \<Rightarrow> t \<le> latest + 30000"
  shows "finalizeDue (fail_at m ts) n
           (max (the (finalize_persisted_at m) + FINALIZE_DELAY_MS) (latest + 30000))
         \<and> finalize_persisted_at (fail_at m ts) = finalize_persisted_at m"
proof -
  have "meta_wf (fail_at m ts)"
    using reachable_row_inv [OF assms(1)] by (simp add: fail_at_wf)
  with assms(2) fail_at_next [OF assms(3,4)] show ?thesis
    by (auto simp: finalizeDue_iff split: option.splits)
qed

theorem finalize_deadline_holds_witness:
  "finalizeDue (fail_at (persistRecorderLost (emptyMeta ''S1'' 0) 100) [200, 4000]) 12
     (max (the (finalize_persisted_at (persistRecorderLost (emptyMeta ''S1'' 0) 100))
       + FINALIZE_DELAY_MS) (4000 + 30000))
   \<and> finalize_persisted_at (fail_at (persistRecorderLost (emptyMeta ''S1'' 0) 100) [200, 4000])
     = finalize_persisted_at (persistRecorderLost (emptyMeta ''S1'' 0) 100)"
proof (rule finalize_deadline_holds)
  show "reachable_row ''S1'' (persistRecorderLost (emptyMeta ''S1'' 0) 100)"
    by (blast intro: reachable_row.intros row_step.lost)
qed (simp_all add: persistRecorderLost_def emptyMeta_def finalize_ready_def flush_pending_def Let_def)

text \<open>
  C21: the flush of a taken-over recorder. The lost declaration that is written while the
  recorder still runs is never sent, however many of its last slices are stored after it;
  once they are stored, the released declaration covers exactly those slices, and goes out at
  once when the queue is empty, else 30 seconds after the release.
\<close>

theorem held_declaration_covers_the_flush:
  assumes "recorder_state m = RsRecording" and "\<not> finalize_confirmed m"
    and "\<not> terminal_state (server_finalize_state m)" and "upload_block m = None"
    and "finalize_next_attempt_at m = None"
  shows "let held = holdForRecorderFlush (persistReplaced m t0);
             flushed = store_slices held sl;
             released = releaseRecorderFlush flushed t1
    in \<not> finalizeDue held n now \<and> \<not> finalizeDue flushed n now \<and>
       map_option p_final_sequence (finalize_payload released)
         = Some (next_sequence m + int (length sl) - 1) \<and>
       map_option p_total_chunks (finalize_payload released)
         = Some (next_sequence m + int (length sl)) \<and>
       map_option p_reason (finalize_payload released) = Some (Some RecorderLost) \<and>
       (finalizeDue released k now \<longleftrightarrow> k = 0 \<or> t1 + FINALIZE_DELAY_MS \<le> now)"
  by (simp add: Let_def held_flush [OF assms])

theorem held_declaration_covers_the_flush_witness:
  "let held = holdForRecorderFlush (persistReplaced (emptyMeta ''S1'' 0) 100);
       flushed = store_slices held [(2000, ''a'', 9), (4000, ''b'', 9)];
       released = releaseRecorderFlush flushed 4100
    in \<not> finalizeDue held 0 200 \<and> \<not> finalizeDue flushed 0 200 \<and>
       map_option p_final_sequence (finalize_payload released)
         = Some (next_sequence (emptyMeta ''S1'' 0)
             + int (length [(2000 :: ms, ''a'', 9 :: int), (4000, ''b'', 9)]) - 1) \<and>
       map_option p_total_chunks (finalize_payload released)
         = Some (next_sequence (emptyMeta ''S1'' 0)
             + int (length [(2000 :: ms, ''a'', 9 :: int), (4000, ''b'', 9)])) \<and>
       map_option p_reason (finalize_payload released) = Some (Some RecorderLost) \<and>
       (finalizeDue released 3 200 \<longleftrightarrow> (3 :: int) = 0 \<or> 4100 + FINALIZE_DELAY_MS \<le> 200)"
  by (rule held_declaration_covers_the_flush) (simp_all add: emptyMeta_def)

text \<open>
  What the server said last about the end of a take wins, and an end is never taken back:
  after any answers in any order the row holds the last terminal state it was given (its own
  if none came), or the last answer when no state was terminal; and once it is terminal no
  finalize is ever due again.
\<close>

theorem server_status_never_reopens:
  "server_finalize_state (apply_statuses m sts) =
     (let states = server_finalize_state m # map (s_finalize_state \<circ> fst) sts;
          ends = filter terminal_state states
      in if ends = [] then List.last states else List.last ends) \<and>
   (list_ex terminal_state (server_finalize_state m # map (s_finalize_state \<circ> fst) sts) \<longrightarrow>
     \<not> finalizeDue (apply_statuses m sts) n now)"
proof -
  have state: "server_finalize_state (apply_statuses m sts) =
     (let states = server_finalize_state m # map (s_finalize_state \<circ> fst) sts;
          ends = filter terminal_state states
      in if ends = [] then List.last states else List.last ends)"
  proof (induction m sts rule: apply_statuses.induct)
    case (2 m st t sts)
    then show ?case
      by (cases "terminal_state (server_finalize_state m)";
          cases "terminal_state (s_finalize_state st)")
        (simp_all add: applyServerStatus_state Let_def)
  qed simp
  have "terminal_state (server_finalize_state (apply_statuses m sts))"
    if "list_ex terminal_state (server_finalize_state m # map (s_finalize_state \<circ> fst) sts)"
    using that
  proof (induction m sts rule: apply_statuses.induct)
    case (2 m st t sts)
    then show ?case by (auto simp: applyServerStatus_state split: if_splits)
  qed simp
  with state show ?thesis by (simp add: finalizeDue_terminal)
qed

definition example_status :: "server_finalize_state \<Rightarrow> server_upload_status" where
  "example_status s = \<lparr>s_finalize_state = s, s_recording_state = ''recording'',
     s_received_sequences = [0, 1], s_take_claimed = None\<rparr>"

theorem server_status_never_reopens_witness:
  "server_finalize_state (apply_statuses (emptyMeta ''S1'' 0)
     [(example_status FsComplete, 1), (example_status FsPending, 2)]) = FsComplete \<and>
   \<not> finalizeDue (apply_statuses (emptyMeta ''S1'' 0)
     [(example_status FsComplete, 1), (example_status FsPending, 2)]) 0 99999"
  using server_status_never_reopens [of "emptyMeta ''S1'' 0"
      "[(example_status FsComplete, 1), (example_status FsPending, 2)]" 0 99999]
  by (simp add: example_status_def emptyMeta_def Let_def)

text \<open>
  An upload code undoes an auth failure and nothing else. A row whose pending finalize was
  stopped by a 401 is never due and offers the upload-code form; after the login the payload,
  the deadline and the counter are the old ones, the block is gone, only a lost take keeps
  its operator flag, and the finalize is due exactly when the queue is empty or its original
  deadline has passed.
\<close>

theorem upload_code_restores_the_finalize:
  assumes "meta_wf m" and "finalize_ready m"
  shows "let blocked = notePermanentFailure m Unauthorized;
             cleared = clearUnauthorizedUploadBlock blocked now []
    in \<not> finalizeDue blocked k t \<and> showUploadCodeEntry (Some blocked) 0 \<and>
       finalize_payload cleared = finalize_payload m \<and>
       finalize_persisted_at cleared = finalize_persisted_at m \<and>
       next_sequence cleared = next_sequence m \<and>
       upload_block cleared = None \<and>
       (needs_operator cleared \<longleftrightarrow> recorder_state m = RsLost) \<and>
       (finalizeDue cleared n now \<longleftrightarrow>
          n = 0 \<or> the (finalize_persisted_at m) + FINALIZE_DELAY_MS \<le> now)"
proof -
  from assms obtain p t where p: "finalize_payload m = Some p" "finalize_persisted_at m = Some t"
      "\<not> finalize_confirmed m" "\<not> flush_pending m" "finalize_pending m"
      "\<not> terminal_state (server_finalize_state m)"
    by (auto simp: meta_wf_def finalize_ready_def split: option.splits)
  then show ?thesis
    by (simp add: Let_def notePermanentFailure_def clearUnauthorizedUploadBlock_def
        finalizeDue_def flush_pending_def terminal_state_def)
qed

theorem upload_code_restores_the_finalize_witness:
  "let m = persistStop (emptyMeta ''S1'' 0) 50;
       blocked = notePermanentFailure m Unauthorized;
       cleared = clearUnauthorizedUploadBlock blocked 900 []
    in \<not> finalizeDue blocked 0 70 \<and> showUploadCodeEntry (Some blocked) 0 \<and>
       finalize_payload cleared = finalize_payload m \<and>
       finalize_persisted_at cleared = finalize_persisted_at m \<and>
       next_sequence cleared = next_sequence m \<and>
       upload_block cleared = None \<and>
       (needs_operator cleared \<longleftrightarrow> recorder_state m = RsLost) \<and>
       (finalizeDue cleared 2 900 \<longleftrightarrow>
          (2 :: int) = 0 \<or> the (finalize_persisted_at m) + FINALIZE_DELAY_MS \<le> 900)"
proof -
  have wf: "meta_wf (persistStop (emptyMeta ''S1'' 0) 50)"
    by (rule meta_wf_stop [OF meta_wf_empty]) (simp add: emptyMeta_def)
  have ready: "finalize_ready (persistStop (emptyMeta ''S1'' 0) 50)"
    by (simp add: finalize_ready_def persistStop_def emptyMeta_def flush_pending_def Let_def)
  show ?thesis
    using upload_code_restores_the_finalize [OF wf ready, of 900 0 70 2, unfolded Let_def]
    unfolding Let_def .
qed

text \<open>
  The answers that stop the retries of an upload are exactly the statuses 400, 401, 409
  and 422; every other failure is retried. A 401 is always an auth block and nothing else is,
  so only a 401 is undone by an upload code.
\<close>

theorem permanent_failures_classified:
  "(permanentUploadBlock status code = None \<longleftrightarrow> status \<notin> {400, 401, 409, 422}) \<and>
   (permanentUploadBlock status code = Some Unauthorized \<longleftrightarrow> status = 401) \<and>
   (permanentUploadBlock status code \<in> {Some InvalidFinalize, Some Checksum}
      \<longleftrightarrow> status \<in> {400, 422})"
  by (auto simp: permanentUploadBlock_def)

text \<open>
  The banner, the reload plan and the retention agree. "Safe to close" is shown exactly
  when a reload would do nothing more; then no finalize is due and no upload code is asked
  for. Only such a row is ever discarded, and never that of a lost take.
\<close>

theorem safe_banner_agrees:
  "(closeBanner (Some m) n = BannerSafe \<longleftrightarrow> planReload (Some m) = PlanSafeToClose) \<and>
   (closeBanner (Some m) n = BannerSafe \<longrightarrow>
      \<not> finalizeDue m n now \<and> \<not> showUploadCodeEntry (Some m) n) \<and>
   (shouldDiscardMeta m now \<longrightarrow>
      closeBanner (Some m) n = BannerSafe \<and> recorder_state m \<noteq> RsLost \<and>
      the (finalize_confirmed_at m) + META_RETENTION_MS \<le> now)"
  by (auto simp: shouldDiscardMeta_def finalizeDue_def split: option.splits)

definition example_complete :: recording_meta where
  "example_complete =
     applyServerStatus (persistStop (emptyMeta ''S1'' 0) 50) (example_status FsComplete) 60"

theorem safe_banner_agrees_witness:
  "closeBanner (Some example_complete) 0 = BannerSafe \<and>
   \<not> finalizeDue example_complete 0 (60 + META_RETENTION_MS) \<and>
   shouldDiscardMeta example_complete (60 + META_RETENTION_MS)"
  using safe_banner_agrees [of example_complete 0 "60 + META_RETENTION_MS"]
  by (simp add: example_complete_def example_status_def applyServerStatus_def persistStop_def
      emptyMeta_def shouldDiscardMeta_def Let_def)

text \<open>
  An acknowledgement never rewinds the numbering. Every store and every acknowledgement of
  the log is the step of its specification (a counter and the set of slices still queued), and
  the numbers a fresh log hands out are 0, 1, 2, ... in order, whatever is acknowledged between.
\<close>

theorem log_refines_its_specification:
  "spec_step (log_abs l) x = (fst (log_step l x), log_abs (snd (log_step l x))) \<and>
   fst (log_run (newLog sid now) xs) = map int [0..<length (filter is_put xs)]"
  by (simp add: log_step_refines log_run_numbers newLog_def emptyMeta_def)

end
