(* ===== verification/RecordingDb.thy ===== *)
theory RecordingDb
  imports UploadQueue "HOL-Library.List_Lexorder" "HOL-Library.Char_ord" "HOL-Library.Product_Lexorder"
begin

text \<open>
  \<open>apps/student/src/recordingDb.ts\<close>: the IndexedDB side of the upload queue. The database has
  two object stores, the slices keyed by session and sequence and the rows keyed by session.
  An object store is the list of its rows in key order. Each function of the file is one
  transaction; a transaction that aborts (a full disk, a closing page) rejects and leaves the
  database as it was, which the code relies on. The outcome of the transaction is an argument.
\<close>

section \<open>Object stores\<close>

definition get_row :: "('r \<Rightarrow> 'k) \<Rightarrow> 'k \<Rightarrow> 'r list \<Rightarrow> 'r option" where
  "get_row key k rows = List.find (\<lambda>r. key r = k) rows"

definition delete_row :: "('r \<Rightarrow> 'k) \<Rightarrow> 'k \<Rightarrow> 'r list \<Rightarrow> 'r list" where
  "delete_row key k rows = filter (\<lambda>r. key r \<noteq> k) rows"

definition put_row :: "('r \<Rightarrow> 'k::linorder) \<Rightarrow> 'r \<Rightarrow> 'r list \<Rightarrow> 'r list" where
  "put_row key r rows = insort_key key r (delete_row key (key r) rows)"

definition store_wf :: "('r \<Rightarrow> 'k::linorder) \<Rightarrow> 'r list \<Rightarrow> bool" where
  "store_wf key rows \<longleftrightarrow> sorted (map key rows) \<and> distinct (map key rows)"

text \<open>The contract of an object store: what the code reads after it wrote.\<close>

locale object_store =
  fixes key :: "'r \<Rightarrow> 'k"
    and get :: "'k \<Rightarrow> 's \<Rightarrow> 'r option"
    and put :: "'r \<Rightarrow> 's \<Rightarrow> 's"
    and del :: "'k \<Rightarrow> 's \<Rightarrow> 's"
    and inv :: "'s \<Rightarrow> bool"
  assumes get_put: "inv s \<Longrightarrow> get k (put r s) = (if k = key r then Some r else get k s)"
    and get_del: "inv s \<Longrightarrow> get k (del j s) = (if k = j then None else get k s)"
    and get_key: "inv s \<Longrightarrow> get k s = Some r \<Longrightarrow> key r = k"
    and inv_put: "inv s \<Longrightarrow> inv (put r s)"
    and inv_del: "inv s \<Longrightarrow> inv (del k s)"
begin

lemma every_row_put:
  assumes "inv s" and "\<And>k r. get k s = Some r \<Longrightarrow> P r" and "P r0"
  shows "get k (put r0 s) = Some r \<Longrightarrow> P r"
  using assms by (auto simp: get_put split: if_splits)

lemma every_row_del:
  assumes "inv s" and "\<And>k r. get k s = Some r \<Longrightarrow> P r"
  shows "get k (del j s) = Some r \<Longrightarrow> P r"
  using assms by (auto simp: get_del split: if_splits)

lemma put_is_last_writer:
  "inv s \<Longrightarrow> key r = key r' \<Longrightarrow> get k (put r (put r' s)) = get k (put r s)"
  by (simp add: get_put inv_put)

lemma del_after_put: "inv s \<Longrightarrow> get (key r) (del (key r) (put r s)) = None"
  by (simp add: get_del inv_put)

end

lemma find_filter_other:
  "k \<noteq> j \<Longrightarrow> List.find (\<lambda>r. key r = k) (filter (\<lambda>r. key r \<noteq> j) rows) = List.find (\<lambda>r. key r = k) rows"
  by (induction rows) auto

lemma find_filter_same: "List.find (\<lambda>r. key r = k) (filter (\<lambda>r. key r \<noteq> k) rows) = None"
  by (auto simp: find_None_iff)

lemma find_insort_other:
  "key r \<noteq> k \<Longrightarrow> List.find (\<lambda>x. key x = k) (insort_key key r rows) = List.find (\<lambda>x. key x = k) rows"
  by (induction rows) auto

lemma find_insort_same:
  "\<forall>x \<in> set rows. key x \<noteq> key r \<Longrightarrow> List.find (\<lambda>x. key x = key r) (insort_key key r rows) = Some r"
  by (induction rows) auto

lemma distinct_insort_key:
  "distinct (map key (insort_key key r rows)) \<longleftrightarrow> key r \<notin> set (map key rows) \<and> distinct (map key rows)"
  by (induction rows) (auto simp: set_insort_key)

lemma store_wf_delete: "store_wf key rows \<Longrightarrow> store_wf key (delete_row key k rows)"
  unfolding store_wf_def delete_row_def by (auto intro: sorted_filter distinct_map_filter)

lemma store_wf_put: "store_wf key rows \<Longrightarrow> store_wf key (put_row key r rows)"
proof -
  assume "store_wf key rows"
  then have "store_wf key (delete_row key (key r) rows)" by (rule store_wf_delete)
  then show ?thesis
    by (auto simp: store_wf_def put_row_def distinct_insort_key sorted_insort_key delete_row_def)
qed

lemma get_put_row:
  "get_row key k (put_row key r rows) = (if k = key r then Some r else get_row key k rows)"
  by (auto simp: get_row_def put_row_def delete_row_def find_insort_same find_insort_other find_filter_other)

lemma get_delete_row:
  "get_row key k (delete_row key j rows) = (if k = j then None else get_row key k rows)"
  by (simp add: get_row_def delete_row_def find_filter_other find_filter_same)

lemma get_row_key: "get_row key k rows = Some r \<Longrightarrow> key r = k \<and> r \<in> set rows"
  by (auto simp: get_row_def find_Some_iff)

lemma get_row_Cons: "get_row key k (x # rows) = (if key x = k then Some x else get_row key k rows)"
  by (simp add: get_row_def)

lemma get_row_unique:
  "distinct (map key rows) \<Longrightarrow> r \<in> set rows \<Longrightarrow> get_row key (key r) rows = Some r"
proof (induction rows)
  case (Cons x rows)
  show ?case
  proof (cases "r = x")
    case False
    with Cons.prems have "r \<in> set rows" "key x \<noteq> key r" by auto
    with Cons show ?thesis by (simp add: get_row_Cons)
  qed (simp add: get_row_Cons)
qed simp

lemma set_get_row:
  "store_wf key rows \<Longrightarrow> r \<in> set rows \<longleftrightarrow> get_row key (key r) rows = Some r"
  using get_row_unique get_row_key unfolding store_wf_def by metis

section \<open>The database\<close>

type_synonym blob = "nat list"

definition blob_size :: "blob \<Rightarrow> int" where
  "blob_size b = int (length b)"

text \<open>A stored slice extends what the queue reads of it for its retries.\<close>

record persisted_chunk = chunk_retry +
  k_session_id :: string
  k_sequence :: seqno
  k_start_ms :: ms
  k_end_ms :: ms
  k_checksum :: string
  k_blob :: blob
  k_attempts :: nat

record recording_db =
  chunks :: "persisted_chunk list"
  metas :: "recording_meta list"

definition chunk_key :: "persisted_chunk \<Rightarrow> string \<times> seqno" where
  "chunk_key c = (k_session_id c, k_sequence c)"

datatype tx = Commit | Abort string

interpretation meta_rows: object_store session_id "get_row session_id" "put_row session_id"
    "delete_row session_id" "store_wf session_id"
  by unfold_locales (auto simp: get_put_row get_delete_row store_wf_put store_wf_delete dest: get_row_key)

interpretation chunk_rows: object_store chunk_key "get_row chunk_key" "put_row chunk_key"
    "delete_row chunk_key" "store_wf chunk_key"
  by unfold_locales (auto simp: get_put_row get_delete_row store_wf_put store_wf_delete dest: get_row_key)

text \<open>Opening creates the stores that are missing and keeps the ones there are.\<close>

fun openRecordingDb :: "recording_db option \<Rightarrow> recording_db" where
  "openRecordingDb None = \<lparr>chunks = [], metas = []\<rparr>"
| "openRecordingDb (Some db) = db"

definition listMeta :: "tx \<Rightarrow> recording_db \<Rightarrow> string + recording_meta list" where
  "listMeta t db = (case t of Abort e \<Rightarrow> Inl e | Commit \<Rightarrow> Inr (metas db))"

definition readMeta :: "tx \<Rightarrow> recording_db \<Rightarrow> string \<Rightarrow> string + recording_meta option" where
  "readMeta t db sid =
     (case t of Abort e \<Rightarrow> Inl e | Commit \<Rightarrow> Inr (get_row session_id sid (metas db)))"

definition writeMeta ::
  "tx \<Rightarrow> recording_db \<Rightarrow> recording_meta \<Rightarrow> (string + unit) \<times> recording_db" where
  "writeMeta t db m =
     (case t of
        Abort e \<Rightarrow> (Inl e, db)
      | Commit \<Rightarrow> (Inr (), db\<lparr>metas := put_row session_id m (metas db)\<rparr>))"

definition updateMeta ::
  "tx \<Rightarrow> recording_db \<Rightarrow> string \<Rightarrow> (recording_meta \<Rightarrow> recording_meta)
    \<Rightarrow> (string + recording_meta option) \<times> recording_db" where
  "updateMeta t db sid mutate =
     (case t of
        Abort e \<Rightarrow> (Inl e, db)
      | Commit \<Rightarrow>
          (case get_row session_id sid (metas db) of
             None \<Rightarrow> (Inr None, db)
           | Some existing \<Rightarrow>
               let next = mutate existing
               in (Inr (Some next), db\<lparr>metas := put_row session_id next (metas db)\<rparr>)))"

record chunk_timing =
  t_end_ms :: ms
  t_checksum :: string
  t_now :: ms

definition storeChunkAndBumpSequence ::
  "tx \<Rightarrow> recording_db \<Rightarrow> string \<Rightarrow> blob \<Rightarrow> chunk_timing
    \<Rightarrow> (string + seqno \<times> recording_meta) \<times> recording_db" where
  "storeChunkAndBumpSequence t db sid blob timing =
     (case t of
        Abort e \<Rightarrow> (Inl e, db)
      | Commit \<Rightarrow>
          let existing = get_row session_id sid (metas db);
              m = nullish existing (emptyMeta sid (t_now timing));
              (sequence, m', chunk) =
                buildStoredChunk m (t_end_ms timing) (t_checksum timing) (blob_size blob);
              row = \<lparr>terminal = Some False, terminal_reason = None, next_attempt_at = 0,
                     k_session_id = sid, k_sequence = sequence,
                     k_start_ms = d_start_ms chunk, k_end_ms = d_end_ms chunk,
                     k_checksum = t_checksum timing, k_blob = blob, k_attempts = 0\<rparr>
          in (Inr (sequence, m'),
              db\<lparr>chunks := put_row chunk_key row (chunks db),
                 metas := put_row session_id m' (metas db)\<rparr>))"

definition listChunks :: "tx \<Rightarrow> recording_db \<Rightarrow> string \<Rightarrow> string + persisted_chunk list" where
  "listChunks t db sid =
     (case t of
        Abort e \<Rightarrow> Inl e
      | Commit \<Rightarrow> Inr (sort_key k_sequence (filter (\<lambda>c. k_session_id c = sid) (chunks db))))"

definition deleteChunk ::
  "tx \<Rightarrow> recording_db \<Rightarrow> string \<Rightarrow> seqno \<Rightarrow> (string + unit) \<times> recording_db" where
  "deleteChunk t db sid sequence =
     (case t of
        Abort e \<Rightarrow> (Inl e, db)
      | Commit \<Rightarrow> (Inr (), db\<lparr>chunks := delete_row chunk_key (sid, sequence) (chunks db)\<rparr>))"

definition writeChunk ::
  "tx \<Rightarrow> recording_db \<Rightarrow> persisted_chunk \<Rightarrow> (string + unit) \<times> recording_db" where
  "writeChunk t db c =
     (case t of
        Abort e \<Rightarrow> (Inl e, db)
      | Commit \<Rightarrow> (Inr (), db\<lparr>chunks := put_row chunk_key c (chunks db)\<rparr>))"

definition deleteUnstartedMeta ::
  "tx \<Rightarrow> recording_db \<Rightarrow> string \<Rightarrow> ms \<Rightarrow> (string + bool) \<times> recording_db" where
  "deleteUnstartedMeta t db sid recorderStartedAt =
     (case t of
        Abort e \<Rightarrow> (Inl e, db)
      | Commit \<Rightarrow>
          (case get_row session_id sid (metas db) of
             Some existing \<Rightarrow>
               if recorder_started_at existing = Some recorderStartedAt \<and> next_sequence existing = 0
               then (Inr True, db\<lparr>metas := delete_row session_id sid (metas db)\<rparr>)
               else (Inr False, db)
           | None \<Rightarrow> (Inr False, db)))"

definition deleteSessionRecords ::
  "tx \<Rightarrow> recording_db \<Rightarrow> string \<Rightarrow> (string + unit) \<times> recording_db" where
  "deleteSessionRecords t db sid =
     (case t of
        Abort e \<Rightarrow> (Inl e, db)
      | Commit \<Rightarrow>
          (Inr (), db\<lparr>metas := delete_row session_id sid (metas db),
                     chunks := filter (\<lambda>c. k_session_id c \<noteq> sid) (chunks db)\<rparr>))"

definition purgeExpiredMeta ::
  "tx \<Rightarrow> recording_db \<Rightarrow> recording_meta \<Rightarrow> ms \<Rightarrow> (string + bool) \<times> recording_db" where
  "purgeExpiredMeta t db m now =
     (if \<not> shouldDiscardMeta m now then (Inr False, db)
      else let (r, db') = deleteSessionRecords t db (session_id m)
        in (map_sum id (\<lambda>_. True) r, db'))"

section \<open>The invariant of the database\<close>

text \<open>
  What a slice is: its place in the take's time, its checksum and its bytes. The history \<open>h\<close>
  records the slice that a number was given to. The invariant says that the rows and slices
  are keyed, that every row is well formed, that the slices of a take so far divide its time
  without gap or overlap, and that every stored slice is the one its number was given to.
\<close>

type_synonym slice = "ms \<times> ms \<times> string \<times> blob"

definition slice_of :: "persisted_chunk \<Rightarrow> slice" where
  "slice_of c = (k_start_ms c, k_end_ms c, k_checksum c, k_blob c)"

definition slice_start :: "slice \<Rightarrow> ms" where
  "slice_start s = fst s"

definition slice_end :: "slice \<Rightarrow> ms" where
  "slice_end s = fst (snd s)"

type_synonym history = "string \<Rightarrow> seqno \<Rightarrow> slice"

definition end_before :: "history \<Rightarrow> string \<Rightarrow> seqno \<Rightarrow> ms" where
  "end_before h sid n = (if n = 0 then 0 else slice_end (h sid (n - 1)))"

definition timeline :: "history \<Rightarrow> recording_meta \<Rightarrow> bool" where
  "timeline h m \<longleftrightarrow>
     (\<forall>n. 0 \<le> n \<and> n < next_sequence m \<longrightarrow>
        slice_start (h (session_id m) n) = end_before h (session_id m) n) \<and>
     last_chunk_end_ms m = end_before h (session_id m) (next_sequence m)"

definition chunk_ok :: "history \<Rightarrow> recording_db \<Rightarrow> persisted_chunk \<Rightarrow> bool" where
  "chunk_ok h db c \<longleftrightarrow>
     slice_of c = h (k_session_id c) (k_sequence c) \<and> 0 \<le> k_sequence c \<and>
     (\<exists>m \<in> set (metas db). session_id m = k_session_id c \<and> k_sequence c < next_sequence m)"

definition db_inv :: "history \<Rightarrow> recording_db \<Rightarrow> bool" where
  "db_inv h db \<longleftrightarrow>
     store_wf session_id (metas db) \<and> store_wf chunk_key (chunks db) \<and>
     (\<forall>m \<in> set (metas db). meta_wf m \<and> timeline h m) \<and>
     (\<forall>c \<in> set (chunks db). chunk_ok h db c)"

lemma set_put_row: "set (put_row key r rows) = insert r {x \<in> set rows. key x \<noteq> key r}"
  by (auto simp: put_row_def delete_row_def set_insort_key)

lemma set_delete_row: "set (delete_row key k rows) = {x \<in> set rows. key x \<noteq> k}"
  by (auto simp: delete_row_def)

lemmas store_sets = set_put_row set_delete_row

lemma db_inv_open: "db_inv h (openRecordingDb None)"
  by (simp add: db_inv_def store_wf_def)

lemma meta_of: "db_inv h db \<Longrightarrow> get_row session_id sid (metas db) = Some m \<Longrightarrow>
    m \<in> set (metas db) \<and> session_id m = sid \<and> meta_wf m \<and> timeline h m"
  using get_row_key unfolding db_inv_def by metis

lemma meta_in: "db_inv h db \<Longrightarrow> m \<in> set (metas db) \<Longrightarrow>
    get_row session_id (session_id m) (metas db) = Some m"
  using set_get_row [of session_id "metas db" m] by (simp add: db_inv_def)

lemma no_meta: "get_row session_id sid (metas db) = None \<longleftrightarrow> (\<forall>m \<in> set (metas db). session_id m \<noteq> sid)"
  by (auto simp: get_row_def find_None_iff)

text \<open>A row replaced by one with the same owner, count and end.\<close>

lemma timeline_same_take: "same_take m m' \<Longrightarrow> timeline h m \<Longrightarrow> timeline h m'"
  by (simp add: timeline_def same_take_def)

lemma chunk_ok_replace:
  assumes "chunk_ok h db c" and "same_take m m'"
    and "\<And>x. x \<in> set (metas db) \<Longrightarrow> session_id x = session_id m \<Longrightarrow> x = m"
  shows "chunk_ok h (db\<lparr>metas := put_row session_id m' (metas db)\<rparr>) c"
  using assms unfolding chunk_ok_def same_take_def by (auto simp: set_put_row)

lemma db_inv_replace:
  assumes inv: "db_inv h db" and m: "get_row session_id sid (metas db) = Some m"
    and same: "same_take m m'" and wf: "meta_wf m'"
  shows "db_inv h (db\<lparr>metas := put_row session_id m' (metas db)\<rparr>)"
proof -
  from meta_of [OF inv m] have mm: "m \<in> set (metas db)" "session_id m = sid" "timeline h m" by auto
  have only: "x = m" if "x \<in> set (metas db)" "session_id x = session_id m" for x
    using meta_in [OF inv that(1)] that(2) m mm by simp
  from inv have rows: "store_wf session_id (metas db)" "store_wf chunk_key (chunks db)"
      "\<And>c. c \<in> set (chunks db) \<Longrightarrow> chunk_ok h db c"
      "\<And>x. x \<in> set (metas db) \<Longrightarrow> meta_wf x \<and> timeline h x"
    by (auto simp: db_inv_def)
  then show ?thesis
    using wf timeline_same_take [OF same mm(3)] chunk_ok_replace [OF _ same only]
    by (auto simp: db_inv_def store_wf_put set_put_row)
qed

context meta_mutation
begin

text \<open>Read-modify-write with a lawful mutation keeps the database.\<close>

lemma updateMeta_inv: "db_inv h db \<Longrightarrow> db_inv h (snd (updateMeta t db sid mutate))"
  by (auto simp: updateMeta_def Let_def split: tx.splits option.splits
      intro!: db_inv_replace mutate_same_take mutate_wf dest: meta_of)

lemma updateMeta_counter:
  "fst (updateMeta t db sid mutate) = Inr (Some m') \<Longrightarrow>
   \<exists>m. get_row session_id sid (metas db) = Some m \<and> m' = mutate m \<and> next_sequence m' = next_sequence m"
  by (auto simp: updateMeta_def Let_def mutate_counter split: tx.splits option.splits)

end

text \<open>Storing a slice extends the history at the next number and nowhere else.\<close>

definition record_slice :: "history \<Rightarrow> string \<Rightarrow> seqno \<Rightarrow> slice \<Rightarrow> history" where
  "record_slice h sid n s = h(sid := (h sid)(n := s))"

lemma record_slice_simps [simp]:
  "record_slice h sid n s sid n = s"
  "sid' \<noteq> sid \<Longrightarrow> record_slice h sid n s sid' k = h sid' k"
  "k \<noteq> n \<Longrightarrow> record_slice h sid n s sid' k = h sid' k"
  by (auto simp: record_slice_def)

lemma timeline_other:
  "session_id m \<noteq> sid \<Longrightarrow> timeline h m \<Longrightarrow> timeline (record_slice h sid n s) m"
  by (simp add: timeline_def end_before_def)

lemma timeline_store:
  assumes "timeline h m" and "0 \<le> next_sequence m"
    and "s = (last_chunk_end_ms m, e, c, b)"
  shows "timeline (record_slice h (session_id m) (next_sequence m) s)
           (fst (snd (buildStoredChunk m e c' b')))"
proof -
  have end_eq: "end_before (record_slice h (session_id m) (next_sequence m) s) (session_id m) n
      = end_before h (session_id m) n" if "n \<le> next_sequence m" for n
    using that by (simp add: end_before_def)
  have "slice_start (record_slice h (session_id m) (next_sequence m) s (session_id m) n)
      = end_before (record_slice h (session_id m) (next_sequence m) s) (session_id m) n"
    if "0 \<le> n" "n < next_sequence m + 1" for n
    using that assms end_eq [of n]
    by (cases "n = next_sequence m") (auto simp: timeline_def slice_start_def)
  then show ?thesis
    using assms by (simp add: timeline_def) (simp add: end_before_def slice_end_def)
qed

lemma buildStoredChunk_draft [simp]:
  "d_start_ms (snd (snd (buildStoredChunk m e c b))) = last_chunk_end_ms m"
  "d_end_ms (snd (snd (buildStoredChunk m e c b))) = e"
  by (simp_all add: buildStoredChunk_def assignChunkSequence_def)

definition new_row :: "string \<Rightarrow> recording_meta \<Rightarrow> blob \<Rightarrow> chunk_timing \<Rightarrow> persisted_chunk" where
  "new_row sid m blob timing =
     \<lparr>terminal = Some False, terminal_reason = None, next_attempt_at = 0,
      k_session_id = sid, k_sequence = next_sequence m,
      k_start_ms = last_chunk_end_ms m, k_end_ms = t_end_ms timing,
      k_checksum = t_checksum timing, k_blob = blob, k_attempts = 0\<rparr>"

lemma store_eq:
  "storeChunkAndBumpSequence Commit db sid blob timing =
     (let m = nullish (get_row session_id sid (metas db)) (emptyMeta sid (t_now timing));
          m' = fst (snd (buildStoredChunk m (t_end_ms timing) (t_checksum timing) (blob_size blob)))
      in (Inr (next_sequence m, m'),
          db\<lparr>chunks := put_row chunk_key (new_row sid m blob timing) (chunks db),
             metas := put_row session_id m' (metas db)\<rparr>))"
  by (simp add: storeChunkAndBumpSequence_def new_row_def buildStoredChunk_def
      assignChunkSequence_def Let_def)

lemma emptyMeta_fields [simp]:
  "session_id (emptyMeta sid now) = sid" "next_sequence (emptyMeta sid now) = 0"
  "last_chunk_end_ms (emptyMeta sid now) = 0"
  by (simp_all add: emptyMeta_def)

lemma timeline_empty [simp]: "timeline h (emptyMeta sid now)"
  by (simp add: timeline_def end_before_def)

lemma row_or_fresh:
  assumes "db_inv h db"
  shows "session_id (nullish (get_row session_id sid (metas db)) (emptyMeta sid now)) = sid \<and>
    meta_wf (nullish (get_row session_id sid (metas db)) (emptyMeta sid now)) \<and>
    timeline h (nullish (get_row session_id sid (metas db)) (emptyMeta sid now))"
  using meta_of [OF assms] meta_wf_empty by (cases "get_row session_id sid (metas db)") auto

lemma store_abort [simp]:
  "storeChunkAndBumpSequence (Abort e) db sid blob timing = (Inl e, db)"
  by (simp add: storeChunkAndBumpSequence_def)

lemma store_inv:
  assumes inv: "db_inv h db"
    and m: "m = nullish (get_row session_id sid (metas db)) (emptyMeta sid (t_now timing))"
  shows "db_inv (record_slice h sid (next_sequence m) (slice_of (new_row sid m blob timing)))
           (snd (storeChunkAndBumpSequence Commit db sid blob timing))"
    (is "db_inv ?h ?db")
proof -
  let ?m' = "fst (snd (buildStoredChunk m (t_end_ms timing) (t_checksum timing) (blob_size blob)))"
  let ?r = "new_row sid m blob timing"
  have mm: "session_id m = sid" "meta_wf m" "timeline h m"
    using row_or_fresh [OF inv] m by simp_all
  then have pos: "0 \<le> next_sequence m" by (simp add: meta_wf_def)
  have db: "?db = db\<lparr>chunks := put_row chunk_key ?r (chunks db),
      metas := put_row session_id ?m' (metas db)\<rparr>"
    by (simp add: store_eq m [symmetric] Let_def)
  have unique: "x = m" if "x \<in> set (metas db)" "session_id x = sid" for x
    using meta_in [OF inv that(1)] that(2) m by simp
  have old: "chunk_ok ?h ?db c" if "c \<in> set (chunks db)" for c
  proof -
    from inv that have c: "chunk_ok h db c" by (simp add: db_inv_def)
    then obtain x where x: "x \<in> set (metas db)" "session_id x = k_session_id c"
        "k_sequence c < next_sequence x"
      by (auto simp: chunk_ok_def)
    show ?thesis
    proof (cases "k_session_id c = sid")
      case True
      with x unique have "k_sequence c < next_sequence m" by auto
      with c True mm show ?thesis by (auto simp: chunk_ok_def db set_put_row)
    next
      case False
      with c x mm show ?thesis by (auto simp: chunk_ok_def db set_put_row)
    qed
  qed
  have new: "chunk_ok ?h ?db ?r"
    using mm pos by (auto simp: chunk_ok_def db set_put_row) (simp_all add: new_row_def)
  have "timeline ?h ?m'"
    using timeline_store [OF mm(3) pos] mm(1) by (simp add: slice_of_def new_row_def)
  moreover have "timeline ?h x" if "x \<in> set (metas db)" "session_id x \<noteq> sid" for x
    using inv that timeline_other by (simp add: db_inv_def)
  moreover have "meta_wf ?m'" using mm by (blast intro: meta_wf_build)
  ultimately show ?thesis
    using inv old new mm by (auto simp: db_inv_def db store_wf_put set_put_row)
qed

lemma deleteChunk_inv: "db_inv h db \<Longrightarrow> db_inv h (snd (deleteChunk t db sid n))"
  by (auto simp: deleteChunk_def db_inv_def chunk_ok_def store_wf_delete set_delete_row split: tx.splits)

lemma writeChunk_inv:
  "db_inv h db \<Longrightarrow> chunk_ok h db c \<Longrightarrow> db_inv h (snd (writeChunk t db c))"
  by (auto simp: writeChunk_def db_inv_def chunk_ok_def store_wf_put set_put_row split: tx.splits)

lemma writeMeta_fresh_inv:
  assumes inv: "db_inv h db" and fresh: "get_row session_id sid (metas db) = None"
  shows "db_inv h (snd (writeMeta t db (emptyMeta sid now)))"
proof -
  let ?db = "db\<lparr>metas := put_row session_id (emptyMeta sid now) (metas db)\<rparr>"
  from fresh have other: "session_id m \<noteq> sid" if "m \<in> set (metas db)" for m
    using that by (simp add: no_meta)
  have "chunk_ok h ?db c" if "c \<in> set (chunks db)" for c
  proof -
    from inv that have "chunk_ok h db c" by (simp add: db_inv_def)
    then show ?thesis using other unfolding chunk_ok_def by (auto simp: set_put_row)
  qed
  with inv have "db_inv h ?db"
    by (auto simp: db_inv_def store_wf_put set_put_row meta_wf_empty)
  with inv show ?thesis by (simp add: writeMeta_def split: tx.splits)
qed

lemma deleteUnstartedMeta_inv:
  assumes inv: "db_inv h db"
  shows "db_inv h (snd (deleteUnstartedMeta t db sid t0))"
proof -
  have "db_inv h (db\<lparr>metas := delete_row session_id sid (metas db)\<rparr>)"
    if m: "get_row session_id sid (metas db) = Some m" and "next_sequence m = 0" for m
  proof -
    have "k_session_id c \<noteq> sid" if c: "c \<in> set (chunks db)" for c
    proof
      assume "k_session_id c = sid"
      moreover obtain x where "x \<in> set (metas db)" "session_id x = k_session_id c"
          "0 \<le> k_sequence c" "k_sequence c < next_sequence x"
        using inv c by (auto simp: db_inv_def chunk_ok_def)
      ultimately show False
        using meta_in [OF inv, of x] m \<open>next_sequence m = 0\<close> by simp
    qed
    with inv show ?thesis
      by (auto simp: db_inv_def chunk_ok_def store_wf_delete set_delete_row) metis
  qed
  with inv show ?thesis
    by (auto simp: deleteUnstartedMeta_def split: tx.splits option.splits)
qed

lemma store_wf_filter: "store_wf key rows \<Longrightarrow> store_wf key (filter P rows)"
  unfolding store_wf_def by (auto intro: sorted_filter distinct_map_filter)

lemma deleteSessionRecords_inv: "db_inv h db \<Longrightarrow> db_inv h (snd (deleteSessionRecords t db sid))"
  by (auto simp: deleteSessionRecords_def db_inv_def chunk_ok_def store_wf_delete set_delete_row
      store_wf_filter split: tx.splits) metis

lemma purgeExpiredMeta_inv: "db_inv h db \<Longrightarrow> db_inv h (snd (purgeExpiredMeta t db m now))"
  by (simp add: purgeExpiredMeta_def deleteSessionRecords_inv split: prod.splits)
    (metis deleteSessionRecords_inv snd_conv)

lemmas db_inv_intros = deleteChunk_inv writeChunk_inv writeMeta_fresh_inv deleteUnstartedMeta_inv
  deleteSessionRecords_inv purgeExpiredMeta_inv

section \<open>Interleaved operations on one session\<close>

text \<open>
  The tasks of the page (the recorder, the upload, the finalize, the reload) run their
  transactions on one session in any order. These are the mutations they hand to
  \<open>updateMeta\<close>, and the operations on slices that they interleave with.
\<close>

datatype row_mutation =
    MStatus server_upload_status ms | MFailure upload_block | MAttempt ms bool
  | MClear ms "upload_block list" | MLost ms | MInterrupted ms | MReplaced ms | MHold | MRelease ms

fun mutation :: "row_mutation \<Rightarrow> recording_meta \<Rightarrow> recording_meta" where
  "mutation (MStatus status now) m = applyServerStatus m status now"
| "mutation (MFailure block) m = notePermanentFailure m block"
| "mutation (MAttempt now failed) m = noteFinalizeAttempt m now failed"
| "mutation (MClear now blocks) m = clearUnauthorizedUploadBlock m now blocks"
| "mutation (MLost now) m = persistRecorderLost m now"
| "mutation (MInterrupted now) m = persistInterrupted m now"
| "mutation (MReplaced now) m = persistReplaced m now"
| "mutation MHold m = holdForRecorderFlush m"
| "mutation (MRelease now) m = releaseRecorderFlush m now"

interpretation queue_mutation: meta_mutation "mutation k" for k
proof unfold_locales
  fix m
  show "same_take m (mutation k m)" by (cases k) (simp_all add: meta_frame)
  show "meta_wf m \<Longrightarrow> meta_wf (mutation k m)" by (cases k) auto
qed

datatype db_op =
    StoreSlice tx blob chunk_timing
  | Mutate tx row_mutation
  | DropSlice tx seqno
  | RetimeSlice tx persisted_chunk nat ms

fun db_op_step :: "string \<Rightarrow> db_op \<Rightarrow> recording_db \<Rightarrow> seqno list \<times> recording_db" where
  "db_op_step sid (StoreSlice t b timing) db =
     (case storeChunkAndBumpSequence t db sid b timing of
        (Inl e, db') \<Rightarrow> ([], db')
      | (Inr (n, m), db') \<Rightarrow> ([n], db'))"
| "db_op_step sid (Mutate t k) db = ([], snd (updateMeta t db sid (mutation k)))"
| "db_op_step sid (DropSlice t n) db = ([], snd (deleteChunk t db sid n))"
| "db_op_step sid (RetimeSlice t c attempts due) db =
     (if get_row chunk_key (sid, k_sequence c) (chunks db) = Some c
      then ([], snd (writeChunk t db (c\<lparr>k_attempts := attempts, next_attempt_at := due\<rparr>)))
      else ([], db))"

fun db_ops :: "string \<Rightarrow> db_op list \<Rightarrow> recording_db \<Rightarrow> seqno list \<times> recording_db" where
  "db_ops sid [] db = ([], db)"
| "db_ops sid (a # as) db =
     (let (ns, db1) = db_op_step sid a db; (ns', db2) = db_ops sid as db1 in (ns @ ns', db2))"

text \<open>What one operation does to the take: nothing, or the next number and one more slice.\<close>

definition take_at :: "history \<Rightarrow> string \<Rightarrow> recording_db \<Rightarrow> seqno \<Rightarrow> bool" where
  "take_at h sid db n \<longleftrightarrow>
     db_inv h db \<and> (\<exists>m. get_row session_id sid (metas db) = Some m \<and> next_sequence m = n)"

lemma updateMeta_take:
  "take_at h sid db n \<Longrightarrow> take_at h sid (snd (updateMeta t db sid (mutation k))) n"
  using queue_mutation.updateMeta_inv [of h db t sid k]
  by (auto simp: take_at_def updateMeta_def Let_def get_put_row queue_mutation.mutate_owner
      queue_mutation.mutate_counter dest: get_row_key split: tx.splits)

lemma retime_ok:
  "chunk_ok h db c \<Longrightarrow> chunk_ok h db (c\<lparr>k_attempts := a, next_attempt_at := t\<rparr>)"
  by (simp add: chunk_ok_def slice_of_def)

lemma chunk_of: "db_inv h db \<Longrightarrow> get_row chunk_key k (chunks db) = Some c \<Longrightarrow> chunk_ok h db c \<and> chunk_key c = k"
  using get_row_key [of chunk_key k "chunks db" c] by (simp add: db_inv_def)

lemma store_take:
  assumes "take_at h sid db n"
  shows "\<exists>s. take_at (record_slice h sid n s) sid
    (snd (storeChunkAndBumpSequence Commit db sid b timing)) (n + 1)"
proof -
  from assms obtain m where m: "get_row session_id sid (metas db) = Some m" "next_sequence m = n"
      "db_inv h db" "session_id m = sid"
    using meta_of by (auto simp: take_at_def)
  then have "db_inv (record_slice h sid n (slice_of (new_row sid m b timing)))
      (snd (storeChunkAndBumpSequence Commit db sid b timing))"
    using store_inv [of h db m sid timing b] by simp
  with m show ?thesis
    by (intro exI [of _ "slice_of (new_row sid m b timing)"])
      (simp add: take_at_def store_eq Let_def get_put_row)
qed

lemma db_op_take:
  assumes "take_at h sid db n" and "db_op_step sid a db = (ns, db')"
  shows "(ns = [] \<and> take_at h sid db' n) \<or>
    (ns = [n] \<and> (\<exists>s. take_at (record_slice h sid n s) sid db' (n + 1)))"
proof (cases a)
  case (StoreSlice t b timing)
  show ?thesis
  proof (cases t)
    case Commit
    from assms(1) obtain m where "get_row session_id sid (metas db) = Some m" "next_sequence m = n"
      by (auto simp: take_at_def)
    with assms(2) StoreSlice Commit store_take [OF assms(1), of b timing] show ?thesis
      by (auto simp: store_eq Let_def)
  qed (use assms StoreSlice in auto)
next
  case (Mutate t k)
  with assms updateMeta_take show ?thesis by auto
next
  case (DropSlice t k)
  from assms have "db_inv h (snd (deleteChunk t db sid k))"
    by (intro deleteChunk_inv) (simp add: take_at_def)
  with DropSlice assms show ?thesis
    by (auto simp: take_at_def deleteChunk_def split: tx.splits)
next
  case (RetimeSlice t c at1 at2)
  with assms have "db_inv h db" by (simp add: take_at_def)
  with RetimeSlice assms retime_ok chunk_of have "db_inv h db'"
    by (auto intro!: writeChunk_inv split: if_splits)
  with RetimeSlice assms show ?thesis
    by (auto simp: take_at_def writeChunk_def split: if_splits tx.splits)
qed



definition backlog :: "string \<Rightarrow> recording_db \<Rightarrow> seqno \<Rightarrow> slice option" where
  "backlog sid db n = map_option slice_of (get_row chunk_key (sid, n) (chunks db))"

fun drops :: "db_op \<Rightarrow> seqno \<Rightarrow> bool" where
  "drops (DropSlice t k) n = (k = n)"
| "drops _ n = False"

lemma backlog_step:
  assumes t: "take_at h sid db n" and a: "db_op_step sid a db = (ns, db')"
    and k: "backlog sid db k = Some s" and no: "\<not> drops a k"
  shows "backlog sid db' k = Some s"
proof (cases a)
  case (StoreSlice t b timing)
  from \<open>take_at h sid db n\<close> obtain m where m: "get_row session_id sid (metas db) = Some m" "next_sequence m = n"
    by (auto simp: take_at_def)
  from k obtain c where c: "get_row chunk_key (sid, k) (chunks db) = Some c"
    by (auto simp: backlog_def)
  have "k < n"
  proof -
    from chunk_of [of h db, OF _ c] \<open>take_at h sid db n\<close> obtain x where
      "x \<in> set (metas db)" "session_id x = sid" "k < next_sequence x"
      by (auto simp: take_at_def chunk_ok_def chunk_key_def)
    with \<open>take_at h sid db n\<close> m show ?thesis using meta_in [of h db x] by (simp add: take_at_def)
  qed
  with StoreSlice a k m show ?thesis
    by (cases t) (auto simp: store_eq Let_def backlog_def get_put_row chunk_key_def new_row_def)
next
  case (Mutate t f)
  with a k show ?thesis
    by (auto simp: updateMeta_def backlog_def Let_def split: tx.splits option.splits)
next
  case (DropSlice t j)
  with a k no show ?thesis
    by (auto simp: deleteChunk_def backlog_def get_delete_row split: tx.splits)
next
  case (RetimeSlice t c u v)
  have "k_session_id c = sid" if "get_row chunk_key (sid, k_sequence c) (chunks db) = Some c"
    using get_row_key [OF that] by (simp add: chunk_key_def)
  moreover have "slice_of (c\<lparr>k_attempts := u, next_attempt_at := v\<rparr>) = slice_of c"
    by (simp add: slice_of_def)
  ultimately show ?thesis using RetimeSlice a k
    by (auto simp: writeChunk_def backlog_def get_put_row chunk_key_def split: tx.splits if_splits)
qed

lemma backlog_ops:
  "take_at h sid db n \<Longrightarrow> db_ops sid as db = (ns, db') \<Longrightarrow> backlog sid db k = Some s \<Longrightarrow>
   \<forall>a \<in> set as. \<not> drops a k \<Longrightarrow> backlog sid db' k = Some s"
proof (induction as arbitrary: h db n ns)
  case (Cons a as)
  obtain ns1 db1 where a: "db_op_step sid a db = (ns1, db1)" by fastforce
  obtain ns2 where as: "db_ops sid as db1 = (ns2, db')"
    using Cons.prems(2) a by (auto split: prod.splits)
  obtain h1 n1 where "take_at h1 sid db1 n1" using db_op_take [OF Cons.prems(1) a] by blast
  from Cons.IH [OF this as] Cons.prems a as backlog_step [OF Cons.prems(1) a]
  show ?case by (auto split: prod.splits)
qed simp


section \<open>Properties\<close>

text \<open>
  Storing a slice is one transaction. If it aborts, nothing changed. If it commits, the
  slice is readable under the number it returns, its time starts where the previous slice
  ended, the row's counter moved by one, every other slice is as before, and the database keeps
  its invariant with the history extended at that number.
\<close>

theorem store_is_atomic:
  assumes "db_inv h db"
  shows "case storeChunkAndBumpSequence t db sid b timing of
      (Inl e, db') \<Rightarrow> db' = db
    | (Inr (n, m), db') \<Rightarrow>
        n = next_sequence (nullish (get_row session_id sid (metas db)) (emptyMeta sid (t_now timing))) \<and>
        next_sequence m = n + 1 \<and>
        readMeta Commit db' sid = Inr (Some m) \<and>
        backlog sid db' n = Some (end_before h sid n, t_end_ms timing, t_checksum timing, b) \<and>
        (\<forall>s k. (s, k) \<noteq> (sid, n) \<longrightarrow> backlog s db' k = backlog s db k) \<and>
        db_inv (record_slice h sid n (end_before h sid n, t_end_ms timing, t_checksum timing, b)) db'"
proof (cases t)
  case Commit
  define m where "m = nullish (get_row session_id sid (metas db)) (emptyMeta sid (t_now timing))"
  have m: "session_id m = sid" "timeline h m" using row_or_fresh [OF assms] by (simp_all add: m_def)
  then have "last_chunk_end_ms m = end_before h sid (next_sequence m)" by (simp add: timeline_def)
  moreover from this have "slice_of (new_row sid m b timing)
      = (end_before h sid (next_sequence m), t_end_ms timing, t_checksum timing, b)"
    by (simp add: slice_of_def new_row_def)
  ultimately show ?thesis
    using store_inv [OF assms m_def, of b] m
    by (simp add: Commit store_eq m_def [symmetric] Let_def readMeta_def backlog_def get_put_row
        chunk_key_def new_row_def)
qed simp

definition example_timing :: "ms \<Rightarrow> chunk_timing" where
  "example_timing t = \<lparr>t_end_ms = t, t_checksum = ''c'', t_now = t\<rparr>"

theorem store_is_atomic_witness:
  "case storeChunkAndBumpSequence Commit (openRecordingDb None) ''S1'' [1, 2] (example_timing 500) of
      (Inl e, db') \<Rightarrow> db' = openRecordingDb None
    | (Inr (n, m), db') \<Rightarrow>
        n = next_sequence (nullish (get_row session_id ''S1'' (metas (openRecordingDb None)))
          (emptyMeta ''S1'' (t_now (example_timing 500)))) \<and>
        next_sequence m = n + 1 \<and>
        readMeta Commit db' ''S1'' = Inr (Some m) \<and>
        backlog ''S1'' db' n = Some (end_before (\<lambda>_ _. (0, 0, [], [])) ''S1'' n,
          t_end_ms (example_timing 500), t_checksum (example_timing 500), [1, 2]) \<and>
        (\<forall>s k. (s, k) \<noteq> (''S1'', n) \<longrightarrow> backlog s db' k = backlog s (openRecordingDb None) k) \<and>
        db_inv (record_slice (\<lambda>_ _. (0, 0, [], [])) ''S1'' n
          (end_before (\<lambda>_ _. (0, 0, [], [])) ''S1'' n, t_end_ms (example_timing 500),
           t_checksum (example_timing 500), [1, 2])) db'"
  by (rule store_is_atomic [OF db_inv_open])


definition example_db :: recording_db where
  "example_db = snd (storeChunkAndBumpSequence Commit (openRecordingDb None) ''S1'' [7] (example_timing 500))"

definition example_ops :: "db_op list" where
  "example_ops = [StoreSlice Commit [8] (example_timing 900), Mutate Commit (MLost 950), DropSlice Commit 0,
     StoreSlice (Abort ''QuotaExceededError'') [9] (example_timing 990), StoreSlice Commit [9] (example_timing 999)]"

lemma example_db_row:
  "get_row session_id ''S1'' (metas example_db) = Some ((emptyMeta ''S1'' 500)\<lparr>
     next_sequence := 1, last_chunk_end_ms := 500\<rparr>)"
  by (simp add: example_db_def store_eq Let_def get_put_row get_row_def [of _ _ "[]"]
      buildStoredChunk_def assignChunkSequence_def example_timing_def)

lemma example_db_inv: "\<exists>h. db_inv h example_db"
  unfolding example_db_def by (rule exI, rule store_inv [OF db_inv_open refl])


text \<open>
  No slice is lost by the interleaving. A slice that is in the database stays there, with
  the same time, checksum and bytes, through every store, row mutation and retry of the page's
  tasks, until it is deleted under its own number; and the list the upload reads holds exactly
  the stored slices of the session, in the order of their numbers.
\<close>

theorem backlog_survives_interleaving:
  assumes "db_inv h db" and "get_row session_id sid (metas db) = Some m"
    and "db_ops sid as db = (ns, db')" and "\<forall>a \<in> set as. \<not> drops a k"
    and "backlog sid db k = Some s"
  shows "backlog sid db' k = Some s \<and>
    (\<exists>cs. listChunks Commit db' sid = Inr cs \<and> sorted (map k_sequence cs) \<and>
      (\<exists>c \<in> set cs. k_sequence c = k \<and> slice_of c = s) \<and>
      (\<forall>c. c \<in> set cs \<longleftrightarrow> c \<in> set (chunks db') \<and> k_session_id c = sid))"
proof -
  from assms have "take_at h sid db (next_sequence m)" by (simp add: take_at_def)
  from backlog_ops [OF this assms(3,5,4)] have b: "backlog sid db' k = Some s" .
  then obtain c where "get_row chunk_key (sid, k) (chunks db') = Some c" "slice_of c = s"
    by (auto simp: backlog_def)
  moreover from get_row_key [OF this(1)] have "c \<in> set (chunks db')" "k_session_id c = sid" "k_sequence c = k"
    by (auto simp: chunk_key_def)
  ultimately show ?thesis using b by (auto simp: listChunks_def)
qed

lemma example_backlog: "backlog ''S1'' example_db 0 = Some (0, 500, ''c'', [7])"
  by (simp add: backlog_def example_db_def store_eq Let_def get_put_row chunk_key_def new_row_def
      get_row_def [of _ _ "[]"] slice_of_def example_timing_def)

theorem backlog_survives_interleaving_witness:
  "\<exists>ns db' cs. db_ops ''S1'' (take 2 example_ops) example_db = (ns, db') \<and>
    backlog ''S1'' db' 0 = Some (0, 500, ''c'', [7]) \<and>
    listChunks Commit db' ''S1'' = Inr cs \<and> sorted (map k_sequence cs)"
proof -
  obtain h where h: "db_inv h example_db" using example_db_inv by blast
  obtain ns db' where run: "db_ops ''S1'' (take 2 example_ops) example_db = (ns, db')" by fastforce
  have "\<forall>a \<in> set (take 2 example_ops). \<not> drops a 0" by (simp add: example_ops_def)
  from backlog_survives_interleaving [OF h example_db_row run this example_backlog] run
  show ?thesis by auto
qed



end
