(* ===== verification/Tasks.thy ===== *)
theory Tasks
  imports Prelude
begin

text \<open>
  Asynchronous functions. An \<open>async\<close> function runs without interruption up to an \<open>await\<close>;
  there other tasks of the page may run, and the function goes on when the awaited answer
  arrives. A task is either done with a value, or waits with a request and a continuation
  that is given the answer and the state at that later time. Rejections are values of a sum.
  The theory gives the operators the models are written with, the interleaving of tasks as a
  step relation, and a locale in which a guarantee of every atomic step carries over to
  every interleaving.
\<close>

section \<open>Tasks\<close>

datatype (dead 's, dead 'q, dead 'r, 'a) task =
    Done 'a
  | Wait 'q "'r \<Rightarrow> 's \<Rightarrow> 's \<times> ('s, 'q, 'r, 'a) task"

type_synonym ('s, 'q, 'r, 'a) async = "'s \<Rightarrow> 's \<times> ('s, 'q, 'r, 'a) task"

primrec task_bind ::
  "('s, 'q, 'r, 'a) task \<Rightarrow> ('a \<Rightarrow> ('s, 'q, 'r, 'b) async) \<Rightarrow> ('s, 'q, 'r, 'b) async" where
  "task_bind (Done a) k = k a"
| "task_bind (Wait q f) k =
     (\<lambda>s. (s, Wait q (\<lambda>r s. case map_prod id (\<lambda>t. task_bind t k) (f r s) of (s', g) \<Rightarrow> g s')))"

text \<open>\<open>const x = await m; k\<close>\<close>

definition await ::
  "('s, 'q, 'r, 'a) async \<Rightarrow> ('a \<Rightarrow> ('s, 'q, 'r, 'b) async) \<Rightarrow> ('s, 'q, 'r, 'b) async" where
  "await m k = (\<lambda>s. task_bind (snd (m s)) k (fst (m s)))"

definition ret :: "'a \<Rightarrow> ('s, 'q, 'r, 'a) async" where
  "ret a = (\<lambda>s. (s, Done a))"

definition reading :: "('s \<Rightarrow> 'a) \<Rightarrow> ('s, 'q, 'r, 'a) async" where
  "reading f = (\<lambda>s. (s, Done (f s)))"

definition update :: "('s \<Rightarrow> 's) \<Rightarrow> ('s, 'q, 'r, unit) async" where
  "update f = (\<lambda>s. (f s, Done ()))"

definition ask :: "'q \<Rightarrow> ('s, 'q, 'r, 'r) async" where
  "ask q = (\<lambda>s. (s, Wait q (\<lambda>r s. (s, Done r))))"

text \<open>Something else happens to the state when the answer arrives, before the function goes on.\<close>

definition perform :: "'q \<Rightarrow> ('r \<Rightarrow> 's \<Rightarrow> 'a \<times> 's) \<Rightarrow> ('s, 'q, 'r, 'a) async" where
  "perform q f = (\<lambda>s. (s, Wait q (\<lambda>r s. (snd (f r s), Done (fst (f r s))))))"

text \<open>A statement sequence, a conditional statement, and functions that may reject.\<close>

definition andthen ::
  "('s, 'q, 'r, 'a) async \<Rightarrow> ('s, 'q, 'r, 'b) async \<Rightarrow> ('s, 'q, 'r, 'b) async" where
  "andthen m n = await m (\<lambda>_. n)"

definition attempt ::
  "('s, 'q, 'r, 'e + 'a) async \<Rightarrow> ('a \<Rightarrow> ('s, 'q, 'r, 'e + 'b) async)
    \<Rightarrow> ('s, 'q, 'r, 'e + 'b) async" where
  "attempt m k = await m (\<lambda>r. case r of Inl e \<Rightarrow> ret (Inl e) | Inr a \<Rightarrow> k a)"

definition catch ::
  "('s, 'q, 'r, 'e + 'a) async \<Rightarrow> ('e \<Rightarrow> ('s, 'q, 'r, 'e + 'a) async)
    \<Rightarrow> ('s, 'q, 'r, 'e + 'a) async" where
  "catch m h = await m (\<lambda>r. case r of Inl e \<Rightarrow> h e | Inr a \<Rightarrow> ret (Inr a))"

fun for_each :: "'x list \<Rightarrow> ('x \<Rightarrow> ('s, 'q, 'r, 'e + unit) async) \<Rightarrow> ('s, 'q, 'r, 'e + unit) async" where
  "for_each [] body = ret (Inr ())"
| "for_each (x # xs) body = attempt (body x) (\<lambda>_. for_each xs body)"

lemmas task_defs = await_def ret_def reading_def update_def ask_def perform_def andthen_def
  attempt_def catch_def

text \<open>Running one task alone, on the answers it is given in turn.\<close>

primrec drive :: "'r list \<Rightarrow> 's \<times> ('s, 'q, 'r, 'a) task \<Rightarrow> 's \<times> ('s, 'q, 'r, 'a) task" where
  "drive [] st = st"
| "drive (r # rs) st = (case st of (s, Done a) \<Rightarrow> (s, Done a) | (s, Wait q f) \<Rightarrow> drive rs (f r s))"

text \<open>The same with interference: before each answer the rest of the page changes the state.\<close>

primrec drive_env ::
  "(('s \<Rightarrow> 's) \<times> 'r) list \<Rightarrow> 's \<times> ('s, 'q, 'r, 'a) task \<Rightarrow> 's \<times> ('s, 'q, 'r, 'a) task" where
  "drive_env [] st = st"
| "drive_env (er # ers) st =
     (case st of (s, Done a) \<Rightarrow> (s, Done a) | (s, Wait q f) \<Rightarrow> drive_env ers (f (snd er) (fst er s)))"

section \<open>Interleaving\<close>

text \<open>
  \<open>enabled s q r\<close>: in state \<open>s\<close> the request \<open>q\<close> may be answered by \<open>r\<close>. \<open>starts s t s'\<close>: an event
  moves the page from \<open>s\<close> to \<open>s'\<close> and starts the task \<open>t\<close>.
\<close>

inductive interleave ::
  "('s \<Rightarrow> 'q \<Rightarrow> 'r \<Rightarrow> bool) \<Rightarrow> ('s \<Rightarrow> ('s, 'q, 'r, unit) task \<Rightarrow> 's \<Rightarrow> bool)
    \<Rightarrow> 's \<times> ('s, 'q, 'r, unit) task list \<Rightarrow> 's \<times> ('s, 'q, 'r, unit) task list \<Rightarrow> bool"
  for enabled starts where
  stop: "interleave enabled starts c c"
| resume: "interleave enabled starts c (s, ts) \<Longrightarrow> i < length ts \<Longrightarrow> ts ! i = Wait q f \<Longrightarrow>
    enabled s q r \<Longrightarrow> f r s = (s', t') \<Longrightarrow> interleave enabled starts c (s', ts[i := t'])"
| start: "interleave enabled starts c (s, ts) \<Longrightarrow> starts s t s' \<Longrightarrow>
    interleave enabled starts c (s', t # ts)"

text \<open>A task that runs alone, on answers that can arrive, is one of the interleavings.\<close>

primrec accepts ::
  "('s \<Rightarrow> 'q \<Rightarrow> 'r \<Rightarrow> bool) \<Rightarrow> 'r list \<Rightarrow> 's \<times> ('s, 'q, 'r, 'a) task \<Rightarrow> bool" where
  "accepts E [] st = True"
| "accepts E (r # rs) st =
     (case st of (s, Done a) \<Rightarrow> False | (s, Wait q f) \<Rightarrow> E s q r \<and> accepts E rs (f r s))"

lemma interleave_drive:
  "interleave E S c (s, ts) \<Longrightarrow> i < length ts \<Longrightarrow> accepts E rs (s, ts ! i) \<Longrightarrow>
   interleave E S c (fst (drive rs (s, ts ! i)), ts[i := snd (drive rs (s, ts ! i))])"
proof (induction rs arbitrary: s ts)
  case (Cons r rs)
  show ?case
  proof (cases "ts ! i")
    case (Done a)
    with Cons.prems show ?thesis by simp
  next
    case (Wait q f)
    obtain s1 t1 where f: "f r s = (s1, t1)" by fastforce
    with Cons.prems Wait have run: "interleave E S c (s1, ts[i := t1])"
      by (auto intro: interleave.resume)
    have "accepts E rs (s1, ts[i := t1] ! i)" using Cons.prems Wait f by simp
    with Cons.IH [OF run] Cons.prems(2) Wait f show ?thesis by simp
  qed
qed simp

lemma interleave_alone:
  assumes "S s0 (snd (m s0)) (fst (m s0))" and "accepts E rs (m s0)"
  shows "interleave E S (s0, []) (fst (drive rs (m s0)), [snd (drive rs (m s0))])"
proof -
  have "interleave E S (s0, []) (fst (m s0), [snd (m s0)])"
    by (rule interleave.start [OF interleave.stop]) (rule assms(1))
  from interleave_drive [OF this, of 0 rs] assms(2) show ?thesis by simp
qed

text \<open>
  A guarantee is a transitive relation on states that every atomic step satisfies. A task is
  safe in a state when, whatever steps of the guarantee happened while it waited, its next
  step satisfies the guarantee and leaves it safe, and its result satisfies \<open>Q\<close>.
\<close>

primrec safe ::
  "('s \<Rightarrow> 's \<Rightarrow> bool) \<Rightarrow> ('s \<Rightarrow> 'q \<Rightarrow> 'r \<Rightarrow> bool)
    \<Rightarrow> ('a \<Rightarrow> 's \<Rightarrow> bool) \<Rightarrow> ('s, 'q, 'r, 'a) task \<Rightarrow> 's \<Rightarrow> bool" where
  "safe G E Q (Done a) s = (\<forall>s'. G s s' \<longrightarrow> Q a s')"
| "safe G E Q (Wait q f) s = (\<forall>r s'. G s s' \<longrightarrow> E s' q r \<longrightarrow>
     (case map_prod id (safe G E Q) (f r s') of (s'', p) \<Rightarrow> G s' s'' \<and> p s''))"


lemma task_induct [case_names Done Wait]:
  assumes "\<And>a. P (Done a)" and "\<And>q f. (\<And>r s. P (snd (f r s))) \<Longrightarrow> P (Wait q f)"
  shows "P t"
proof (induction t)
  case (Wait q f)
  show ?case
  proof (rule assms(2))
    fix r s
    show "P (snd (f r s))"
      by (rule Wait [of "f r" "f r s"]) (simp_all add: Basic_BNFs.snds.simps)
  qed
qed (rule assms(1))

lemma safe_Wait [simp]:
  "safe G E Q (Wait q f) s \<longleftrightarrow> (\<forall>r s'. G s s' \<longrightarrow> E s' q r \<longrightarrow>
     G s' (fst (f r s')) \<and> safe G E Q (snd (f r s')) (fst (f r s')))"
  by (simp add: case_prod_beta)

lemma task_bind_Wait [simp]:
  "task_bind (Wait q f) k =
     (\<lambda>s. (s, Wait q (\<lambda>r s. task_bind (snd (f r s)) k (fst (f r s)))))"
  by (simp add: case_prod_beta)

declare safe.simps(2) [simp del] task_bind.simps(2) [simp del]

definition triple ::
  "('s \<Rightarrow> 's \<Rightarrow> bool) \<Rightarrow> ('s \<Rightarrow> 'q \<Rightarrow> 'r \<Rightarrow> bool)
    \<Rightarrow> ('s \<Rightarrow> bool) \<Rightarrow> ('s, 'q, 'r, 'a) async \<Rightarrow> ('a \<Rightarrow> 's \<Rightarrow> bool) \<Rightarrow> bool" where
  "triple G E P m Q \<longleftrightarrow> (\<forall>s. P s \<longrightarrow> G s (fst (m s)) \<and> safe G E Q (snd (m s)) (fst (m s)))"

definition lawful ::
  "('s \<Rightarrow> 's \<Rightarrow> bool) \<Rightarrow> ('s \<Rightarrow> 'q \<Rightarrow> 'r \<Rightarrow> bool) \<Rightarrow> ('s \<Rightarrow> bool)
    \<Rightarrow> ('s, 'q, 'r, 'a) async \<Rightarrow> bool" where
  "lawful G E I m \<longleftrightarrow> triple G E I m (\<lambda>_. I)"

locale guarantee =
  fixes G :: "'s \<Rightarrow> 's \<Rightarrow> bool" and E :: "'s \<Rightarrow> 'q \<Rightarrow> 'r \<Rightarrow> bool" and I :: "'s \<Rightarrow> bool"
  assumes G_refl: "G s s"
    and G_trans: "G s s' \<Longrightarrow> G s' s'' \<Longrightarrow> G s s''"
    and I_stable: "I s \<Longrightarrow> G s s' \<Longrightarrow> I s'"
begin

lemma safe_stable: "safe G E Q t s \<Longrightarrow> G s s' \<Longrightarrow> safe G E Q t s'"
proof (induction t rule: task_induct)
  case (Done a)
  from Done.prems(1) G_trans [OF Done.prems(2)] show ?case unfolding safe.simps(1) by blast
next
  case (Wait q f)
  from Wait.prems(1) G_trans [OF Wait.prems(2)] show ?case unfolding safe_Wait by blast
qed

lemma safe_weaken:
  "safe G E Q t s \<Longrightarrow> (\<And>a s'. Q a s' \<Longrightarrow> Q' a s') \<Longrightarrow> safe G E Q' t s"
  by (induction t arbitrary: s rule: task_induct) simp_all

lemma safe_bind:
  assumes k: "\<And>a. triple G E (Q a) (k a) R"
  shows "safe G E Q t s \<Longrightarrow>
    G s (fst (task_bind t k s)) \<and> safe G E R (snd (task_bind t k s)) (fst (task_bind t k s))"
proof (induction t arbitrary: s rule: task_induct)
  case (Done a)
  then have "Q a s" using G_refl by simp
  with k [of a] show ?case by (simp add: triple_def)
next
  case (Wait q f)
  have "G s' (fst (task_bind (snd (f r s')) k (fst (f r s')))) \<and>
      safe G E R (snd (task_bind (snd (f r s')) k (fst (f r s'))))
        (fst (task_bind (snd (f r s')) k (fst (f r s'))))"
    if "G s s'" "E s' q r" for r s'
  proof -
    from Wait.prems that have "G s' (fst (f r s'))" "safe G E Q (snd (f r s')) (fst (f r s'))"
      by auto
    with Wait.IH G_trans show ?thesis by blast
  qed
  with Wait.prems G_refl show ?case by simp
qed

text \<open>Composition. The preconditions and postconditions are facts that the guarantee keeps.\<close>

lemma triple_await:
  assumes "triple G E P m Q" and "\<And>a. triple G E (Q a) (k a) R"
  shows "triple G E P (await m k) R"
proof -
  have "G s (fst (await m k s)) \<and> safe G E R (snd (await m k s)) (fst (await m k s))" if "P s" for s
  proof -
    from assms(1) that have m: "G s (fst (m s))" "safe G E Q (snd (m s)) (fst (m s))"
      by (auto simp: triple_def)
    from safe_bind [of Q k R, OF assms(2) m(2)] G_trans [OF m(1)] show ?thesis
      by (auto simp: await_def)
  qed
  then show ?thesis by (simp add: triple_def)
qed

lemma triple_weaken:
  assumes "triple G E P m Q" and "\<And>s. P' s \<Longrightarrow> P s" and "\<And>a s. Q a s \<Longrightarrow> Q' a s"
  shows "triple G E P' m Q'"
  unfolding triple_def
proof (intro allI impI)
  fix s assume "P' s"
  with assms(1,2) have "G s (fst (m s))" "safe G E Q (snd (m s)) (fst (m s))"
    by (auto simp: triple_def)
  from this(1) safe_weaken [OF this(2) assms(3)]
  show "G s (fst (m s)) \<and> safe G E Q' (snd (m s)) (fst (m s))" ..
qed

lemma triple_lawful: "lawful G E I m \<Longrightarrow> triple G E I m (\<lambda>_. I)"
  by (simp add: lawful_def)

lemma triple_ret: "(\<And>s s'. P s \<Longrightarrow> G s s' \<Longrightarrow> Q a s') \<Longrightarrow> triple G E P (ret a) Q"
  by (simp add: triple_def ret_def G_refl)

lemma triple_ask:
  "(\<And>s r s' s''. P s \<Longrightarrow> G s s' \<Longrightarrow> E s' q r \<Longrightarrow> G s' s'' \<Longrightarrow> Q r s'') \<Longrightarrow> triple G E P (ask q) Q"
  by (simp add: triple_def ask_def G_refl)

lemma triple_perform:
  "(\<And>s r s'. P s \<Longrightarrow> G s s' \<Longrightarrow> E s' q r \<Longrightarrow> G s' (snd (f r s'))) \<Longrightarrow>
   (\<And>s r s' s''. P s \<Longrightarrow> G s s' \<Longrightarrow> E s' q r \<Longrightarrow> G (snd (f r s')) s'' \<Longrightarrow> Q (fst (f r s')) s'') \<Longrightarrow>
   triple G E P (perform q f) Q"
  by (simp add: triple_def perform_def G_refl)

lemma triple_update:
  "(\<And>s. P s \<Longrightarrow> G s (f s)) \<Longrightarrow> (\<And>s s'. P s \<Longrightarrow> G (f s) s' \<Longrightarrow> Q () s') \<Longrightarrow>
   triple G E P (update f) Q"
  by (simp add: triple_def update_def)

text \<open>What is read or written without waiting is known exactly by the next statement.\<close>

lemma triple_reading:
  "(\<And>x. triple G E (\<lambda>s. P s \<and> f s = x) (k x) Q) \<Longrightarrow> triple G E P (await (reading f) k) Q"
  by (simp add: triple_def await_def reading_def)

lemma triple_updating:
  assumes "\<And>s. P s \<Longrightarrow> G s (f s) \<and> P' (f s)" and "triple G E P' m Q"
  shows "triple G E P (andthen (update f) m) Q"
  using assms G_trans unfolding triple_def andthen_def await_def update_def by simp blast

lemma triple_attempt:
  assumes "triple G E P m (\<lambda>r s. case r of Inl e \<Rightarrow> Q (Inl e) s | Inr a \<Rightarrow> Q' a s)"
    and "\<And>e s s'. Q (Inl e) s \<Longrightarrow> G s s' \<Longrightarrow> Q (Inl e) s'"
    and "\<And>a. triple G E (Q' a) (k a) Q"
  shows "triple G E P (attempt m k) Q"
  unfolding attempt_def
proof (rule triple_await [OF assms(1)])
  fix r show "triple G E (\<lambda>s. case r of Inl e \<Rightarrow> Q (Inl e) s | Inr a \<Rightarrow> Q' a s)
    (case r of Inl e \<Rightarrow> ret (Inl e) | Inr a \<Rightarrow> k a) Q"
    by (cases r) (use assms(2) in \<open>auto intro: triple_ret assms(3)\<close>)
qed

text \<open>The same without conditions: every step satisfies the guarantee.\<close>

lemma lawful_await: "lawful G E I m \<Longrightarrow> (\<And>a. lawful G E I (k a)) \<Longrightarrow> lawful G E I (await m k)"
  unfolding lawful_def by (rule triple_await)

lemma lawful_ret: "lawful G E I (ret a)"
  unfolding lawful_def by (rule triple_ret) (rule I_stable)

lemma lawful_reading: "lawful G E I (reading f)"
  using I_stable by (simp add: lawful_def triple_def reading_def G_refl)

lemma lawful_update: "(\<And>s. I s \<Longrightarrow> G s (f s)) \<Longrightarrow> lawful G E I (update f)"
  unfolding lawful_def by (rule triple_update) (blast intro: I_stable)+

lemma lawful_ask: "lawful G E I (ask q)"
  unfolding lawful_def by (rule triple_ask) (blast intro: I_stable)+

lemma lawful_perform:
  "(\<And>r s. I s \<Longrightarrow> E s q r \<Longrightarrow> G s (snd (f r s))) \<Longrightarrow> lawful G E I (perform q f)"
  unfolding lawful_def by (rule triple_perform) (blast intro: I_stable)+

lemma lawful_andthen: "lawful G E I m \<Longrightarrow> lawful G E I n \<Longrightarrow> lawful G E I (andthen m n)"
  unfolding andthen_def by (rule lawful_await)

lemma lawful_attempt: "lawful G E I m \<Longrightarrow> (\<And>a. lawful G E I (k a)) \<Longrightarrow> lawful G E I (attempt m k)"
  unfolding attempt_def by (auto intro!: lawful_await lawful_ret split: sum.splits)

lemma lawful_catch: "lawful G E I m \<Longrightarrow> (\<And>e. lawful G E I (h e)) \<Longrightarrow> lawful G E I (catch m h)"
  unfolding catch_def by (auto intro!: lawful_await lawful_ret split: sum.splits)

lemma lawful_for_each: "(\<And>x. lawful G E I (body x)) \<Longrightarrow> lawful G E I (for_each xs body)"
  by (induction xs) (auto intro: lawful_ret lawful_attempt)

lemma lawful_if: "lawful G E I m \<Longrightarrow> lawful G E I n \<Longrightarrow> lawful G E I (if b then m else n)"
  by simp

lemma lawful_option:
  "lawful G E I m \<Longrightarrow> (\<And>x. lawful G E I (k x)) \<Longrightarrow> lawful G E I (case v of None \<Rightarrow> m | Some x \<Rightarrow> k x)"
  by (cases v) simp_all

lemma lawful_sum:
  "(\<And>x. lawful G E I (m x)) \<Longrightarrow> (\<And>x. lawful G E I (k x)) \<Longrightarrow>
   lawful G E I (case v of Inl x \<Rightarrow> m x | Inr x \<Rightarrow> k x)"
  by (cases v) simp_all

lemma lawful_let: "(\<And>x. lawful G E I (k x)) \<Longrightarrow> lawful G E I (let x = v in k x)"
  by (simp add: Let_def)

lemma lawful_prod: "(\<And>x y. lawful G E I (k x y)) \<Longrightarrow> lawful G E I (case v of (x, y) \<Rightarrow> k x y)"
  by (cases v) simp

lemma triple_attempt_lawful:
  assumes "lawful G E I m" and "\<And>a. triple G E I (k a) Q"
    and "\<And>e s. I s \<Longrightarrow> Q (Inl e) s"
  shows "triple G E I (attempt m k) Q"
  unfolding attempt_def
proof (rule triple_await)
  show "triple G E I m (\<lambda>_. I)" using assms(1) by (simp add: lawful_def)
  fix r show "triple G E I (case r of Inl e \<Rightarrow> ret (Inl e) | Inr a \<Rightarrow> k a) Q"
    by (cases r) (auto intro!: triple_ret assms dest: I_stable)
qed

text \<open>A fact that the guarantee keeps can be carried along.\<close>

lemma safe_frame:
  assumes "\<And>s s'. F s \<Longrightarrow> G s s' \<Longrightarrow> F s'"
  shows "safe G E Q t s \<Longrightarrow> F s \<Longrightarrow> safe G E (\<lambda>a s. Q a s \<and> F s) t s"
proof (induction t arbitrary: s rule: task_induct)
  case (Done a)
  with assms show ?case by simp
next
  case (Wait q f)
  have "G s' (fst (f r s')) \<and> safe G E (\<lambda>a s. Q a s \<and> F s) (snd (f r s')) (fst (f r s'))"
    if "G s s'" "E s' q r" for r s'
  proof -
    from Wait.prems(1) that have "G s' (fst (f r s'))" "safe G E Q (snd (f r s')) (fst (f r s'))"
      by auto
    with Wait.IH assms Wait.prems(2) that(1) show ?thesis by blast
  qed
  then show ?case by simp
qed

lemma triple_frame:
  assumes "\<And>s s'. F s \<Longrightarrow> G s s' \<Longrightarrow> F s'" and "triple G E P m Q"
  shows "triple G E (\<lambda>s. P s \<and> F s) m (\<lambda>a s. Q a s \<and> F s)"
  using assms safe_frame [of F] unfolding triple_def by blast

lemma lawful_frame:
  "(\<And>s s'. F s \<Longrightarrow> G s s' \<Longrightarrow> F s') \<Longrightarrow> lawful G E I m \<Longrightarrow> lawful G E (\<lambda>s. I s \<and> F s) m"
  unfolding lawful_def by (rule triple_frame)

lemmas lawful_intros = lawful_await lawful_ret lawful_reading lawful_update lawful_ask lawful_perform
  lawful_andthen lawful_attempt lawful_catch lawful_for_each lawful_if lawful_option lawful_sum
  lawful_let lawful_prod

text \<open>Every interleaving of safe tasks satisfies the guarantee.\<close>

lemma interleave_safe:
  assumes "interleave E starts (s0, []) (s, ts)"
    and "\<And>s t s'. I s \<Longrightarrow> starts s t s' \<Longrightarrow> G s s' \<and> safe G E (\<lambda>_ _. True) t s'"
    and "I s0"
  shows "G s0 s \<and> (\<forall>t \<in> set ts. safe G E (\<lambda>_ _. True) t s)"
  using assms(1)
proof (induction "(s0, [] :: ('s, 'q, 'r, unit) task list)" "(s, ts)" arbitrary: s ts rule: interleave.induct)
  case stop
  then show ?case by (simp add: G_refl)
next
  case (resume s ts i q f r s' t')
  from resume.hyps have "safe G E (\<lambda>_ _. True) (Wait q f) s"
    by (metis nth_mem)
  then have step: "G s s'" "safe G E (\<lambda>_ _. True) t' s'"
    using resume.hyps(4-6) G_refl [of s] by (simp_all, metis fst_conv, metis fst_conv snd_conv)
  have "safe G E (\<lambda>_ _. True) t s'" if "t \<in> set (ts[i := t'])" for t
    using set_update_subset_insert [of ts i t'] that step safe_stable resume by blast
  with step resume G_trans show ?case by blast
next
  case (start s ts t s')
  with assms(2,3) I_stable G_trans safe_stable show ?case by (simp, blast)
qed

end

end
