(* ===== verification/RecordingState.thy ===== *)
theory RecordingState
  imports RecordingDb Tasks
begin

text \<open>
  The state of \<open>apps/student/src/recordingController.ts\<close>: its module variables, what it can
  observe of the page (clock, recorders, camera streams, locks), the shared database, and the
  trace of what it did to the outside world, newest first. The texts shown to the user are
  constructors. The functions of the file that do not wait are here; those that do are in
  \<open>RecordingTasks\<close> and \<open>RecordingStart\<close>. \<open>emit\<close> only hands \<open>view\<close>, a function of the state, to
  the listeners, and has no counterpart.
\<close>

section \<open>Errors and texts\<close>

text \<open>What a rejected promise carries: an \<open>ApiError\<close> (status, code, message), or another error
  (its name and message).\<close>

datatype cause = ApiError int "string option" string | OtherError string string

fun cause_message :: "cause \<Rightarrow> string" where
  "cause_message (ApiError st code msg) = msg"
| "cause_message (OtherError name msg) = msg"

text \<open>\<open>String(cause)\<close> of an error.\<close>

fun cause_string :: "cause \<Rightarrow> string" where
  "cause_string (ApiError st code msg) = (if msg = [] then ''ApiError'' else ''ApiError: '' @ msg)"
| "cause_string (OtherError name msg) = (if msg = [] then name else name @ '': '' @ msg)"

datatype message =
    RevokedMessage | ReplacedMessage | AlreadyClaimedMessage | NotAdmittedMessage
  | TakeUnknownMessage | SessionEndedMessage | UnauthorizedMessage | ClaimFailedMessage
  | StartFailedMessage string | OtherTabMessage | BlockText block_message
  | NoDeviceMessage | DeviceBusyMessage | PermissionDeniedMessage | UnableToStart string
  | NoMediaRecorderMessage | MediaRecorderErrorMessage
  | QueueInterrupted string | StatusUnreadable string | QueueUnopened string
  | SliceNotSaved string | SliceUploadFailed seqno string | SlicesWaiting int
  | FinalizeNotSent string | StopNotSaved string

section \<open>Module state\<close>

datatype recorder_status = Idle | Requesting | Recording | Stopping | Stopped | ErrorStatus | Unavailable

datatype take_state = TakeUnknown | TakeFree | TakeClaimed

datatype shown_error = ShownChunk seqno | ShownHeld

record active_recorder =
  a_session :: string
  a_recorder :: nat
  a_stream :: "nat option"

text \<open>What the page did to the outside world, and what the recorder handed to it.\<close>

datatype effect =
    Produced nat nat string blob
  | StoredSlice string seqno slice
  | PurgedSession string
  | SentUpload string seqno slice
  | SentFinalize string finalize_payload
  | SentClaim string string
  | ClaimAnswered string string
  | CameraGranted nat
  | RecorderStarted string nat
  | StopCalled nat
  | TracksStopped nat
  | ChunkUploaded seqno ms

datatype job = UploadJob string | FinalizeJob string | PumpJob string | ReconcileJob string ms | RecheckJob string

record tab =
  db :: recording_db
  clock :: ms
  trace :: "effect list"
  jobs :: "job list"
  media_recorder :: bool
  media_devices :: bool
  web_locks :: bool
  constructor_fault :: "cause option"
  start_fault :: "cause option"
  running_recorders :: "nat list"
  fenced_recorders :: "nat list"
  next_recorder :: nat
  live_streams :: "nat list"
  lock_held :: "string option"
  active :: "active_recorder option"
  stop_as_lost :: bool
  release_timer :: "string option option"
  pump_timer :: "string option"
  chunk_task :: bool
  finalize_task :: bool
  chunk_persist_lost :: bool
  bound_session :: "string option"
  meta :: "recording_meta option"
  pending_count :: int
  uploaded_count :: int
  failed_count :: int
  error_message :: "message option"
  shown_error :: "shown_error option"
  transient_errors :: "(seqno \<times> message) list"
  warning :: "int option"
  can_start :: bool
  retryable :: bool
  status :: recorder_status
  in_flight :: "seqno list"
  chain :: "nat \<times> nat"
  settled :: "nat \<Rightarrow> nat"
  committing_stop :: "string option"
  revoked_sessions :: "string list"
  replaced_sessions :: "string list"
  admitted_sessions :: "string list"
  pending_take :: "(string \<times> string) option"
  start_task :: bool
  take_check :: "(string \<times> take_state) option"

text \<open>The module as it is loaded, over the database that is there.\<close>

definition initial_tab :: "recording_db \<Rightarrow> bool \<Rightarrow> bool \<Rightarrow> bool \<Rightarrow> tab" where
  "initial_tab d recorder devices locks =
     \<lparr>db = d, clock = 0, trace = [], jobs = [],
      media_recorder = recorder, media_devices = devices, web_locks = locks,
      constructor_fault = None, start_fault = None,
      running_recorders = [], fenced_recorders = [], next_recorder = 0, live_streams = [],
      lock_held = None, active = None, stop_as_lost = False, release_timer = None,
      pump_timer = None, chunk_task = False, finalize_task = False, chunk_persist_lost = False,
      bound_session = None, meta = None, pending_count = 0, uploaded_count = 0, failed_count = 0,
      error_message = None, shown_error = None, transient_errors = [], warning = None,
      can_start = True, retryable = False,
      status = (if recorder then Idle else Unavailable),
      in_flight = [], chain = (0, 0), settled = (\<lambda>_. 0), committing_stop = None,
      revoked_sessions = [], replaced_sessions = [], admitted_sessions = [],
      pending_take = None, start_task = False, take_check = None\<rparr>"

text \<open>A set of the code that only answers \<open>has\<close>.\<close>

definition set_add :: "'a \<Rightarrow> 'a list \<Rightarrow> 'a list" where
  "set_add x xs = (if x \<in> set xs then xs else xs @ [x])"

definition set_remove :: "'a \<Rightarrow> 'a list \<Rightarrow> 'a list" where
  "set_remove x xs = filter (\<lambda>y. y \<noteq> x) xs"

lemma set_of_sets [simp]:
  "set (set_add x xs) = insert x (set xs)" "set (set_remove x xs) = set xs - {x}"
  by (auto simp: set_add_def set_remove_def)

definition is_revoked :: "tab \<Rightarrow> string \<Rightarrow> bool" where
  "is_revoked s sid \<longleftrightarrow> sid \<in> set (revoked_sessions s)"

definition is_replaced :: "tab \<Rightarrow> string \<Rightarrow> bool" where
  "is_replaced s sid \<longleftrightarrow> sid \<in> set (replaced_sessions s)"

definition is_admitted :: "tab \<Rightarrow> string \<Rightarrow> bool" where
  "is_admitted s sid \<longleftrightarrow> sid \<in> set (admitted_sessions s)"

text \<open>\<open>recorder.state !== "inactive"\<close>, for the recorder of this session.\<close>

definition active_for :: "tab \<Rightarrow> string \<Rightarrow> active_recorder option" where
  "active_for s sid =
     (case active s of None \<Rightarrow> None | Some a \<Rightarrow> if a_session a = sid then Some a else None)"

definition recorder_live :: "tab \<Rightarrow> active_recorder \<Rightarrow> bool" where
  "recorder_live s a \<longleftrightarrow> a_recorder a \<in> set (running_recorders s)"

definition recording_here :: "tab \<Rightarrow> string \<Rightarrow> bool" where
  "recording_here s sid =
     (case active_for s sid of None \<Rightarrow> False | Some a \<Rightarrow> recorder_live s a)"

fun stopTracks :: "nat option \<Rightarrow> tab \<Rightarrow> tab" where
  "stopTracks None s = s"
| "stopTracks (Some st) s =
     s\<lparr>live_streams := set_remove st (live_streams s), trace := TracksStopped st # trace s\<rparr>"

text \<open>Calling \<open>recorder.stop()\<close>: the recorder becomes inactive, and its events follow later.\<close>

definition stop_recorder :: "nat \<Rightarrow> tab \<Rightarrow> tab" where
  "stop_recorder r s =
     s\<lparr>running_recorders := set_remove r (running_recorders s), trace := StopCalled r # trace s\<rparr>"

definition dropRecorderLock :: "tab \<Rightarrow> tab" where
  "dropRecorderLock s = s\<lparr>lock_held := None\<rparr>"

section \<open>What is on screen\<close>

definition currentTakeState :: "tab \<Rightarrow> take_state" where
  "currentTakeState s =
     (case (bound_session s, take_check s) of
        (Some b, Some (c, st)) \<Rightarrow>
          if c \<noteq> b then TakeUnknown
          else if map_option fst (pending_take s) = Some b \<and> st = TakeClaimed \<and> meta s = None
            then TakeFree
          else st
      | _ \<Rightarrow> TakeUnknown)"

record recording_view =
  v_status :: recorder_status
  v_stream :: "nat option"
  v_error :: "message option"
  v_uploaded :: int
  v_failed :: int
  v_pending :: int
  v_banner :: close_banner
  v_storage_warning :: "int option"
  v_can_start :: bool
  v_take_check :: take_state

definition view :: "tab \<Rightarrow> recording_view" where
  "view s =
     \<lparr>v_status = status s,
      v_stream = Option.bind (active s) a_stream,
      v_error = error_message s,
      v_uploaded = uploaded_count s,
      v_failed = failed_count s,
      v_pending = pending_count s,
      v_banner = closeBanner (meta s) (pending_count s),
      v_storage_warning = warning s,
      v_can_start =
        (can_start s \<and>
         \<not> (case bound_session s of None \<Rightarrow> False | Some b \<Rightarrow> is_revoked s b) \<and>
         \<not> (case bound_session s of None \<Rightarrow> False | Some b \<Rightarrow> is_replaced s b) \<and>
         currentTakeState s \<noteq> TakeClaimed),
      v_take_check = currentTakeState s\<rparr>"

section \<open>Failures\<close>

definition rememberChunkFailure :: "seqno \<Rightarrow> message \<Rightarrow> tab \<Rightarrow> tab" where
  "rememberChunkFailure sequence msg s =
     s\<lparr>transient_errors := map_set sequence msg (transient_errors s),
       error_message := Some msg, shown_error := Some (ShownChunk sequence)\<rparr>"

definition rememberHeldFailure :: "message \<Rightarrow> tab \<Rightarrow> tab" where
  "rememberHeldFailure msg s = s\<lparr>error_message := Some msg, shown_error := Some ShownHeld\<rparr>"

definition forgetError :: "tab \<Rightarrow> tab" where
  "forgetError s = s\<lparr>error_message := None, shown_error := None, transient_errors := []\<rparr>"

definition retry_waiting :: "persisted_chunk \<Rightarrow> bool" where
  "retry_waiting c \<longleftrightarrow> k_attempts c > 0 \<and> terminal c \<noteq> Some True"

definition syncTransientChunkError :: "seqno list \<Rightarrow> persisted_chunk list \<Rightarrow> tab \<Rightarrow> tab" where
  "syncTransientChunkError received localChunks s =
     (case shown_error s of
        Some (ShownChunk shown) \<Rightarrow>
          let queued = map k_sequence localChunks;
              errors = filter (\<lambda>(n, _). \<not> (n \<notin> set queued \<and> n \<in> set received)) (transient_errors s);
              s1 = s\<lparr>transient_errors := errors\<rparr>
          in if map_has shown errors then s1
             else (case filter retry_waiting localChunks of
                 [] \<Rightarrow> s1\<lparr>error_message := None, shown_error := None\<rparr>
               | w # ws \<Rightarrow>
                   let next = nullish (find (\<lambda>c. map_has (k_sequence c) errors) (w # ws)) w
                   in (case map_of errors (k_sequence next) of
                       Some stored \<Rightarrow>
                         s1\<lparr>error_message := Some stored, shown_error := Some (ShownChunk (k_sequence next))\<rparr>
                     | None \<Rightarrow>
                         let msg = SlicesWaiting (int (length (w # ws)))
                         in s1\<lparr>transient_errors := map_set (k_sequence next) msg errors,
                               error_message := Some msg,
                               shown_error := Some (ShownChunk (k_sequence next))\<rparr>))
      | _ \<Rightarrow> s)"

definition notePumpFailure :: "cause \<Rightarrow> tab \<Rightarrow> tab" where
  "notePumpFailure c = rememberHeldFailure (QueueInterrupted (cause_message c))"

fun describeMediaError :: "cause \<Rightarrow> message \<times> bool" where
  "describeMediaError (OtherError name msg) =
     (if name \<in> {''NotFoundError'', ''OverconstrainedError''} then (NoDeviceMessage, True)
      else if name \<in> {''NotReadableError'', ''AbortError''} then (DeviceBusyMessage, True)
      else if name \<in> {''NotAllowedError'', ''SecurityError''} then (PermissionDeniedMessage, False)
      else (UnableToStart (cause_string (OtherError name msg)), False))"
| "describeMediaError (ApiError st code msg) =
     (UnableToStart (cause_string (ApiError st code msg)), False)"

section \<open>Credentials, claims and blocks\<close>

fun isRevokedCredential :: "cause \<Rightarrow> bool" where
  "isRevokedCredential (ApiError st code msg) = (st = 401 \<and> code = Some ''revoked_session_token'')"
| "isRevokedCredential (OtherError name msg) = False"

definition isRevokedCloseReason :: "string option \<Rightarrow> bool" where
  "isRevokedCloseReason reason \<longleftrightarrow> reason = Some ''token_revoked''"

definition blockMessage :: "tab \<Rightarrow> string \<Rightarrow> upload_block \<Rightarrow> message" where
  "blockMessage s sid block =
     (if block = Unauthorized \<and> is_revoked s sid then RevokedMessage
      else BlockText (permanentBlockMessage (Some block)))"

fun block_of :: "cause \<Rightarrow> upload_block option" where
  "block_of (ApiError st code msg) = permanentUploadBlock st code"
| "block_of (OtherError name msg) = None"

datatype claim_outcome =
    ClaimClaimed | ClaimLegacy | ClaimAlready | ClaimEnded | ClaimNotAdmitted | ClaimRevoked
  | ClaimUnauthorized | ClaimFailed

fun classifyClaimError :: "cause \<Rightarrow> claim_outcome" where
  "classifyClaimError (OtherError name msg) = ClaimFailed"
| "classifyClaimError (ApiError st code msg) =
     (if st = 409 then
        (if code = Some ''recording_already_claimed'' then ClaimAlready
         else if code = Some ''session_ended'' then ClaimEnded
         else if code = Some ''role_not_admitted'' then ClaimNotAdmitted
         else ClaimAlready)
      else if st = 401 then
        (if isRevokedCredential (ApiError st code msg) then ClaimRevoked else ClaimUnauthorized)
      else if st = 405 \<or> (st = 404 \<and> code = Some ''Not Found'') then ClaimLegacy
      else ClaimFailed)"

definition startBlocked :: "tab \<Rightarrow> string \<Rightarrow> message option" where
  "startBlocked s sid =
     (if is_revoked s sid then Some RevokedMessage
      else if is_replaced s sid then Some ReplacedMessage
      else if \<not> is_admitted s sid then Some NotAdmittedMessage
      else None)"

definition holdStartRefusal :: "message \<Rightarrow> tab \<Rightarrow> tab" where
  "holdStartRefusal msg s = (rememberHeldFailure msg s)\<lparr>retryable := False, status := Idle\<rparr>"

definition lockAlreadyClaimed :: "string \<Rightarrow> tab \<Rightarrow> tab" where
  "lockAlreadyClaimed sid s =
     holdStartRefusal AlreadyClaimedMessage
       (s\<lparr>take_check := Some (sid, TakeClaimed), can_start := False\<rparr>)"

definition showClaimedElsewhere :: "string \<Rightarrow> tab \<Rightarrow> tab" where
  "showClaimedElsewhere sid s =
     (if bound_session s = Some sid \<and> meta s = None \<and>
         map_option fst (pending_take s) \<noteq> Some sid \<and>
         take_check s = Some (sid, TakeClaimed)
      then lockAlreadyClaimed sid s else s)"

section \<open>Declarations\<close>

definition mergeReload ::
  "recording_meta \<Rightarrow> server_upload_status option \<Rightarrow> ms \<Rightarrow> bool \<Rightarrow> recording_meta" where
  "mergeReload latest serverStatus now recorderStillHere =
     (let next = (case serverStatus of None \<Rightarrow> latest | Some st \<Rightarrow> applyServerStatus latest st now);
          next1 = (if planReload (Some next) = PlanRecorderLost \<and> \<not> recorderStillHere
                   then persistRecorderLost next now else next)
      in if \<not> recorderStillHere then releaseRecorderFlush next1 now else next1)"

fun sameFinalizePayload :: "finalize_payload option \<Rightarrow> finalize_payload \<Rightarrow> bool" where
  "sameFinalizePayload None right = False"
| "sameFinalizePayload (Some left) right =
     (p_final_sequence left = p_final_sequence right \<and>
      p_total_chunks left = p_total_chunks right \<and>
      p_total_duration_ms left = p_total_duration_ms right \<and>
      p_reason left = p_reason right)"

definition operator_if :: "bool \<Rightarrow> recording_meta \<Rightarrow> recording_meta" where
  "operator_if b m = (if b then m\<lparr>needs_operator := True\<rparr> else m)"

definition declareStop :: "tab \<Rightarrow> recording_meta \<Rightarrow> bool \<Rightarrow> string \<Rightarrow> ms \<Rightarrow> recording_meta" where
  "declareStop s latest lost sid now =
     (if recorder_state latest = RsLost then
        let kept = (if is_revoked s sid then persistInterrupted latest now
                    else if is_replaced s sid then persistReplaced latest now
                    else latest)
        in operator_if (chunk_persist_lost s) kept
      else if lost then operator_if (chunk_persist_lost s) (persistRecorderLost latest now)
      else if finalize_pending latest \<and> finalize_persisted_at latest \<noteq> None then latest
      else persistStop latest now)"

end
