(* ===== verification/RecordingTasks.thy ===== *)
theory RecordingTasks
  imports RecordingState
begin

text \<open>
  The asynchronous functions of \<open>apps/student/src/recordingController.ts\<close> for a take that has
  started: storing slices, the reload, the upload and the finalize, the interruption by a
  revocation or a takeover, and the stop. A transaction is one step of the task that runs it,
  and its continuation a later one, so other tasks run in between.
\<close>

section \<open>What the functions wait for\<close>

record finalize_result =
  f_finalize_state :: server_finalize_state
  f_recording_state :: string
  f_final_sequence :: "seqno option"
  f_missing_sequences :: "seqno list"

datatype request =
    OpenDb | Transaction | Turn
  | UploadRequest string seqno slice | StatusRequest string | FinalizeRequest string finalize_payload
  | ClaimRequest string string | CameraRequest | LockRequest string | LocksQuery
  | Sleep ms | DigestRequest blob | ChainRequest nat nat | JoinTasks

datatype answer =
    Continue | Rejected cause | TxIs tx | Accepted | StatusIs server_upload_status
  | FinalizeIs finalize_result | StreamIs nat | LockIs bool | LocksAre "string list" | DigestIs string

text \<open>Which answers can arrive: a storage chain answers when its earlier slices are settled.\<close>

fun rejects :: "answer \<Rightarrow> bool" where
  "rejects (Rejected c) = True"
| "rejects _ = False"

definition enabled :: "tab \<Rightarrow> request \<Rightarrow> answer \<Rightarrow> bool" where
  "enabled s q r =
     (case q of
        Transaction \<Rightarrow> (case r of TxIs t \<Rightarrow> True | _ \<Rightarrow> False)
      | Turn \<Rightarrow> r = Continue
      | Sleep d \<Rightarrow> r = Continue
      | ChainRequest g n \<Rightarrow> r = Continue \<and> n \<le> settled s g
      | OpenDb \<Rightarrow> r = Continue \<or> rejects r
      | JoinTasks \<Rightarrow> r = Continue \<or> rejects r
      | UploadRequest sid n sl \<Rightarrow> r = Accepted \<or> rejects r
      | ClaimRequest sid t \<Rightarrow> r = Accepted \<or> rejects r
      | StatusRequest sid \<Rightarrow> (case r of StatusIs st \<Rightarrow> True | _ \<Rightarrow> rejects r)
      | FinalizeRequest sid p \<Rightarrow> (case r of FinalizeIs f \<Rightarrow> True | _ \<Rightarrow> rejects r)
      | CameraRequest \<Rightarrow> (case r of StreamIs n \<Rightarrow> n \<notin> set (live_streams s) | _ \<Rightarrow> rejects r)
      | LockRequest sid \<Rightarrow> (case r of LockIs b \<Rightarrow> True | _ \<Rightarrow> rejects r)
      | LocksQuery \<Rightarrow> (case r of LocksAre names \<Rightarrow> True | _ \<Rightarrow> rejects r)
      | DigestRequest b \<Rightarrow> (case r of DigestIs h \<Rightarrow> True | _ \<Rightarrow> rejects r))"

type_synonym 'a action = "(tab, request, answer, cause + 'a) async"

definition unexpected :: cause where
  "unexpected = OtherError ''Error'' ''unexpected answer''"

definition finished :: "unit action" where
  "finished = ret (Inr ())"

definition open_db :: "unit action" where
  "open_db = await (ask OpenDb)
     (\<lambda>r. ret (case r of Continue \<Rightarrow> Inr () | Rejected c \<Rightarrow> Inl c | _ \<Rightarrow> Inl unexpected))"

definition transaction_step ::
  "(tab \<Rightarrow> tx \<Rightarrow> recording_db \<Rightarrow> (string + 'a) \<times> recording_db) \<Rightarrow> (recording_db \<Rightarrow> 'a \<Rightarrow> effect list)
    \<Rightarrow> answer \<Rightarrow> tab \<Rightarrow> (cause + 'a) \<times> tab" where
  "transaction_step f note r s =
     (case r of
        TxIs t \<Rightarrow>
          (case f s t (db s) of
             (Inl e, d) \<Rightarrow> (Inl (OtherError ''Error'' e), s\<lparr>db := d\<rparr>)
           | (Inr a, d) \<Rightarrow> (Inr a, s\<lparr>db := d, trace := note d a @ trace s\<rparr>))
      | _ \<Rightarrow> (Inl unexpected, s))"

definition transaction ::
  "(tab \<Rightarrow> tx \<Rightarrow> recording_db \<Rightarrow> (string + 'a) \<times> recording_db) \<Rightarrow> (recording_db \<Rightarrow> 'a \<Rightarrow> effect list) \<Rightarrow> 'a action" where
  "transaction f note =
     await (perform Transaction (transaction_step f note)) (\<lambda>x. await (ask Turn) (\<lambda>_. ret x))"

definition tx_read :: "(tx \<Rightarrow> recording_db \<Rightarrow> string + 'a) \<Rightarrow> 'a action" where
  "tx_read f = transaction (\<lambda>_ t d. (f t d, d)) (\<lambda>_ _. [])"

definition read_row :: "string \<Rightarrow> recording_meta option action" where
  "read_row sid = tx_read (\<lambda>t d. readMeta t d sid)"

definition read_chunks :: "string \<Rightarrow> persisted_chunk list action" where
  "read_chunks sid = tx_read (\<lambda>t d. listChunks t d sid)"

definition delete_chunk :: "string \<Rightarrow> seqno \<Rightarrow> unit action" where
  "delete_chunk sid n = transaction (\<lambda>_ t d. deleteChunk t d sid n) (\<lambda>_ _. [])"

definition write_chunk :: "persisted_chunk \<Rightarrow> unit action" where
  "write_chunk c = transaction (\<lambda>_ t d. writeChunk t d c) (\<lambda>_ _. [])"

text \<open>Read-modify-write of the row; the callback sees the state of the moment it runs.\<close>

definition updating ::
  "string \<Rightarrow> (tab \<Rightarrow> recording_meta \<Rightarrow> recording_meta) \<Rightarrow> recording_meta option action" where
  "updating sid g = transaction (\<lambda>s t d. updateMeta t d sid (g s)) (\<lambda>_ _. [])"

definition purge :: "recording_meta \<Rightarrow> ms \<Rightarrow> bool action" where
  "purge m now = transaction (\<lambda>_ t d. purgeExpiredMeta t d m now)
     (\<lambda>_ gone. if gone then [PurgedSession (session_id m)] else [])"

definition note_meta :: "recording_meta option \<Rightarrow> tab \<Rightarrow> tab" where
  "note_meta u s = (case u of None \<Rightarrow> s | Some m \<Rightarrow> s\<lparr>meta := Some m\<rparr>)"

definition fetchUploadStatus :: "string \<Rightarrow> server_upload_status action" where
  "fetchUploadStatus sid = await (ask (StatusRequest sid))
     (\<lambda>r. ret (case r of StatusIs st \<Rightarrow> Inr st | Rejected c \<Rightarrow> Inl c | _ \<Rightarrow> Inl unexpected))"

definition uploadRecordingChunk :: "persisted_chunk \<Rightarrow> unit action" where
  "uploadRecordingChunk c =
     andthen (update (\<lambda>s. s\<lparr>trace := SentUpload (k_session_id c) (k_sequence c) (slice_of c) # trace s\<rparr>))
      (await (ask (UploadRequest (k_session_id c) (k_sequence c) (slice_of c)))
        (\<lambda>r. ret (case r of Accepted \<Rightarrow> Inr () | Rejected e \<Rightarrow> Inl e | _ \<Rightarrow> Inl unexpected)))"

definition finalizeRecording :: "string \<Rightarrow> finalize_payload \<Rightarrow> finalize_result action" where
  "finalizeRecording sid p =
     andthen (update (\<lambda>s. s\<lparr>trace := SentFinalize sid p # trace s\<rparr>))
      (await (ask (FinalizeRequest sid p))
        (\<lambda>r. ret (case r of FinalizeIs x \<Rightarrow> Inr x | Rejected e \<Rightarrow> Inl e | _ \<Rightarrow> Inl unexpected)))"

definition sha256Hex :: "blob \<Rightarrow> string action" where
  "sha256Hex b = await (ask (DigestRequest b))
     (\<lambda>r. ret (case r of DigestIs h \<Rightarrow> Inr h | Rejected e \<Rightarrow> Inl e | _ \<Rightarrow> Inl unexpected))"

definition recorderHeldElsewhere :: "string \<Rightarrow> (tab, request, answer, bool) async" where
  "recorderHeldElsewhere sid =
     await (reading web_locks) (\<lambda>locks.
       if \<not> locks then ret False
       else await (ask LocksQuery)
         (\<lambda>r. ret (case r of LocksAre names \<Rightarrow> sid \<in> set names | _ \<Rightarrow> False)))"

section \<open>The queue in memory\<close>

definition refreshPending :: "string \<Rightarrow> persisted_chunk list action" where
  "refreshPending sid =
     attempt open_db (\<lambda>_.
     attempt (read_chunks sid) (\<lambda>cs.
     andthen (update (\<lambda>s. s\<lparr>
       pending_count := int (length cs),
       failed_count := int (length (filter retry_waiting cs)),
       warning := storageWarning (sum_list (map (\<lambda>c. blob_size (k_blob c)) cs))\<rparr>))
     (ret (Inr cs))))"

section \<open>The server's word on the take\<close>

definition checkTake :: "string \<Rightarrow> (tab, request, answer, take_state) async" where
  "checkTake sid =
     await (fetchUploadStatus sid) (\<lambda>r.
       let st = (case r of
           Inl c \<Rightarrow> TakeUnknown
         | Inr word \<Rightarrow> if takeAlreadyStarted word then TakeClaimed else TakeFree)
       in andthen (update (\<lambda>s. s\<lparr>take_check := Some (sid, st)\<rparr>)) (ret st))"

definition setSocketAdmitted :: "string \<Rightarrow> bool \<Rightarrow> unit action" where
  "setSocketAdmitted sid admitted =
     andthen (update (\<lambda>s. s\<lparr>admitted_sessions :=
         (if admitted then set_add sid (admitted_sessions s) else set_remove sid (admitted_sessions s))\<rparr>))
     (await (reading (\<lambda>s. admitted \<and> bound_session s = Some sid \<and> meta s = None \<and>
           currentTakeState s = TakeUnknown)) (\<lambda>ask_now.
       if ask_now then await (checkTake sid) (\<lambda>_. andthen (update (showClaimedElsewhere sid)) finished)
       else finished))"

section \<open>Reload\<close>

definition reconcile_merge ::
  "string \<Rightarrow> recording_meta \<Rightarrow> ms \<Rightarrow> bool \<Rightarrow> recording_meta option action" where
  "reconcile_merge sid current now still =
     await
      (attempt (fetchUploadStatus sid) (\<lambda>serverStatus.
       attempt (read_chunks sid) (\<lambda>cs.
       attempt (for_each (sequencesAlreadyReceived (map k_sequence cs) (s_received_sequences serverStatus))
                  (delete_chunk sid)) (\<lambda>_.
       updating sid (\<lambda>_ latest. mergeReload latest (Some serverStatus) now still)))))
      (\<lambda>r. case r of
         Inr updated \<Rightarrow> ret (Inr (or_else updated (Some current)))
       | Inl c \<Rightarrow>
           andthen (update (rememberHeldFailure (StatusUnreadable (cause_message c))))
           (attempt (updating sid (\<lambda>_ latest. mergeReload latest None now still))
             (\<lambda>updated. ret (Inr (or_else updated (Some current))))))"

definition reconcile_row :: "string \<Rightarrow> recording_meta \<Rightarrow> ms \<Rightarrow> unit action" where
  "reconcile_row sid current now =
     await (reading (\<lambda>s. (recording_here s sid,
         active_for s sid \<noteq> None \<or> committing_stop s = Some sid))) (\<lambda>(recorderHere, stopping).
     let stopPendingHere = (\<not> recorderHere \<and> stopping);
         recorderStillHere = (recorderHere \<or> stopPendingHere) in
     await (if \<not> recorderHere \<and> \<not> stopPendingHere \<and>
              (recorder_state current = RsRecording \<or> flush_pending current)
            then recorderHeldElsewhere sid else ret False) (\<lambda>recordingElsewhere.
     if recordingElsewhere then
       andthen (update (\<lambda>s. rememberHeldFailure OtherTabMessage
         (s\<lparr>meta := Some current, can_start := False, status := Idle, jobs := RecheckJob sid # jobs s\<rparr>))) finished
     else
       attempt (reconcile_merge sid current now recorderStillHere) (\<lambda>row.
       andthen (update (\<lambda>s. s\<lparr>meta := row, can_start := False, status :=
         (if recorderHere then Recording
          else if stopPendingHere then Stopping
          else if planReload row \<noteq> PlanIdle then Stopped
          else status s)\<rparr>)) finished)))"

definition reconcile :: "string \<Rightarrow> ms \<Rightarrow> unit action" where
  "reconcile sid now =
     attempt open_db (\<lambda>_.
     attempt (read_row sid) (\<lambda>row.
     attempt (case row of None \<Rightarrow> ret (Inr False) | Some m \<Rightarrow> purge m now) (\<lambda>gone.
     if gone then andthen (update (\<lambda>s. s\<lparr>meta := None, can_start := True\<rparr>)) finished
     else case row of
       None \<Rightarrow>
         andthen (update (\<lambda>s. s\<lparr>meta := None, can_start := True\<rparr>))
         (await (reading (\<lambda>s. is_admitted s sid \<and> currentTakeState s = TakeUnknown)) (\<lambda>ask_now.
           if ask_now then await (checkTake sid) (\<lambda>_. andthen (update (showClaimedElsewhere sid)) finished)
           else finished))
     | Some current \<Rightarrow> reconcile_row sid current now)))"

text \<open>The recheck of another tab's take, when its timer fires.\<close>

definition recheck :: "string \<Rightarrow> unit action" where
  "recheck sid =
     await (reading (\<lambda>s. (bound_session s, clock s))) (\<lambda>(bound, now).
       if bound = Some sid then reconcile sid now else finished)"

section \<open>An upload code\<close>

definition resumeUnauthorizedUploads :: "string \<Rightarrow> ms \<Rightarrow> recording_meta option action" where
  "resumeUnauthorizedUploads sid now =
     attempt open_db (\<lambda>_.
     attempt (read_chunks sid) (\<lambda>cs.
     let opened = map (\<lambda>c. clearUnauthorizedChunk c now) cs;
         changed = map snd (filter (\<lambda>(c, c'). c' \<noteq> c) (zip cs opened));
         remainingTerminal = concat (map (\<lambda>c.
           (case terminal_reason c of
              Some b \<Rightarrow> if terminal c = Some True \<and> b \<noteq> Unauthorized then [b] else []
            | None \<Rightarrow> [])) opened) in
     attempt (for_each changed write_chunk) (\<lambda>_.
     attempt (updating sid (\<lambda>_ latest. clearUnauthorizedUploadBlock latest now remainingTerminal)) (\<lambda>updated.
     await (reading (\<lambda>s. updated \<noteq> None \<and> bound_session s = Some sid)) (\<lambda>show.
     if show then
       andthen (update (\<lambda>s. forgetError (note_meta updated s)))
       (attempt (refreshPending sid) (\<lambda>_. ret (Inr updated)))
     else ret (Inr updated))))))"


section \<open>Storing slices\<close>

definition stored_effect :: "string \<Rightarrow> recording_db \<Rightarrow> seqno \<times> recording_meta \<Rightarrow> effect list" where
  "stored_effect sid d stored =
     (case get_row chunk_key (sid, fst stored) (chunks d) of
        Some c \<Rightarrow> [StoredSlice sid (fst stored) (slice_of c)]
      | None \<Rightarrow> [])"

definition persistBlob :: "string \<Rightarrow> blob \<Rightarrow> unit action" where
  "persistBlob sid b =
     (if blob_size b = 0 then finished
      else
        attempt open_db (\<lambda>_.
        attempt (read_row sid) (\<lambda>row.
        await (reading (\<lambda>s. (or_else row (meta s), clock s))) (\<lambda>(current, now).
        let startedAt = nullish (Option.bind current recorder_started_at) now in
        attempt (sha256Hex b) (\<lambda>checksum.
        await (reading clock) (\<lambda>now.
        attempt (transaction
            (\<lambda>_ t d. storeChunkAndBumpSequence t d sid b
               \<lparr>t_end_ms = max 0 (now - startedAt), t_checksum = checksum, t_now = now\<rparr>)
            (stored_effect sid)) (\<lambda>stored.
        andthen (update (\<lambda>s. s\<lparr>meta := Some (snd stored)\<rparr>))
        (attempt (refreshPending sid) (\<lambda>_. finished)))))))))"

definition markDurableChunkLoss :: "string \<Rightarrow> unit action" where
  "markDurableChunkLoss sid =
     attempt open_db (\<lambda>_.
     await (reading (\<lambda>s. recording_here s sid)) (\<lambda>running.
     attempt (updating sid (\<lambda>s latest.
         let lost = (persistRecorderLost latest (clock s))\<lparr>needs_operator := True\<rparr>
         in if running then holdForRecorderFlush lost else lost)) (\<lambda>updated.
     andthen (update (note_meta updated)) finished)))"

definition CHUNK_PERSIST_ATTEMPTS :: nat where
  "CHUNK_PERSIST_ATTEMPTS = 3"

text \<open>The attempts that are left; the last failure is rethrown once the loss is recorded.\<close>

fun retain_attempts :: "nat \<Rightarrow> cause \<Rightarrow> string \<Rightarrow> blob \<Rightarrow> unit action" where
  "retain_attempts 0 c sid b =
     andthen (update (\<lambda>s. s\<lparr>chunk_persist_lost := True\<rparr>))
     (attempt (markDurableChunkLoss sid) (\<lambda>_. ret (Inl c)))"
| "retain_attempts (Suc n) c sid b =
     await (persistBlob sid b) (\<lambda>r. case r of
       Inr _ \<Rightarrow> finished
     | Inl c' \<Rightarrow> retain_attempts n c' sid b)"

definition retainChunk :: "string \<Rightarrow> blob \<Rightarrow> unit action" where
  "retainChunk sid b = retain_attempts CHUNK_PERSIST_ATTEMPTS unexpected sid b"

definition settle_chain :: "nat \<times> nat \<Rightarrow> tab \<Rightarrow> tab" where
  "settle_chain gn s = s\<lparr>settled := (settled s)(fst gn := max (settled s (fst gn)) (Suc (snd gn)))\<rparr>"

text \<open>
  A slice of the recorder joins the end of the storage chain: it waits for the slices before
  it, and the chain goes on whether or not it could be stored.
\<close>

definition ondataavailable :: "string \<Rightarrow> blob \<Rightarrow> unit action" where
  "ondataavailable sid b =
     (if blob_size b = 0 then finished
      else
        await (reading chain) (\<lambda>gn.
        andthen (update (\<lambda>s. s\<lparr>chain := (fst gn, Suc (snd gn)),
            trace := Produced (fst gn) (snd gn) sid b # trace s\<rparr>))
        (await (ask (ChainRequest (fst gn) (snd gn))) (\<lambda>_.
        await (retainChunk sid b) (\<lambda>r.
        andthen (update (\<lambda>s. settle_chain gn (case r of
            Inr _ \<Rightarrow> s
          | Inl c \<Rightarrow> rememberHeldFailure (SliceNotSaved (cause_string c)) (s\<lparr>chunk_persist_lost := True\<rparr>))))
        finished)))))"

definition attachRecorder :: "string \<Rightarrow> nat \<Rightarrow> nat option \<Rightarrow> tab \<Rightarrow> tab" where
  "attachRecorder sid r st s =
     s\<lparr>active := Some \<lparr>a_session = sid, a_recorder = r, a_stream = st\<rparr>,
       chain := (Suc (fst (chain s)), 0)\<rparr>"

definition onerror :: "tab \<Rightarrow> tab" where
  "onerror s = (rememberHeldFailure MediaRecorderErrorMessage s)\<lparr>status := ErrorStatus\<rparr>"

section \<open>Stopping\<close>

definition commitRecorderStop :: "string \<Rightarrow> ms \<Rightarrow> recording_meta option action" where
  "commitRecorderStop sid now =
     await (reading (\<lambda>s. stop_as_lost s \<or> chunk_persist_lost s)) (\<lambda>lost.
     andthen (update (\<lambda>s. s\<lparr>stop_as_lost := False\<rparr>))
     (attempt open_db (\<lambda>_.
     attempt (updating sid (\<lambda>s latest. releaseRecorderFlush (declareStop s latest lost sid now) now)) (\<lambda>updated.
     andthen (update (note_meta updated)) (ret (Inr updated))))))"

definition handleRecorderStop :: "string \<Rightarrow> nat option \<Rightarrow> unit action" where
  "handleRecorderStop sid st =
     andthen (update (\<lambda>s. let s1 = stopTracks st (s\<lparr>committing_stop := Some sid, status := Stopped\<rparr>)
       in if active_for s1 sid \<noteq> None then s1\<lparr>active := None\<rparr> else s1))
     (await (reading chain) (\<lambda>gn.
     await (ask (ChainRequest (fst gn) (snd gn))) (\<lambda>_.
     await (reading clock) (\<lambda>now.
     await (commitRecorderStop sid now) (\<lambda>r.
     andthen (update (\<lambda>s.
       let s1 = (case r of Inr _ \<Rightarrow> s
                 | Inl c \<Rightarrow> rememberHeldFailure (StopNotSaved (cause_string c)) s);
           s2 = (if committing_stop s1 = Some sid then s1\<lparr>committing_stop := None\<rparr> else s1)
       in dropRecorderLock s2))
     finished)))))"

definition stopRecording :: "tab \<Rightarrow> tab" where
  "stopRecording s =
     (case active s of
        Some a \<Rightarrow>
          if recorder_live s a then stop_recorder (a_recorder a) (s\<lparr>status := Stopping\<rparr>)
          else (stopTracks (a_stream a) s)\<lparr>active := None\<rparr>
      | None \<Rightarrow> s)"

definition notePageHide :: "tab \<Rightarrow> tab" where
  "notePageHide s =
     (case active s of
        Some a \<Rightarrow>
          if recorder_live s a then stop_recorder (a_recorder a) (s\<lparr>stop_as_lost := True\<rparr>) else s
      | None \<Rightarrow> s)"

text \<open>The part that a revocation and a takeover share: declare on disk, then stop.\<close>

definition stop_as_declared ::
  "string \<Rightarrow> (tab \<Rightarrow> recording_meta \<Rightarrow> recording_meta) \<Rightarrow> message \<Rightarrow> unit action" where
  "stop_as_declared sid declare_lost msg =
     await (reading (\<lambda>s. if recording_here s sid then active_for s sid else None)) (\<lambda>current.
     attempt
      (case current of
         None \<Rightarrow> finished
       | Some a \<Rightarrow>
           attempt open_db (\<lambda>_.
           attempt (updating sid declare_lost) (\<lambda>updated.
           andthen (update (\<lambda>s. stopTracks (a_stream a)
             (stop_recorder (a_recorder a) ((note_meta updated s)\<lparr>status := Stopping\<rparr>)))) finished)))
      (\<lambda>_. andthen (update (\<lambda>s. if bound_session s = Some sid then rememberHeldFailure msg s else s)) finished))"

definition interruptRecording :: "string \<Rightarrow> unit action" where
  "interruptRecording sid =
     andthen (update (\<lambda>s. s\<lparr>revoked_sessions := set_add sid (revoked_sessions s), retryable := False\<rparr>))
     (stop_as_declared sid (\<lambda>s latest. holdForRecorderFlush (persistInterrupted latest (clock s))) RevokedMessage)"

definition stopReplacedRecording :: "string \<Rightarrow> unit action" where
  "stopReplacedRecording sid =
     andthen (update (\<lambda>s. s\<lparr>
       replaced_sessions := set_add sid (replaced_sessions s), retryable := False,
       pending_take := (if map_option fst (pending_take s) = Some sid then None else pending_take s)\<rparr>))
     (stop_as_declared sid (\<lambda>s latest. holdForRecorderFlush (persistReplaced latest (clock s))) ReplacedMessage)"


section \<open>Uploading\<close>

definition upload_ready :: "tab \<Rightarrow> persisted_chunk \<Rightarrow> bool" where
  "upload_ready s c \<longleftrightarrow> terminal c \<noteq> Some True \<and> k_sequence c \<notin> set (in_flight s) \<and>
     clock s \<ge> next_attempt_at c"

definition MAX_SAFE_INTEGER :: int where
  "MAX_SAFE_INTEGER = 2 ^ 53 - 1"

text \<open>After the server has the slice: drop it, read the status, and bring the errors up to date.\<close>

definition confirm_upload :: "string \<Rightarrow> persisted_chunk \<Rightarrow> unit action" where
  "confirm_upload sid c =
     attempt (uploadRecordingChunk c) (\<lambda>_.
     attempt (delete_chunk sid (k_sequence c)) (\<lambda>_.
     andthen (update (\<lambda>s. s\<lparr>uploaded_count := uploaded_count s + 1,
         trace := ChunkUploaded (k_sequence c) (k_end_ms c) # trace s\<rparr>))
     (await
       (attempt (fetchUploadStatus sid) (\<lambda>serverStatus.
        await (attempt
          (updating sid (\<lambda>s latest. applyServerStatus latest serverStatus (clock s)))
          (\<lambda>updated. andthen (update (note_meta updated)) finished)) (\<lambda>_.
        ret (Inr (s_received_sequences serverStatus)))))
       (\<lambda>r. case r of
          Inl c \<Rightarrow> finished
        | Inr received \<Rightarrow>
            attempt (read_chunks sid) (\<lambda>cs.
            andthen (update (syncTransientChunkError received cs)) finished)))))"

definition note_block :: "string \<Rightarrow> persisted_chunk \<Rightarrow> cause \<Rightarrow> upload_block \<Rightarrow> unit action" where
  "note_block sid next c block =
     attempt (write_chunk (next\<lparr>k_attempts := k_attempts next + 1, terminal := Some True,
         terminal_reason := Some block, next_attempt_at := MAX_SAFE_INTEGER\<rparr>)) (\<lambda>_.
     attempt (updating sid (\<lambda>_ latest. notePermanentFailure latest block)) (\<lambda>updated.
     andthen (update (\<lambda>s. let s1 = note_meta updated s in rememberHeldFailure (blockMessage s1 sid block) s1))
     (await (reading (\<lambda>s. isRevokedCredential c \<and> active_for s sid \<noteq> None)) (\<lambda>revoked.
       if revoked then interruptRecording sid else finished))))"

definition note_retry :: "string \<Rightarrow> persisted_chunk \<Rightarrow> cause \<Rightarrow> unit action" where
  "note_retry sid next c =
     await (reading clock) (\<lambda>now.
     let attempts = k_attempts next + 1 in
     attempt (write_chunk (next\<lparr>k_attempts := attempts,
         next_attempt_at := now + chunkRetryDelayMs (int attempts)\<rparr>)) (\<lambda>_.
     attempt (read_chunks sid) (\<lambda>cs.
     andthen (update (\<lambda>s. rememberChunkFailure (k_sequence next)
         (SliceUploadFailed (k_sequence next)
           (case c of ApiError st code msg \<Rightarrow> msg | OtherError name msg \<Rightarrow> cause_string c))
         (s\<lparr>failed_count := int (length (filter retry_waiting cs))\<rparr>))) finished)))"

definition uploadNextChunk :: "string \<Rightarrow> unit action" where
  "uploadNextChunk sid =
     attempt open_db (\<lambda>_.
     attempt (refreshPending sid) (\<lambda>cs.
     await (reading (\<lambda>s. find (upload_ready s) cs)) (\<lambda>found.
     case found of
       None \<Rightarrow> finished
     | Some next \<Rightarrow>
         andthen (update (\<lambda>s. s\<lparr>in_flight := set_add (k_sequence next) (in_flight s)\<rparr>))
         (await (catch (confirm_upload sid next) (\<lambda>c. case block_of c of
             Some block \<Rightarrow> note_block sid next c block
           | None \<Rightarrow> note_retry sid next c)) (\<lambda>r.
         andthen (update (\<lambda>s. s\<lparr>in_flight := set_remove (k_sequence next) (in_flight s)\<rparr>))
         (attempt (refreshPending sid) (\<lambda>_. ret r)))))))"

section \<open>The finalize\<close>

text \<open>The answer to a finalize is only merged into the declaration that was sent.\<close>

definition merge_finalize ::
  "finalize_payload \<Rightarrow> ms option \<Rightarrow> finalize_result \<Rightarrow> ms \<Rightarrow> recording_meta \<Rightarrow> recording_meta" where
  "merge_finalize payload persistedAt result now latest =
     (if \<not> sameFinalizePayload (finalize_payload latest) payload then latest
      else if persistedAt \<noteq> None \<and> finalize_persisted_at latest \<noteq> persistedAt then latest
      else applyServerStatus
        (noteFinalizeAttempt latest now (f_finalize_state result \<in> {FsPending, FsNone}))
        \<lparr>s_finalize_state = f_finalize_state result, s_recording_state = f_recording_state result,
         s_received_sequences = [], s_take_claimed = None\<rparr> now)"

definition finalize_failed :: "string \<Rightarrow> cause \<Rightarrow> unit action" where
  "finalize_failed sid c =
     await (updating sid (\<lambda>s latest. case block_of c of
         Some block \<Rightarrow> notePermanentFailure latest block
       | None \<Rightarrow> noteFinalizeAttempt latest (clock s) True)) (\<lambda>u.
     andthen (update (\<lambda>s.
         let s1 = (case u of Inr updated \<Rightarrow> note_meta updated s | Inl e \<Rightarrow> s)
         in rememberHeldFailure (case block_of c of
             Some block \<Rightarrow> blockMessage s1 sid block
           | None \<Rightarrow> FinalizeNotSent (cause_message c)) s1)) finished)"

definition sendFinalizeIfDue :: "string \<Rightarrow> unit action" where
  "sendFinalizeIfDue sid =
     attempt open_db (\<lambda>_.
     attempt (read_row sid) (\<lambda>current.
     attempt (refreshPending sid) (\<lambda>pending.
     andthen (update (\<lambda>s. s\<lparr>meta := current\<rparr>))
     (await (reading clock) (\<lambda>now.
     case current of
       None \<Rightarrow> finished
     | Some m \<Rightarrow>
         (case finalize_payload m of
            None \<Rightarrow> finished
          | Some payload \<Rightarrow>
              if \<not> finalizeDue m (int (length pending)) now then finished
              else
                catch
                  (attempt (finalizeRecording sid payload) (\<lambda>result.
                   attempt (updating sid (\<lambda>s latest.
                     merge_finalize payload (finalize_persisted_at m) result (clock s) latest)) (\<lambda>updated.
                   andthen (update (\<lambda>s.
                     let s1 = forgetError (note_meta updated s)
                     in if is_replaced s1 sid then rememberHeldFailure ReplacedMessage s1 else s1)) finished)))
                  (finalize_failed sid)))))))"

section \<open>The pump\<close>

text \<open>A kick starts the task unless one runs; the pump waits for both and reports a failure.\<close>

definition kickChunk :: "string \<Rightarrow> tab \<Rightarrow> tab" where
  "kickChunk sid s =
     (if chunk_task s then s else s\<lparr>chunk_task := True, jobs := UploadJob sid # jobs s\<rparr>)"

definition kickFinalize :: "string \<Rightarrow> tab \<Rightarrow> tab" where
  "kickFinalize sid s =
     (if finalize_task s then s else s\<lparr>finalize_task := True, jobs := FinalizeJob sid # jobs s\<rparr>)"

definition pump :: "string \<Rightarrow> unit action" where
  "pump sid =
     await (reading bound_session) (\<lambda>bound.
     if bound \<noteq> Some sid then finished
     else
       attempt open_db (\<lambda>_.
       attempt (read_row sid) (\<lambda>current.
       await (reading clock) (\<lambda>now.
       attempt (case current of None \<Rightarrow> ret (Inr False) | Some m \<Rightarrow> purge m now) (\<lambda>gone.
       if gone then andthen (update (\<lambda>s. s\<lparr>meta := None, pending_count := 0\<rparr>)) finished
       else
         andthen (update (\<lambda>s. kickFinalize sid (kickChunk sid s)))
         (await (ask JoinTasks) (\<lambda>r. ret (case r of Rejected c \<Rightarrow> Inl c | _ \<Rightarrow> Inr ()))))))))"

definition ensurePump :: "string \<Rightarrow> tab \<Rightarrow> tab" where
  "ensurePump sid s =
     (case pump_timer s of
        Some _ \<Rightarrow> s
      | None \<Rightarrow> s\<lparr>jobs := PumpJob sid # jobs s,
          pump_timer := (if bound_session s = Some sid then Some sid else None)\<rparr>)"

text \<open>The 400 ms timer of the pump fires.\<close>

definition pump_tick :: "tab \<Rightarrow> tab" where
  "pump_tick s =
     (case pump_timer s of
        Some sid \<Rightarrow> if bound_session s = Some sid then s\<lparr>jobs := PumpJob sid # jobs s\<rparr> else s
      | None \<Rightarrow> s)"

definition retryFailed :: "unit action" where
  "retryFailed =
     await (reading bound_session) (\<lambda>bound.
     if bound = None then finished
     else
       attempt open_db (\<lambda>_.
       await (reading bound_session) (\<lambda>bound.
       case bound of None \<Rightarrow> finished | Some sid \<Rightarrow>
         attempt (read_chunks sid) (\<lambda>cs.
         await (reading clock) (\<lambda>now.
         attempt (for_each (filter retry_waiting cs) (\<lambda>c. write_chunk (c\<lparr>next_attempt_at := now\<rparr>))) (\<lambda>_.
         await (reading bound_session) (\<lambda>bound.
         case bound of None \<Rightarrow> finished | Some b \<Rightarrow> pump b)))))))"

section \<open>Binding a session\<close>

definition cancelRelease :: "tab \<Rightarrow> tab" where
  "cancelRelease s = s\<lparr>release_timer := None\<rparr>"

definition scheduleRelease :: "tab \<Rightarrow> tab" where
  "scheduleRelease s = (cancelRelease s)\<lparr>release_timer := Some (bound_session s)\<rparr>"

definition release_fires :: "tab \<Rightarrow> tab" where
  "release_fires s =
     (case release_timer s of
        None \<Rightarrow> s
      | Some bound \<Rightarrow>
          let s1 = s\<lparr>release_timer := None\<rparr>
          in (case bound of
                Some sid \<Rightarrow> if active_for s1 sid \<noteq> None then stopRecording s1 else s1
              | None \<Rightarrow> s1))"

definition bind_reset :: "string \<Rightarrow> tab \<Rightarrow> tab" where
  "bind_reset sid s =
     (let s1 = cancelRelease s;
          s2 = (if bound_session s1 \<noteq> Some sid then
                  (forgetError s1)\<lparr>pump_timer := None, uploaded_count := 0, failed_count := 0,
                     pending_count := 0, chunk_task := False, finalize_task := False\<rparr>
                else s1)
      in s2\<lparr>bound_session := Some sid, jobs := ReconcileJob sid (clock s2) # jobs s2\<rparr>)"

definition bindSession :: "string \<Rightarrow> unit action" where
  "bindSession sid =
     andthen (update (bind_reset sid))
     (catch
       (attempt (refreshPending sid) (\<lambda>_. andthen (update (ensurePump sid)) finished))
       (\<lambda>c. andthen (update (\<lambda>s.
          (rememberHeldFailure (QueueUnopened (cause_message c)) s)\<lparr>status := ErrorStatus\<rparr>)) finished))"


section \<open>The page\<close>

definition run_job :: "job \<Rightarrow> (tab, request, answer, unit) async" where
  "run_job j =
     (case j of
        UploadJob sid \<Rightarrow> await (uploadNextChunk sid) (\<lambda>_. update (\<lambda>s. s\<lparr>chunk_task := False\<rparr>))
      | FinalizeJob sid \<Rightarrow> await (sendFinalizeIfDue sid) (\<lambda>_. update (\<lambda>s. s\<lparr>finalize_task := False\<rparr>))
      | PumpJob sid \<Rightarrow> await (pump sid)
          (\<lambda>r. update (\<lambda>s. case r of Inl c \<Rightarrow> notePumpFailure c s | Inr _ \<Rightarrow> s))
      | ReconcileJob sid now \<Rightarrow> await (reconcile sid now) (\<lambda>_. ret ())
      | RecheckJob sid \<Rightarrow> await (recheck sid) (\<lambda>_. ret ()))"

text \<open>What happens to the page of a take that has started, besides the answers to its requests.\<close>

datatype page_event =
    RunJob job | Tick ms | PumpTimer | Slice string blob | RecorderStop string "nat option" | RecorderFault
  | Bind string | Admission string bool | Revoked string | Replaced string | UploadCode string ms
  | Retry | PressStop | PageHide | Unmount | ReleaseTimer

definition sync :: "(tab \<Rightarrow> tab) \<Rightarrow> (tab, request, answer, unit) async" where
  "sync f = update f"

definition ignoring :: "'a action \<Rightarrow> (tab, request, answer, unit) async" where
  "ignoring m = await m (\<lambda>_. ret ())"

definition handle :: "page_event \<Rightarrow> (tab, request, answer, unit) async" where
  "handle ev =
     (case ev of
        RunJob j \<Rightarrow> andthen (update (\<lambda>s. s\<lparr>jobs := remove1 j (jobs s)\<rparr>)) (run_job j)
      | Tick d \<Rightarrow> sync (\<lambda>s. s\<lparr>clock := clock s + max 0 d\<rparr>)
      | PumpTimer \<Rightarrow> sync pump_tick
      | Slice sid b \<Rightarrow> ignoring (ondataavailable sid b)
      | RecorderStop sid st \<Rightarrow> ignoring (handleRecorderStop sid st)
      | RecorderFault \<Rightarrow> sync onerror
      | Bind sid \<Rightarrow> ignoring (bindSession sid)
      | Admission sid b \<Rightarrow> ignoring (setSocketAdmitted sid b)
      | Revoked sid \<Rightarrow> ignoring (interruptRecording sid)
      | Replaced sid \<Rightarrow> ignoring (stopReplacedRecording sid)
      | UploadCode sid now \<Rightarrow> ignoring (resumeUnauthorizedUploads sid now)
      | Retry \<Rightarrow> ignoring retryFailed
      | PressStop \<Rightarrow> sync stopRecording
      | PageHide \<Rightarrow> sync notePageHide
      | Unmount \<Rightarrow> sync scheduleRelease
      | ReleaseTimer \<Rightarrow> sync release_fires)"

inductive page_starts ::
  "tab \<Rightarrow> (tab, request, answer, unit) task \<Rightarrow> tab \<Rightarrow> bool" where
  event: "handle ev s = (s', t) \<Longrightarrow> (case ev of RunJob j \<Rightarrow> j \<in> set (jobs s) | _ \<Rightarrow> True) \<Longrightarrow>
    page_starts s t s'"

end
