(* ===== verification/RecordingSafety.thy ===== *)
theory RecordingSafety
  imports RecordingTasks
begin

text \<open>
  What every interleaving of the tasks of a started take keeps: the invariant of the page,
  the guarantee that every atomic step of \<open>RecordingTasks\<close> satisfies, and its consequences for
  what is uploaded and for what is declared.
\<close>

section \<open>The invariant of the page\<close>

definition purged :: "tab \<Rightarrow> string \<Rightarrow> bool" where
  "purged s sid \<longleftrightarrow> PurgedSession sid \<in> set (trace s)"

definition counter :: "recording_db \<Rightarrow> string \<Rightarrow> seqno" where
  "counter d sid = (case get_row session_id sid (metas d) of None \<Rightarrow> 0 | Some m \<Rightarrow> next_sequence m)"

definition was_stored :: "tab \<Rightarrow> persisted_chunk \<Rightarrow> bool" where
  "was_stored s c \<longleftrightarrow> StoredSlice (k_session_id c) (k_sequence c) (slice_of c) \<in> set (trace s)"

definition rows_ok :: "tab \<Rightarrow> bool" where
  "rows_ok s \<longleftrightarrow> store_wf session_id (metas (db s)) \<and> (\<forall>m \<in> set (metas (db s)). meta_wf m) \<and>
     store_wf chunk_key (chunks (db s)) \<and> (\<forall>c \<in> set (chunks (db s)). was_stored s c)"

definition uploads_ok :: "tab \<Rightarrow> bool" where
  "uploads_ok s \<longleftrightarrow>
     (\<forall>sid n sl. SentUpload sid n sl \<in> set (trace s) \<longrightarrow> StoredSlice sid n sl \<in> set (trace s))"

definition numbers_ok :: "tab \<Rightarrow> bool" where
  "numbers_ok s \<longleftrightarrow> (\<forall>sid. \<not> purged s sid \<longrightarrow>
     (\<forall>n sl. StoredSlice sid n sl \<in> set (trace s) \<longrightarrow>
        0 \<le> n \<and> n < counter (db s) sid \<and>
        (\<forall>sl'. StoredSlice sid n sl' \<in> set (trace s) \<longrightarrow> sl' = sl)) \<and>
     (\<forall>p. SentFinalize sid p \<in> set (trace s) \<longrightarrow>
        p_total_chunks p = p_final_sequence p + 1 \<and> p_total_chunks p \<le> counter (db s) sid))"

definition stored_blob :: "tab \<Rightarrow> string \<Rightarrow> blob \<Rightarrow> bool" where
  "stored_blob s sid b \<longleftrightarrow> (\<exists>n t e h. StoredSlice sid n (t, e, h, b) \<in> set (trace s))"

definition chain_ok :: "tab \<Rightarrow> bool" where
  "chain_ok s \<longleftrightarrow> settled s (fst (chain s)) \<le> snd (chain s) \<and>
     (\<forall>g i sid b. Produced g i sid b \<in> set (trace s) \<longrightarrow>
        (g < fst (chain s) \<or> g = fst (chain s) \<and> i < snd (chain s)) \<and>
        (\<forall>sid' b'. Produced g i sid' b' \<in> set (trace s) \<longrightarrow> sid' = sid \<and> b' = b) \<and>
        (i < settled s g \<longrightarrow> chunk_persist_lost s \<or> stored_blob s sid b))"

definition tab_inv :: "tab \<Rightarrow> bool" where
  "tab_inv s \<longleftrightarrow> rows_ok s \<and> uploads_ok s \<and> numbers_ok s \<and> chain_ok s"

lemmas tab_inv_defs = tab_inv_def rows_ok_def uploads_ok_def numbers_ok_def chain_ok_def
  purged_def was_stored_def stored_blob_def

text \<open>Every step of a task keeps the invariant, extends the trace and does not forget a loss.\<close>

definition tab_step :: "tab \<Rightarrow> tab \<Rightarrow> bool" where
  "tab_step s s' \<longleftrightarrow>
     (tab_inv s \<longrightarrow> tab_inv s' \<and>
       (\<forall>sid. \<not> purged s' sid \<longrightarrow> counter (db s) sid \<le> counter (db s') sid)) \<and>
     set (trace s) \<subseteq> set (trace s') \<and>
     (chunk_persist_lost s \<longrightarrow> chunk_persist_lost s') \<and> (\<forall>g. settled s g \<le> settled s' g)"

interpretation recording: guarantee tab_step enabled tab_inv
proof unfold_locales
  fix s s' s'' assume a: "tab_step s s'" "tab_step s' s''"
  then have "counter (db s) sid \<le> counter (db s'') sid" if "tab_inv s" "\<not> purged s'' sid" for sid
  proof -
    from a that have "\<not> purged s' sid" by (auto simp: tab_step_def purged_def)
    with a that have "counter (db s) sid \<le> counter (db s') sid" "counter (db s') sid \<le> counter (db s'') sid"
      by (auto simp: tab_step_def)
    then show ?thesis by simp
  qed
  with a show "tab_step s s''" unfolding tab_step_def by (meson order_trans)
qed (auto simp: tab_step_def)

text \<open>Steps that touch none of what the invariant is about.\<close>

fun relevant :: "effect \<Rightarrow> bool" where
  "relevant (StopCalled r) = False"
| "relevant (TracksStopped r) = False"
| "relevant (ChunkUploaded n t) = False"
| "relevant (SentClaim sid t) = False"
| "relevant (ClaimAnswered sid t) = False"
| "relevant (CameraGranted st) = False"
| "relevant (RecorderStarted sid r) = False"
| "relevant _ = True"

definition core :: "tab \<Rightarrow> recording_db \<times> effect list \<times> bool \<times> (nat \<times> nat) \<times> (nat \<Rightarrow> nat)" where
  "core s = (db s, filter relevant (trace s), chunk_persist_lost s, chain s, settled s)"

lemma core_mem: "core s' = core s \<Longrightarrow> relevant e \<Longrightarrow> e \<in> set (trace s') \<longleftrightarrow> e \<in> set (trace s)"
proof -
  assume "core s' = core s" and r: "relevant e"
  then have "e \<in> set (filter relevant (trace s')) \<longleftrightarrow> e \<in> set (filter relevant (trace s))"
    by (simp add: core_def del: set_filter)
  with r show ?thesis by simp
qed

lemma core_inv: "core s' = core s \<Longrightarrow> tab_inv s' \<longleftrightarrow> tab_inv s"
proof -
  assume c: "core s' = core s"
  then have "db s' = db s" "chunk_persist_lost s' = chunk_persist_lost s" "chain s' = chain s"
      "settled s' = settled s"
    by (simp_all add: core_def)
  moreover have "\<And>e. relevant e \<Longrightarrow> e \<in> set (trace s') \<longleftrightarrow> e \<in> set (trace s)"
    using core_mem [OF c] .
  ultimately show ?thesis unfolding tab_inv_defs by simp
qed

lemma core_step: "core s' = core s \<Longrightarrow> set (trace s) \<subseteq> set (trace s') \<Longrightarrow> tab_step s s'"
  using core_inv [of s' s] by (simp add: tab_step_def core_def)

lemma core_both:
  "core s' = core s \<Longrightarrow> set (trace s) \<subseteq> set (trace s') \<Longrightarrow> tab_inv s \<Longrightarrow> tab_step s s' \<and> tab_inv s'"
  using core_inv [of s' s] core_step by blast

definition inert :: "(tab \<Rightarrow> tab) \<Rightarrow> bool" where
  "inert f \<longleftrightarrow> (\<forall>s. core (f s) = core s \<and> set (trace s) \<subseteq> set (trace (f s)))"

lemma inert_step: "inert f \<Longrightarrow> tab_step s (f s)"
  by (simp add: inert_def core_step)

lemma inert_update: "inert f \<Longrightarrow> lawful tab_step enabled tab_inv (update f)"
  by (rule recording.lawful_update) (rule inert_step)

lemma inertI: "(\<And>s. core (f s) = core s) \<Longrightarrow> (\<And>s. set (trace s) \<subseteq> set (trace (f s))) \<Longrightarrow> inert f"
  by (simp add: inert_def)

lemma inert_state: "inert f \<Longrightarrow> core (f s) = core s \<and> set (trace s) \<subseteq> set (trace (f s))"
  by (simp add: inert_def)

lemma core_updates [simp]:
  "core (s\<lparr>clock := x0\<rparr>) = core s"
  "core (s\<lparr>jobs := x1\<rparr>) = core s"
  "core (s\<lparr>media_recorder := x2\<rparr>) = core s"
  "core (s\<lparr>media_devices := x3\<rparr>) = core s"
  "core (s\<lparr>web_locks := x4\<rparr>) = core s"
  "core (s\<lparr>constructor_fault := x5\<rparr>) = core s"
  "core (s\<lparr>start_fault := x6\<rparr>) = core s"
  "core (s\<lparr>running_recorders := x7\<rparr>) = core s"
  "core (s\<lparr>fenced_recorders := x8\<rparr>) = core s"
  "core (s\<lparr>next_recorder := x9\<rparr>) = core s"
  "core (s\<lparr>live_streams := x10\<rparr>) = core s"
  "core (s\<lparr>lock_held := x11\<rparr>) = core s"
  "core (s\<lparr>active := x12\<rparr>) = core s"
  "core (s\<lparr>stop_as_lost := x13\<rparr>) = core s"
  "core (s\<lparr>release_timer := x14\<rparr>) = core s"
  "core (s\<lparr>pump_timer := x15\<rparr>) = core s"
  "core (s\<lparr>chunk_task := x16\<rparr>) = core s"
  "core (s\<lparr>finalize_task := x17\<rparr>) = core s"
  "core (s\<lparr>bound_session := x18\<rparr>) = core s"
  "core (s\<lparr>meta := x19\<rparr>) = core s"
  "core (s\<lparr>pending_count := x20\<rparr>) = core s"
  "core (s\<lparr>uploaded_count := x21\<rparr>) = core s"
  "core (s\<lparr>failed_count := x22\<rparr>) = core s"
  "core (s\<lparr>error_message := x23\<rparr>) = core s"
  "core (s\<lparr>shown_error := x24\<rparr>) = core s"
  "core (s\<lparr>transient_errors := x25\<rparr>) = core s"
  "core (s\<lparr>warning := x26\<rparr>) = core s"
  "core (s\<lparr>can_start := x27\<rparr>) = core s"
  "core (s\<lparr>retryable := x28\<rparr>) = core s"
  "core (s\<lparr>status := x29\<rparr>) = core s"
  "core (s\<lparr>in_flight := x30\<rparr>) = core s"
  "core (s\<lparr>committing_stop := x31\<rparr>) = core s"
  "core (s\<lparr>revoked_sessions := x32\<rparr>) = core s"
  "core (s\<lparr>replaced_sessions := x33\<rparr>) = core s"
  "core (s\<lparr>admitted_sessions := x34\<rparr>) = core s"
  "core (s\<lparr>pending_take := x35\<rparr>) = core s"
  "core (s\<lparr>start_task := x36\<rparr>) = core s"
  "core (s\<lparr>take_check := x37\<rparr>) = core s"
  by (simp_all add: core_def)

lemma keeps_rememberHeld [simp]:
  "core (rememberHeldFailure m s) = core s" "trace (rememberHeldFailure m s) = trace s"
  by (simp_all add: rememberHeldFailure_def core_def)

lemma keeps_rememberChunk [simp]:
  "core (rememberChunkFailure n m s) = core s" "trace (rememberChunkFailure n m s) = trace s"
  by (simp_all add: rememberChunkFailure_def core_def)

lemma keeps_forget [simp]: "core (forgetError s) = core s" "trace (forgetError s) = trace s"
  by (simp_all add: forgetError_def core_def)

lemma keeps_note_meta [simp]: "core (note_meta u s) = core s" "trace (note_meta u s) = trace s"
  by (simp_all add: note_meta_def core_def split: option.splits)

lemma trace_stopTracks [simp]:
  "set (trace (stopTracks st s)) = TracksStopped ` set_option st \<union> set (trace s)"
  by (cases st) auto

lemma trace_stop_recorder [simp]: "trace (stop_recorder r s) = StopCalled r # trace s"
  by (simp add: stop_recorder_def)

lemma keeps_stopTracks [simp]:
  "core (stopTracks st s) = core s" "set (trace s) \<subseteq> set (trace (stopTracks st s))"
  by (cases st; force simp: core_def)+

lemma keeps_stop_recorder [simp]:
  "core (stop_recorder r s) = core s" "set (trace s) \<subseteq> set (trace (stop_recorder r s))"
  by (auto simp: stop_recorder_def core_def)

lemma keeps_stopRecording [simp]:
  "core (stopRecording s) = core s" "set (trace s) \<subseteq> set (trace (stopRecording s))"
  using keeps_stopTracks keeps_stop_recorder [where s="s\<lparr>status := Stopping\<rparr>"]
  by (auto simp: stopRecording_def split: option.splits)

lemma keeps_notePageHide [simp]:
  "core (notePageHide s) = core s" "set (trace s) \<subseteq> set (trace (notePageHide s))"
  using keeps_stop_recorder [where s="s\<lparr>stop_as_lost := True\<rparr>"]
  by (auto simp: notePageHide_def split: option.splits)

lemma keeps_release [simp]:
  "core (release_fires s) = core s" "set (trace s) \<subseteq> set (trace (release_fires s))"
  using keeps_stopRecording [of "s\<lparr>release_timer := None\<rparr>"]
  by (auto simp: release_fires_def Let_def split: option.splits)

lemma keeps_refusals [simp]:
  "core (holdStartRefusal m s) = core s" "trace (holdStartRefusal m s) = trace s"
  "core (lockAlreadyClaimed sid s) = core s" "trace (lockAlreadyClaimed sid s) = trace s"
  "core (showClaimedElsewhere sid s) = core s" "trace (showClaimedElsewhere sid s) = trace s"
  by (simp_all add: holdStartRefusal_def lockAlreadyClaimed_def showClaimedElsewhere_def)

lemma keeps_sync_errors [simp]:
  "core (syncTransientChunkError rs cs s) = core s" "trace (syncTransientChunkError rs cs s) = trace s"
  by (simp_all add: syncTransientChunkError_def Let_def split: option.splits shown_error.splits list.splits)

lemma keeps_pump [simp]:
  "core (kickChunk sid s) = core s" "trace (kickChunk sid s) = trace s"
  "core (kickFinalize sid s) = core s" "trace (kickFinalize sid s) = trace s"
  "core (ensurePump sid s) = core s" "trace (ensurePump sid s) = trace s"
  "core (pump_tick s) = core s" "trace (pump_tick s) = trace s"
  "core (notePumpFailure c s) = core s" "trace (notePumpFailure c s) = trace s"
  by (simp_all add: kickChunk_def kickFinalize_def ensurePump_def pump_tick_def notePumpFailure_def
      split: option.splits)

lemma keeps_bind [simp]:
  "core (cancelRelease s) = core s" "trace (cancelRelease s) = trace s"
  "core (scheduleRelease s) = core s" "trace (scheduleRelease s) = trace s"
  "core (bind_reset sid s) = core s" "trace (bind_reset sid s) = trace s"
  by (simp_all add: cancelRelease_def scheduleRelease_def bind_reset_def Let_def)

lemma keeps_misc [simp]:
  "core (dropRecorderLock s) = core s" "trace (dropRecorderLock s) = trace s"
  "core (onerror s) = core s" "trace (onerror s) = trace s"
  by (simp_all add: dropRecorderLock_def onerror_def)

section \<open>Every step satisfies the guarantee\<close>

abbreviation law :: "(tab, request, answer, 'a) async \<Rightarrow> bool" where
  "law m \<equiv> lawful tab_step enabled tab_inv m"

lemma law_update: "(\<And>s. core (f s) = core s) \<Longrightarrow> (\<And>s. set (trace s) \<subseteq> set (trace (f s))) \<Longrightarrow> law (update f)"
  by (rule inert_update [OF inertI])

lemma law_transaction:
  assumes "\<And>s t. tab_inv s \<Longrightarrow> tab_step s (snd (transaction_step f note (TxIs t) s))"
  shows "law (transaction f note)"
  unfolding transaction_def
proof (intro recording.lawful_await recording.lawful_perform recording.lawful_ask recording.lawful_ret)
  fix r s assume "tab_inv s" "enabled s Transaction r"
  with assms show "tab_step s (snd (transaction_step f note r s))"
    by (cases r) (auto simp: enabled_def)
qed

lemma law_tx_read: "law (tx_read f)"
  unfolding tx_read_def
proof (rule law_transaction)
  fix s t
  have "core (snd (transaction_step (\<lambda>_ t d. (f t d, d)) (\<lambda>_ _. []) (TxIs t) s)) = core s"
    by (simp add: transaction_step_def core_def split: sum.splits)
  moreover have "set (trace s) \<subseteq> set (trace (snd (transaction_step (\<lambda>_ t d. (f t d, d)) (\<lambda>_ _. []) (TxIs t) s)))"
    by (simp add: transaction_step_def split: sum.splits)
  ultimately show "tab_step s (snd (transaction_step (\<lambda>_ t d. (f t d, d)) (\<lambda>_ _. []) (TxIs t) s))"
    by (rule core_step)
qed

text \<open>A transaction that rewrites rows without touching their counters.\<close>

lemma counter_put:
  "session_id m' = sid \<Longrightarrow> counter (d\<lparr>metas := put_row session_id m' (metas d)\<rparr>) x
     = (if x = sid then next_sequence m' else counter d x)"
  by (auto simp: counter_def get_put_row)

lemma db_step:
  assumes "tab_inv s" and d: "metas d = metas (db s) \<or>
      (\<exists>m m'. get_row session_id sid (metas (db s)) = Some m \<and> same_take m m' \<and> meta_wf m' \<and>
        metas d = put_row session_id m' (metas (db s)))"
    and c: "store_wf chunk_key (chunks d)" "\<And>c. c \<in> set (chunks d) \<Longrightarrow> was_stored s c"
  shows "tab_step s (s\<lparr>db := d\<rparr>)"
proof -
  have counter: "counter d x = counter (db s) x" for x
    using d get_row_key [of session_id sid "metas (db s)"]
    by (auto simp: counter_def get_put_row same_take_def split: option.splits if_splits)
  have "store_wf session_id (metas d)" "\<forall>m \<in> set (metas d). meta_wf m"
    using d assms(1) by (auto simp: tab_inv_def rows_ok_def store_wf_put set_put_row)
  with assms(1) c show ?thesis
    unfolding tab_step_def tab_inv_defs by (simp add: counter)
qed


lemma snd_transaction_step:
  "snd (transaction_step f note (TxIs t) s) =
     (case f s t (db s) of (Inl e, d) \<Rightarrow> s\<lparr>db := d\<rparr> | (Inr a, d) \<Rightarrow> s\<lparr>db := d, trace := note d a @ trace s\<rparr>)"
  by (simp add: transaction_step_def split: prod.splits sum.splits)

lemma tab_same [simp]: "s\<lparr>db := db s\<rparr> = s" "s\<lparr>trace := trace s\<rparr> = s" "s\<lparr>db := d, trace := trace s\<rparr> = s\<lparr>db := d\<rparr>"
  by simp_all

lemma law_updating:
  assumes "\<And>s m. meta_wf m \<Longrightarrow> meta_wf (g s m) \<and> same_take m (g s m)"
  shows "law (updating sid g)"
  unfolding updating_def
proof (rule law_transaction)
  fix s t assume inv: "tab_inv s"
  then have rows: "store_wf chunk_key (chunks (db s))" "\<And>c. c \<in> set (chunks (db s)) \<Longrightarrow> was_stored s c"
      "\<And>m. m \<in> set (metas (db s)) \<Longrightarrow> meta_wf m"
    by (auto simp: tab_inv_def rows_ok_def)
  show "tab_step s (snd (transaction_step (\<lambda>s t d. updateMeta t d sid (g s)) (\<lambda>_ _. []) (TxIs t) s))"
  proof (cases "t = Commit \<and> get_row session_id sid (metas (db s)) \<noteq> None")
    case True
    then obtain m where m: "t = Commit" "get_row session_id sid (metas (db s)) = Some m" by auto
    from get_row_key [OF m(2)] rows(3) assms have "same_take m (g s m)" "meta_wf (g s m)" by blast+
    with m show ?thesis
      using db_step [OF inv, of "(db s)\<lparr>metas := put_row session_id (g s m) (metas (db s))\<rparr>" sid] rows(1,2)
      by (auto simp: snd_transaction_step updateMeta_def Let_def)
  next
    case False
    then have "snd (transaction_step (\<lambda>s t d. updateMeta t d sid (g s)) (\<lambda>_ _. []) (TxIs t) s) = s"
      by (auto simp: snd_transaction_step updateMeta_def split: tx.splits option.splits)
    then show ?thesis by (simp add: recording.G_refl)
  qed
qed

lemma law_delete_chunk: "law (delete_chunk sid n)"
  unfolding delete_chunk_def
proof (rule law_transaction)
  fix s t assume inv: "tab_inv s"
  then have "store_wf chunk_key (chunks (db s))" "\<And>c. c \<in> set (chunks (db s)) \<Longrightarrow> was_stored s c"
    by (auto simp: tab_inv_def rows_ok_def)
  then have "tab_step s (s\<lparr>db := (db s)\<lparr>chunks := delete_row chunk_key (sid, n) (chunks (db s))\<rparr>\<rparr>)"
    by (intro db_step [OF inv]) (auto simp: store_wf_delete set_delete_row)
  then show "tab_step s (snd (transaction_step (\<lambda>_ t d. deleteChunk t d sid n) (\<lambda>_ _. []) (TxIs t) s))"
    by (simp add: snd_transaction_step deleteChunk_def recording.G_refl split: tx.splits)
qed

text \<open>Writing back a slice that was read before: its number still names the slice it was stored with.\<close>

lemma triple_write_chunk:
  "triple tab_step enabled (\<lambda>s. tab_inv s \<and> was_stored s c) (write_chunk c) (\<lambda>_. tab_inv)"
  unfolding write_chunk_def transaction_def
proof (rule recording.triple_await [where Q="\<lambda>_. tab_inv"])
  have step: "tab_step s (snd (transaction_step (\<lambda>_ t d. writeChunk t d c) (\<lambda>_ _. []) (TxIs t) s))"
    if "tab_inv s" "was_stored s c" for s t
  proof -
    from that have "store_wf chunk_key (chunks (db s))" "\<And>c. c \<in> set (chunks (db s)) \<Longrightarrow> was_stored s c"
      by (auto simp: tab_inv_def rows_ok_def)
    then have "tab_step s (s\<lparr>db := (db s)\<lparr>chunks := put_row chunk_key c (chunks (db s))\<rparr>\<rparr>)"
      using that by (intro db_step) (auto simp: store_wf_put set_put_row)
    then show ?thesis
      by (simp add: snd_transaction_step writeChunk_def recording.G_refl split: tx.splits)
  qed
  have stored: "was_stored s' c" if "was_stored s c" "tab_step s s'" for s s'
    using that by (auto simp: was_stored_def tab_step_def)
  show "triple tab_step enabled (\<lambda>s. tab_inv s \<and> was_stored s c)
      (perform Transaction (transaction_step (\<lambda>_ t d. writeChunk t d c) (\<lambda>_ _. []))) (\<lambda>_. tab_inv)"
  proof (rule recording.triple_perform)
    fix s r s' assume a: "tab_inv s \<and> was_stored s c" "tab_step s s'" "enabled s' Transaction r"
    then have "tab_inv s'" "was_stored s' c" using stored recording.I_stable by blast+
    with a(3) step show g: "tab_step s' (snd (transaction_step (\<lambda>_ t d. writeChunk t d c) (\<lambda>_ _. []) r s'))"
      by (cases r) (auto simp: enabled_def)
    fix s'' assume "tab_step (snd (transaction_step (\<lambda>_ t d. writeChunk t d c) (\<lambda>_ _. []) r s')) s''"
    with g \<open>tab_inv s'\<close> show "tab_inv s''" using recording.I_stable by blast
  qed
  fix x :: "cause + unit"
  have "law (await (ask Turn) (\<lambda>_. ret x))" by (intro recording.lawful_intros)
  then show "triple tab_step enabled tab_inv (await (ask Turn) (\<lambda>_. ret x)) (\<lambda>_. tab_inv)"
    by (simp add: lawful_def)
qed


lemma numbers_stored:
  "tab_inv s \<Longrightarrow> \<not> purged s sid \<Longrightarrow> StoredSlice sid n sl \<in> set (trace s) \<Longrightarrow>
   0 \<le> n \<and> n < counter (db s) sid \<and> (\<forall>sl'. StoredSlice sid n sl' \<in> set (trace s) \<longrightarrow> sl' = sl)"
  unfolding tab_inv_def numbers_ok_def by blast

lemma numbers_final:
  "tab_inv s \<Longrightarrow> \<not> purged s sid \<Longrightarrow> SentFinalize sid p \<in> set (trace s) \<Longrightarrow>
   p_total_chunks p = p_final_sequence p + 1 \<and> p_total_chunks p \<le> counter (db s) sid"
  unfolding tab_inv_def numbers_ok_def by blast

lemma store_tx:
  fixes sid :: string and b :: blob and timing :: chunk_timing
  assumes inv: "tab_inv s"
  defines "f \<equiv> \<lambda>(_ :: tab) t d. storeChunkAndBumpSequence t d sid b timing"
  shows "tab_step s (snd (transaction_step f (stored_effect sid) (TxIs t) s)) \<and>
    (\<forall>x. fst (transaction_step f (stored_effect sid) (TxIs t) s) = Inr x \<longrightarrow>
      stored_blob (snd (transaction_step f (stored_effect sid) (TxIs t) s)) sid b)"
proof (cases t)
  case Commit
  define m where "m = nullish (get_row session_id sid (metas (db s))) (emptyMeta sid (t_now timing))"
  define m' where "m' = fst (snd (buildStoredChunk m (t_end_ms timing) (t_checksum timing) (blob_size b)))"
  define c where "c = new_row sid m b timing"
  define s' where "s' = s\<lparr>db := (db s)\<lparr>chunks := put_row chunk_key c (chunks (db s)),
      metas := put_row session_id m' (metas (db s))\<rparr>,
    trace := StoredSlice sid (next_sequence m) (slice_of c) # trace s\<rparr>"
  have c: "k_session_id c = sid" "k_sequence c = next_sequence m" by (simp_all add: c_def new_row_def)
  have step: "transaction_step f (stored_effect sid) (TxIs t) s = (Inr (next_sequence m, m'), s')"
    using c by (simp add: transaction_step_def f_def Commit store_eq m_def [symmetric] m'_def [symmetric]
        c_def [symmetric] Let_def stored_effect_def get_put_row chunk_key_def s'_def)
  from inv have rows: "store_wf session_id (metas (db s))" "\<And>m. m \<in> set (metas (db s)) \<Longrightarrow> meta_wf m"
      "store_wf chunk_key (chunks (db s))" "\<And>c. c \<in> set (chunks (db s)) \<Longrightarrow> was_stored s c"
    by (auto simp: tab_inv_def rows_ok_def)
  have m: "meta_wf m \<and> session_id m = sid \<and> next_sequence m = counter (db s) sid"
    using rows(2) get_row_key [of session_id sid "metas (db s)"] meta_wf_empty
    by (cases "get_row session_id sid (metas (db s))") (auto simp: m_def counter_def)
  then have m': "meta_wf m'" "session_id m' = sid" "next_sequence m' = next_sequence m + 1" "0 \<le> next_sequence m"
    by (auto simp: m'_def meta_wf_def [of m])
  have counter: "counter (db s') x = (if x = sid then next_sequence m + 1 else counter (db s) x)" for x
    using m' by (auto simp: s'_def counter_def get_put_row)
  have "rows_ok s'"
    using rows m' c by (auto simp: rows_ok_def s'_def store_wf_put set_put_row was_stored_def)
  moreover have "uploads_ok s'" using inv by (auto simp: tab_inv_def uploads_ok_def s'_def)
  moreover have "numbers_ok s'"
  proof -
    have "0 \<le> n \<and> n < counter (db s') x \<and> (\<forall>sl'. StoredSlice x n sl' \<in> set (trace s') \<longrightarrow> sl' = sl)"
      if "\<not> purged s' x" "StoredSlice x n sl \<in> set (trace s')" for x n sl
    proof -
      from that have "\<not> purged s x" by (simp add: purged_def s'_def)
      note old = numbers_stored [OF inv this]
      have tr: "StoredSlice x n sl' \<in> set (trace s') \<longleftrightarrow>
          x = sid \<and> n = next_sequence m \<and> sl' = slice_of c \<or> StoredSlice x n sl' \<in> set (trace s)" for sl'
        by (auto simp: s'_def)
      have "next_sequence m = counter (db s) sid" using m by simp
      with that(2) old [of n] m'(4) have "0 \<le> n \<and> n < counter (db s') x"
        unfolding tr counter by fastforce
      moreover have "sl' = sl" if "StoredSlice x n sl' \<in> set (trace s')" for sl'
        using that \<open>StoredSlice x n sl \<in> set (trace s')\<close> old \<open>next_sequence m = counter (db s) sid\<close>
        unfolding tr by (metis less_irrefl)
      ultimately show ?thesis by blast
    qed
    moreover have "p_total_chunks p = p_final_sequence p + 1 \<and> p_total_chunks p \<le> counter (db s') x"
      if "\<not> purged s' x" "SentFinalize x p \<in> set (trace s')" for x p
    proof -
      from that have "\<not> purged s x" "SentFinalize x p \<in> set (trace s)" by (simp_all add: purged_def s'_def)
      with numbers_final [OF inv] have
        "p_total_chunks p = p_final_sequence p + 1 \<and> p_total_chunks p \<le> counter (db s) x" by blast
      with m show ?thesis by (auto simp: counter)
    qed
    ultimately show ?thesis unfolding numbers_ok_def by blast
  qed
  moreover have "chain_ok s'"
    using inv unfolding tab_inv_def chain_ok_def stored_blob_def s'_def by simp blast
  ultimately have "tab_inv s'" by (simp add: tab_inv_def)
  moreover have "stored_blob s' sid b"
    by (auto simp: stored_blob_def s'_def slice_of_def c_def new_row_def)
  ultimately show ?thesis
    using m by (auto simp: step tab_step_def counter) (auto simp: s'_def)
next
  case (Abort e)
  then show ?thesis by (simp add: transaction_step_def f_def recording.G_refl)
qed


lemma law_if_inr:
  assumes "\<And>s t. tab_inv s \<Longrightarrow> tab_step s (snd (transaction_step f note (TxIs t) s)) \<and>
      (\<forall>x. fst (transaction_step f note (TxIs t) s) = Inr x \<longrightarrow> Q x (snd (transaction_step f note (TxIs t) s)))"
    and "\<And>x s s'. Q x s \<Longrightarrow> tab_step s s' \<Longrightarrow> Q x s'"
  shows "triple tab_step enabled tab_inv (transaction f note)
    (\<lambda>r s. tab_inv s \<and> (\<forall>x. r = Inr x \<longrightarrow> Q x s))"
  unfolding transaction_def
proof (rule recording.triple_await)
  show "triple tab_step enabled tab_inv (perform Transaction (transaction_step f note))
    (\<lambda>r s. tab_inv s \<and> (\<forall>x. r = Inr x \<longrightarrow> Q x s))"
  proof (rule recording.triple_perform)
    fix s r s' assume "tab_inv s" "tab_step s s'" "enabled s' Transaction r"
    then obtain t where t: "r = TxIs t" "tab_inv s'"
      using recording.I_stable by (cases r) (auto simp: enabled_def)
    with assms(1) show "tab_step s' (snd (transaction_step f note r s'))" by simp
    fix s'' assume "tab_step (snd (transaction_step f note r s')) s''"
    with assms t recording.I_stable
    show "tab_inv s'' \<and> (\<forall>x. fst (transaction_step f note r s') = Inr x \<longrightarrow> Q x s'')" by metis
  qed
  fix x
  show "triple tab_step enabled (\<lambda>s. tab_inv s \<and> (\<forall>y. x = Inr y \<longrightarrow> Q y s))
    (await (ask Turn) (\<lambda>_. ret x)) (\<lambda>r s. tab_inv s \<and> (\<forall>x. r = Inr x \<longrightarrow> Q x s))"
    by (rule recording.triple_await [where Q="\<lambda>_ s. tab_inv s \<and> (\<forall>y. x = Inr y \<longrightarrow> Q y s)"])
      (rule recording.triple_ask recording.triple_ret; metis assms(2) recording.I_stable)+
qed

lemma stored_stable: "was_stored s c \<Longrightarrow> tab_step s s' \<Longrightarrow> was_stored s' c"
  by (auto simp: was_stored_def tab_step_def)

lemma stored_blob_stable: "stored_blob s sid b \<Longrightarrow> tab_step s s' \<Longrightarrow> stored_blob s' sid b"
  unfolding stored_blob_def tab_step_def by blast

lemma triple_store:
  "triple tab_step enabled tab_inv
     (transaction (\<lambda>_ t d. storeChunkAndBumpSequence t d sid b timing) (stored_effect sid))
     (\<lambda>r s. tab_inv s \<and> (\<forall>x. r = Inr x \<longrightarrow> stored_blob s sid b))"
  by (rule law_if_inr [OF store_tx]) (auto intro: stored_blob_stable)

text \<open>The slices that a task read: they are of its session and were stored under their number.\<close>

definition known :: "string \<Rightarrow> persisted_chunk list \<Rightarrow> tab \<Rightarrow> bool" where
  "known sid cs s \<longleftrightarrow> (\<forall>c \<in> set cs. k_session_id c = sid \<and> was_stored s c)"

lemma known_stable: "known sid cs s \<Longrightarrow> tab_step s s' \<Longrightarrow> known sid cs s'"
  using stored_stable unfolding known_def by blast

lemma triple_read_chunks:
  "triple tab_step enabled tab_inv (read_chunks sid) (\<lambda>r s. tab_inv s \<and> (\<forall>cs. r = Inr cs \<longrightarrow> known sid cs s))"
  unfolding read_chunks_def tx_read_def
proof (rule law_if_inr)
  fix s t assume "tab_inv s"
  then show "tab_step s (snd (transaction_step (\<lambda>_ t d. (listChunks t d sid, d)) (\<lambda>_ _. []) (TxIs t) s)) \<and>
    (\<forall>x. fst (transaction_step (\<lambda>_ t d. (listChunks t d sid, d)) (\<lambda>_ _. []) (TxIs t) s) = Inr x \<longrightarrow>
      known sid x (snd (transaction_step (\<lambda>_ t d. (listChunks t d sid, d)) (\<lambda>_ _. []) (TxIs t) s)))"
    by (auto simp: transaction_step_def listChunks_def known_def tab_inv_def rows_ok_def
        recording.G_refl split: tx.splits)
qed (rule known_stable)

text \<open>The declaration that a task read: it covers slices that are numbered.\<close>

definition payload_known :: "string \<Rightarrow> finalize_payload \<Rightarrow> tab \<Rightarrow> bool" where
  "payload_known sid p s \<longleftrightarrow> p_total_chunks p = p_final_sequence p + 1 \<and>
     (\<not> purged s sid \<longrightarrow> p_total_chunks p \<le> counter (db s) sid)"

definition row_known :: "string \<Rightarrow> recording_meta option \<Rightarrow> tab \<Rightarrow> bool" where
  "row_known sid row s \<longleftrightarrow>
     (\<forall>m p. row = Some m \<longrightarrow> finalize_payload m = Some p \<longrightarrow> payload_known sid p s)"

lemma row_known_meta [simp]: "row_known sid row (s\<lparr>meta := x\<rparr>) = row_known sid row s"
  by (simp add: row_known_def payload_known_def purged_def)

lemma payload_known_stable:
  "tab_inv s \<and> payload_known sid p s \<Longrightarrow> tab_step s s' \<Longrightarrow> tab_inv s' \<and> payload_known sid p s'"
  by (auto simp: payload_known_def tab_step_def purged_def)


lemma row_known_stable:
  "tab_inv s \<and> row_known sid row s \<Longrightarrow> tab_step s s' \<Longrightarrow> tab_inv s' \<and> row_known sid row s'"
  using payload_known_stable recording.I_stable unfolding row_known_def by blast

lemma triple_read_row:
  "triple tab_step enabled tab_inv (read_row sid)
     (\<lambda>r s. tab_inv s \<and> (\<forall>row. r = Inr row \<longrightarrow> tab_inv s \<and> row_known sid row s))"
  unfolding read_row_def tx_read_def
proof (rule law_if_inr)
  fix s t assume inv: "tab_inv s"
  have "row_known sid (get_row session_id sid (metas (db s))) s"
    unfolding row_known_def
  proof (intro allI impI)
    fix m p assume m: "get_row session_id sid (metas (db s)) = Some m" "finalize_payload m = Some p"
    with inv get_row_key [OF m(1)] have "meta_wf m" by (auto simp: tab_inv_def rows_ok_def)
    with m show "payload_known sid p s"
      by (auto simp: payload_known_def counter_def meta_wf_def payload_wf_def)
  qed
  with inv show "tab_step s (snd (transaction_step (\<lambda>_ t d. (readMeta t d sid, d)) (\<lambda>_ _. []) (TxIs t) s)) \<and>
    (\<forall>x. fst (transaction_step (\<lambda>_ t d. (readMeta t d sid, d)) (\<lambda>_ _. []) (TxIs t) s) = Inr x \<longrightarrow>
      tab_inv (snd (transaction_step (\<lambda>_ t d. (readMeta t d sid, d)) (\<lambda>_ _. []) (TxIs t) s)) \<and>
      row_known sid x (snd (transaction_step (\<lambda>_ t d. (readMeta t d sid, d)) (\<lambda>_ _. []) (TxIs t) s)))"
    by (auto simp: transaction_step_def readMeta_def recording.G_refl split: tx.splits)
qed (rule row_known_stable)

text \<open>Deleting the records of a confirmed take.\<close>

lemma law_purge: "law (purge m now)"
  unfolding purge_def
proof (rule law_transaction)
  fix s t assume inv: "tab_inv s"
  show "tab_step s (snd (transaction_step (\<lambda>_ t d. purgeExpiredMeta t d m now)
      (\<lambda>_ gone. if gone then [PurgedSession (session_id m)] else []) (TxIs t) s))"
  proof (cases "shouldDiscardMeta m now \<and> t = Commit")
    case False
    then show ?thesis
      by (auto simp: transaction_step_def purgeExpiredMeta_def deleteSessionRecords_def
          recording.G_refl split: tx.splits)
  next
    case True
    let ?d = "(db s)\<lparr>metas := delete_row session_id (session_id m) (metas (db s)),
        chunks := filter (\<lambda>c. k_session_id c \<noteq> session_id m) (chunks (db s))\<rparr>"
    let ?s = "s\<lparr>db := ?d, trace := PurgedSession (session_id m) # trace s\<rparr>"
    have eq: "snd (transaction_step (\<lambda>_ t d. purgeExpiredMeta t d m now)
      (\<lambda>_ gone. if gone then [PurgedSession (session_id m)] else []) (TxIs t) s) = ?s"
      using True by (simp add: transaction_step_def purgeExpiredMeta_def deleteSessionRecords_def)
    have c: "x = session_id m \<or> counter ?d x = counter (db s) x" for x
      by (simp add: counter_def get_delete_row)
    have p: "\<not> purged ?s x \<Longrightarrow> x \<noteq> session_id m \<and> \<not> purged s x" for x
      by (simp add: purged_def)
    have "rows_ok ?s"
      using inv by (auto simp: tab_inv_def rows_ok_def store_wf_delete set_delete_row store_wf_filter was_stored_def)
    moreover have "uploads_ok ?s" using inv by (simp add: tab_inv_def uploads_ok_def)
    moreover have "chain_ok ?s"
    proof -
      from inv have "chain_ok s" by (simp add: tab_inv_def)
      moreover have "chain_ok ?s \<longleftrightarrow> chain_ok s"
        unfolding chain_ok_def stored_blob_def by simp
      ultimately show ?thesis by simp
    qed
    moreover have "numbers_ok ?s"
      unfolding numbers_ok_def
    proof (intro allI impI)
      fix x assume "\<not> purged ?s x"
      have mem: "StoredSlice x n sl \<in> set (trace ?s) \<longleftrightarrow> StoredSlice x n sl \<in> set (trace s)"
        "SentFinalize x q \<in> set (trace ?s) \<longleftrightarrow> SentFinalize x q \<in> set (trace s)" for n sl q
        by simp_all
      have same: "db ?s = ?d" by simp
      from \<open>\<not> purged ?s x\<close> p [of x] c [of x] have x: "\<not> purged s x" "counter ?d x = counter (db s) x" by simp_all
      show "(\<forall>n sl. StoredSlice x n sl \<in> set (trace ?s) \<longrightarrow> 0 \<le> n \<and> n < counter (db ?s) x \<and>
            (\<forall>sl'. StoredSlice x n sl' \<in> set (trace ?s) \<longrightarrow> sl' = sl)) \<and>
          (\<forall>q. SentFinalize x q \<in> set (trace ?s) \<longrightarrow>
            p_total_chunks q = p_final_sequence q + 1 \<and> p_total_chunks q \<le> counter (db ?s) x)"
        unfolding mem same x(2)
        by (rule conjI; intro allI impI; rule numbers_stored [OF inv x(1)] numbers_final [OF inv x(1)])
    qed
    ultimately have "tab_inv ?s" unfolding tab_inv_def by blast
    moreover have "counter (db s) x \<le> counter (db ?s) x" if "\<not> purged ?s x" for x
      using p [OF that] c [of x] by simp
    moreover have "set (trace s) \<subseteq> set (trace ?s)" "chunk_persist_lost ?s = chunk_persist_lost s"
      "settled ?s = settled s" by auto
    ultimately show ?thesis unfolding eq tab_step_def by simp
  qed
qed


section \<open>The functions\<close>

lemmas law_intros = recording.lawful_await recording.lawful_ret recording.lawful_reading law_update
  recording.lawful_ask recording.lawful_andthen recording.lawful_attempt recording.lawful_catch
  recording.lawful_for_each recording.lawful_if recording.lawful_option recording.lawful_sum
  recording.lawful_let recording.lawful_prod

named_theorems laws \<open>functions all of whose steps satisfy the guarantee\<close>

lemma law_basic [laws]:
  "law open_db" "law (fetchUploadStatus sid)" "law (sha256Hex b)" "law (recorderHeldElsewhere sid)" "law finished"
  unfolding open_db_def fetchUploadStatus_def sha256Hex_def recorderHeldElsewhere_def finished_def
  by (intro law_intros)+

lemma law_reads [laws]: "law (read_row sid)" "law (read_chunks sid)"
  by (simp_all add: read_row_def read_chunks_def law_tx_read)

lemmas [laws] = law_purge law_delete_chunk

lemma law_refreshPending [laws]: "law (refreshPending sid)"
  unfolding refreshPending_def by (intro law_intros laws) simp_all

lemma law_checkTake [laws]: "law (checkTake sid)"
  unfolding checkTake_def by (intro law_intros laws) simp_all

lemma law_setSocketAdmitted: "law (setSocketAdmitted sid b)"
  unfolding setSocketAdmitted_def by (intro law_intros laws) simp_all

lemma mutation_ok:
  "meta_wf m \<Longrightarrow> meta_wf (mergeReload m st now still) \<and> same_take m (mergeReload m st now still)"
proof -
  assume wf: "meta_wf m"
  let ?n = "case st of None \<Rightarrow> m | Some st \<Rightarrow> applyServerStatus m st now"
  have n: "meta_wf ?n" "same_take m ?n" using wf meta_wf_status by (auto simp: meta_frame split: option.splits)
  let ?n1 = "if planReload (Some ?n) = PlanRecorderLost \<and> \<not> still then persistRecorderLost ?n now else ?n"
  have n1: "meta_wf ?n1" "same_take m ?n1"
    using n meta_wf_lost [OF n(1)] same_take_trans [OF n(2) same_take_lost] by simp_all
  note r1 = meta_wf_release [OF n1(1), of now] same_take_trans [OF n1(2) same_take_release, of now]
  show ?thesis
    unfolding mergeReload_def Let_def using n1 r1
    by (cases still) (simp_all only: if_True if_False simp_thms)
qed

lemma law_reconcile [laws]: "law (reconcile sid now)"
proof -
  have merge: "law (reconcile_merge sid m now still)" for m still
    unfolding reconcile_merge_def
    by (intro law_intros laws law_updating mutation_ok) simp_all
  have row: "law (reconcile_row sid m now)" for m
    unfolding reconcile_row_def by (intro law_intros laws merge) simp_all
  show ?thesis
    unfolding reconcile_def by (intro law_intros laws row) simp_all
qed

lemma law_recheck [laws]: "law (recheck sid)"
  unfolding recheck_def by (intro law_intros laws)


text \<open>Writing back slices of a list that was read.\<close>

lemma triple_write_known:
  "triple tab_step enabled (\<lambda>s. tab_inv s \<and> known sid cs s) (for_each cs write_chunk) (\<lambda>_. tab_inv)"
proof (induction cs)
  case Nil
  show ?case by (simp, rule recording.triple_ret) (blast intro: recording.I_stable)
next
  case (Cons c cs)
  have "triple tab_step enabled (\<lambda>s. (tab_inv s \<and> was_stored s c) \<and> known sid cs s) (write_chunk c)
      (\<lambda>r s. tab_inv s \<and> known sid cs s)"
    by (rule recording.triple_frame [OF _ triple_write_chunk]) (rule known_stable)
  then have "triple tab_step enabled (\<lambda>s. tab_inv s \<and> known sid (c # cs) s) (write_chunk c)
      (\<lambda>r s. case r of Inl e \<Rightarrow> tab_inv s | Inr a \<Rightarrow> tab_inv s \<and> known sid cs s)"
    by (rule recording.triple_weaken) (auto simp: known_def split: sum.splits)
  then show ?case
    unfolding for_each.simps
    by (rule recording.triple_attempt) (blast intro: recording.I_stable Cons.IH)+
qed

lemma known_map: "known sid cs s \<Longrightarrow>
    (\<And>c. c \<in> set cs \<Longrightarrow> k_session_id (f c) = k_session_id c \<and> k_sequence (f c) = k_sequence c \<and> slice_of (f c) = slice_of c)
    \<Longrightarrow> known sid (map f cs) s"
  by (auto simp: known_def was_stored_def)

lemma known_subset: "known sid cs s \<Longrightarrow> set cs' \<subseteq> set cs \<Longrightarrow> known sid cs' s"
  by (auto simp: known_def)

lemma triple_read_known:
  assumes "\<And>cs. triple tab_step enabled (\<lambda>s. tab_inv s \<and> known sid cs s) (k cs) (\<lambda>_. tab_inv)"
  shows "law (attempt (read_chunks sid) k)"
  unfolding lawful_def
proof (rule recording.triple_attempt)
  show "triple tab_step enabled tab_inv (read_chunks sid)
      (\<lambda>r s. case r of Inl e \<Rightarrow> tab_inv s | Inr cs \<Rightarrow> tab_inv s \<and> known sid cs s)"
    by (rule recording.triple_weaken [OF triple_read_chunks]) (auto split: sum.splits)
qed (use assms recording.I_stable in blast)+

lemma triple_law: "law m \<Longrightarrow> triple tab_step enabled (\<lambda>s. tab_inv s \<and> F s) m (\<lambda>_. tab_inv)"
  unfolding lawful_def by (erule recording.triple_weaken) simp_all

lemma triple_then_law:
  assumes "triple tab_step enabled P m (\<lambda>_. tab_inv)" and "\<And>a. law (k a)"
  shows "triple tab_step enabled P (attempt m k) (\<lambda>_. tab_inv)"
proof (rule recording.triple_attempt [where Q'="\<lambda>_. tab_inv"])
  show "triple tab_step enabled P m (\<lambda>r s. case r of Inl e \<Rightarrow> tab_inv s | Inr a \<Rightarrow> tab_inv s)"
    using assms(1) by (rule recording.triple_weaken) (auto split: sum.splits)
qed (use assms(2) recording.I_stable in \<open>auto simp: lawful_def\<close>)

lemma clear_keeps_slice [simp]:
  "k_session_id (clearUnauthorizedChunk c now) = k_session_id c"
  "k_sequence (clearUnauthorizedChunk c now) = k_sequence c"
  "slice_of (clearUnauthorizedChunk c now) = slice_of c"
  by (simp_all add: clearUnauthorizedChunk_def slice_of_def)

lemma same_take_and:
  "meta_wf m \<Longrightarrow> meta_wf (clearUnauthorizedUploadBlock m now bs) \<and> same_take m (clearUnauthorizedUploadBlock m now bs)"
  "meta_wf m \<Longrightarrow> meta_wf (notePermanentFailure m b) \<and> same_take m (notePermanentFailure m b)"
  "meta_wf m \<Longrightarrow> meta_wf (applyServerStatus m st now) \<and> same_take m (applyServerStatus m st now)"
  "meta_wf m \<Longrightarrow> meta_wf (noteFinalizeAttempt m now f) \<and> same_take m (noteFinalizeAttempt m now f)"
  by (auto simp: meta_frame)

lemma law_resume: "law (resumeUnauthorizedUploads sid now)"
  unfolding resumeUnauthorizedUploads_def Let_def
proof (rule recording.lawful_attempt [OF law_basic(1)], rule triple_read_known, rule triple_then_law)
  fix cs :: "persisted_chunk list"
  let ?changed = "map snd (filter (\<lambda>(c, c'). c' \<noteq> c) (zip cs (map (\<lambda>c. clearUnauthorizedChunk c now) cs)))"
  have "known sid ?changed s" if "known sid cs s" for s
  proof (rule known_subset)
    show "known sid (map (\<lambda>c. clearUnauthorizedChunk c now) cs) s" using that by (rule known_map) simp
    show "set ?changed \<subseteq> set (map (\<lambda>c. clearUnauthorizedChunk c now) cs)"
      by (auto dest: set_zip_rightD)
  qed
  then show "triple tab_step enabled (\<lambda>s. tab_inv s \<and> known sid cs s) (for_each ?changed write_chunk) (\<lambda>_. tab_inv)"
    by (intro recording.triple_weaken [OF triple_write_known]) auto
qed (intro law_intros laws law_updating same_take_and; simp)

lemma lost_ok:
  "meta_wf m \<Longrightarrow> meta_wf (operator_if b (persistRecorderLost m now)) \<and>
     same_take m (operator_if b (persistRecorderLost m now))"
  using meta_wf_lost meta_wf_operator same_take_lost [of m now]
  by (auto simp: operator_if_def same_take_def)

lemma hold_ok: "meta_wf m' \<and> same_take m m' \<Longrightarrow>
    meta_wf (holdForRecorderFlush m') \<and> same_take m (holdForRecorderFlush m')"
  by (auto intro: same_take_trans [of _ m', OF _ same_take_hold])

lemma interrupted_ok:
  "meta_wf m \<Longrightarrow> meta_wf (holdForRecorderFlush (persistInterrupted m now)) \<and>
     same_take m (holdForRecorderFlush (persistInterrupted m now))"
  "meta_wf m \<Longrightarrow> meta_wf (holdForRecorderFlush (persistReplaced m now)) \<and>
     same_take m (holdForRecorderFlush (persistReplaced m now))"
  by (rule hold_ok; simp add: meta_wf_interrupted meta_wf_replaced meta_frame)+

lemma operator_ok: "meta_wf m' \<and> same_take m m' \<Longrightarrow>
    meta_wf (operator_if b m') \<and> same_take m (operator_if b m')"
  by (auto simp: operator_if_def same_take_def meta_wf_operator)

lemma declareStop_ok:
  assumes "meta_wf m"
  shows "meta_wf (releaseRecorderFlush (declareStop s m lost sid now) now) \<and>
    same_take m (releaseRecorderFlush (declareStop s m lost sid now) now)"
proof -
  have "meta_wf (declareStop s m lost sid now) \<and> same_take m (declareStop s m lost sid now)"
  proof (cases "recorder_state m = RsLost")
    case True
    let ?kept = "if is_revoked s sid then persistInterrupted m now
      else if is_replaced s sid then persistReplaced m now else m"
    have "meta_wf ?kept \<and> same_take m ?kept"
      using assms meta_wf_interrupted meta_wf_replaced same_take_interrupted same_take_replaced by simp
    from operator_ok [OF this] True show ?thesis unfolding declareStop_def Let_def by simp
  next
    case False
    with assms lost_ok [OF assms] meta_wf_stop same_take_stop show ?thesis
      unfolding declareStop_def Let_def by simp
  qed
  then show ?thesis
    by (auto intro: same_take_trans [of _ "declareStop s m lost sid now", OF _ same_take_release])
qed

lemma law_interrupt [laws]: "law (interruptRecording sid)" "law (stopReplacedRecording sid)"
proof -
  have s: "law (stop_as_declared sid g msg)"
    if "\<And>s m. meta_wf m \<Longrightarrow> meta_wf (g s m) \<and> same_take m (g s m)" for g msg
    unfolding stop_as_declared_def
    by (intro law_intros laws law_updating that) auto
  show "law (interruptRecording sid)" "law (stopReplacedRecording sid)"
    unfolding interruptRecording_def stopReplacedRecording_def
    by (intro law_intros s interrupted_ok; simp)+
qed

lemma law_markDurableChunkLoss [laws]: "law (markDurableChunkLoss sid)"
proof -
  have "meta_wf (if b then holdForRecorderFlush ((persistRecorderLost m now)\<lparr>needs_operator := True\<rparr>)
      else (persistRecorderLost m now)\<lparr>needs_operator := True\<rparr>) \<and>
    same_take m (if b then holdForRecorderFlush ((persistRecorderLost m now)\<lparr>needs_operator := True\<rparr>)
      else (persistRecorderLost m now)\<lparr>needs_operator := True\<rparr>)" if "meta_wf m" for m now b
    using lost_ok [OF that, of True now] hold_ok [OF lost_ok [OF that, of True now]]
    by (cases b) (simp_all add: operator_if_def)
  then show ?thesis
    unfolding markDurableChunkLoss_def Let_def by (intro law_intros laws law_updating) simp_all
qed

lemma law_commitRecorderStop [laws]: "law (commitRecorderStop sid now)"
  unfolding commitRecorderStop_def by (intro law_intros laws law_updating declareStop_ok) simp_all

lemma law_handleRecorderStop: "law (handleRecorderStop sid st)"
  unfolding handleRecorderStop_def Let_def
  by (intro law_intros laws) (simp_all split: sum.splits)


text \<open>An upload hands out a slice that was stored; a finalize one that is declared.\<close>

lemma step_sent_upload:
  "tab_inv s \<Longrightarrow> was_stored s c \<Longrightarrow>
   tab_step s (s\<lparr>trace := SentUpload (k_session_id c) (k_sequence c) (slice_of c) # trace s\<rparr>)"
proof -
  assume a: "tab_inv s" "was_stored s c"
  let ?s = "s\<lparr>trace := SentUpload (k_session_id c) (k_sequence c) (slice_of c) # trace s\<rparr>"
  have "rows_ok ?s \<and> chain_ok ?s \<and> numbers_ok ?s \<longleftrightarrow> rows_ok s \<and> chain_ok s \<and> numbers_ok s"
    unfolding rows_ok_def chain_ok_def numbers_ok_def was_stored_def stored_blob_def purged_def by simp
  moreover have "uploads_ok ?s" using a by (auto simp: tab_inv_def uploads_ok_def was_stored_def)
  ultimately have "tab_inv ?s" using a(1) unfolding tab_inv_def by blast
  then show ?thesis by (auto simp: tab_step_def)
qed

lemma step_sent_finalize:
  "tab_inv s \<Longrightarrow> payload_known sid p s \<Longrightarrow> tab_step s (s\<lparr>trace := SentFinalize sid p # trace s\<rparr>)"
proof -
  assume a: "tab_inv s" "payload_known sid p s"
  let ?s = "s\<lparr>trace := SentFinalize sid p # trace s\<rparr>"
  have "rows_ok ?s \<and> chain_ok ?s \<and> uploads_ok ?s \<longleftrightarrow> rows_ok s \<and> chain_ok s \<and> uploads_ok s"
    unfolding rows_ok_def chain_ok_def uploads_ok_def was_stored_def stored_blob_def purged_def by simp
  moreover have "numbers_ok ?s"
    unfolding numbers_ok_def
  proof (intro allI impI)
    fix x assume "\<not> purged ?s x"
    then have x: "\<not> purged s x" by (simp add: purged_def)
    have mem: "StoredSlice x n sl \<in> set (trace ?s) \<longleftrightarrow> StoredSlice x n sl \<in> set (trace s)"
      "SentFinalize x q \<in> set (trace ?s) \<longleftrightarrow> (x = sid \<and> q = p) \<or> SentFinalize x q \<in> set (trace s)" for n sl q
      by auto
    have same: "db ?s = db s" by simp
    have q: "p_total_chunks q = p_final_sequence q + 1 \<and> p_total_chunks q \<le> counter (db s) x"
      if "(x = sid \<and> q = p) \<or> SentFinalize x q \<in> set (trace s)" for q
      using that a(2) x numbers_final [OF a(1) x] by (auto simp: payload_known_def)
    show "(\<forall>n sl. StoredSlice x n sl \<in> set (trace ?s) \<longrightarrow> 0 \<le> n \<and> n < counter (db ?s) x \<and>
          (\<forall>sl'. StoredSlice x n sl' \<in> set (trace ?s) \<longrightarrow> sl' = sl)) \<and>
        (\<forall>q. SentFinalize x q \<in> set (trace ?s) \<longrightarrow>
          p_total_chunks q = p_final_sequence q + 1 \<and> p_total_chunks q \<le> counter (db ?s) x)"
      unfolding mem same by (rule conjI; intro allI impI; rule numbers_stored [OF a(1) x] q)
  qed
  ultimately have "tab_inv ?s" using a(1) unfolding tab_inv_def by blast
  then show ?thesis by (auto simp: tab_step_def)
qed

lemma triple_upload:
  "triple tab_step enabled (\<lambda>s. tab_inv s \<and> was_stored s c) (uploadRecordingChunk c) (\<lambda>_. tab_inv)"
  unfolding uploadRecordingChunk_def
proof (rule recording.triple_updating [where P'=tab_inv])
  fix s assume "tab_inv s \<and> was_stored s c"
  with step_sent_upload [of s c] recording.I_stable
  show "tab_step s (s\<lparr>trace := SentUpload (k_session_id c) (k_sequence c) (slice_of c) # trace s\<rparr>) \<and>
    tab_inv (s\<lparr>trace := SentUpload (k_session_id c) (k_sequence c) (slice_of c) # trace s\<rparr>)" by blast
qed (rule lawful_def [THEN iffD1], intro law_intros)

lemma triple_confirm:
  "triple tab_step enabled (\<lambda>s. tab_inv s \<and> was_stored s c) (confirm_upload sid c) (\<lambda>_. tab_inv)"
  unfolding confirm_upload_def
  by (rule triple_then_law [OF triple_upload])
    (intro law_intros laws law_updating same_take_and; (simp; fail | auto simp: core_def)?)

lemma triple_write_changed:
  assumes "k_session_id c' = k_session_id c" "k_sequence c' = k_sequence c" "slice_of c' = slice_of c"
    and "\<And>a. law (k a)"
  shows "triple tab_step enabled (\<lambda>s. tab_inv s \<and> was_stored s c) (attempt (write_chunk c') k) (\<lambda>_. tab_inv)"
  using assms by (intro triple_then_law recording.triple_weaken [OF triple_write_chunk]) (auto simp: was_stored_def)

lemma triple_note:
  "triple tab_step enabled (\<lambda>s. tab_inv s \<and> was_stored s c) (note_block sid c e b) (\<lambda>_. tab_inv)"
  unfolding note_block_def Let_def
  by (rule triple_write_changed)
    (simp_all add: slice_of_def, intro law_intros laws law_updating same_take_and, simp_all)

lemma triple_note_retry:
  "triple tab_step enabled (\<lambda>s. tab_inv s \<and> was_stored s c) (note_retry sid c e) (\<lambda>_. tab_inv)"
  unfolding note_retry_def Let_def
proof (rule recording.triple_reading)
  fix now
  show "triple tab_step enabled (\<lambda>s. (tab_inv s \<and> was_stored s c) \<and> clock s = now)
    (attempt (write_chunk (c\<lparr>k_attempts := k_attempts c + 1,
        next_attempt_at := now + chunkRetryDelayMs (int (k_attempts c + 1))\<rparr>))
      (\<lambda>_. attempt (read_chunks sid) (\<lambda>cs.
        andthen (update (\<lambda>s. rememberChunkFailure (k_sequence c)
         (SliceUploadFailed (k_sequence c)
           (case e of ApiError st code msg \<Rightarrow> msg | OtherError name msg \<Rightarrow> cause_string e))
         (s\<lparr>failed_count := int (length (filter retry_waiting cs))\<rparr>))) finished))) (\<lambda>_. tab_inv)"
    by (rule recording.triple_weaken [OF triple_write_changed [of _ c]])
      (simp_all add: slice_of_def, intro law_intros laws, simp_all)
qed


text \<open>An attempt whose first part tells something about its result.\<close>

lemma triple_attempt_known:
  assumes "triple tab_step enabled tab_inv m (\<lambda>r s. tab_inv s \<and> (\<forall>x. r = Inr x \<longrightarrow> Q x s))"
    and "\<And>x. triple tab_step enabled (\<lambda>s. tab_inv s \<and> Q x s) (k x) (\<lambda>_. tab_inv)"
  shows "law (attempt m k)"
  unfolding lawful_def
proof (rule recording.triple_attempt)
  show "triple tab_step enabled tab_inv m
      (\<lambda>r s. case r of Inl e \<Rightarrow> tab_inv s | Inr x \<Rightarrow> tab_inv s \<and> Q x s)"
    using assms(1) by (rule recording.triple_weaken) (auto split: sum.splits)
qed (use assms(2) recording.I_stable in blast)+

lemma triple_refreshPending:
  "triple tab_step enabled tab_inv (refreshPending sid)
     (\<lambda>r s. tab_inv s \<and> (\<forall>cs. r = Inr cs \<longrightarrow> known sid cs s))"
  unfolding refreshPending_def
proof (rule recording.triple_attempt_lawful [OF law_basic(1)])
  let ?Q = "\<lambda>r s. tab_inv s \<and> (\<forall>cs. r = Inr cs \<longrightarrow> known sid cs s)"
  show "triple tab_step enabled tab_inv (attempt (read_chunks sid) (\<lambda>cs. andthen (update (\<lambda>s. s\<lparr>
       pending_count := int (length cs),
       failed_count := int (length (filter retry_waiting cs)),
       warning := storageWarning (sum_list (map (\<lambda>c. blob_size (k_blob c)) cs))\<rparr>)) (ret (Inr cs)))) ?Q"
  proof (rule recording.triple_attempt [where Q'="\<lambda>cs s. tab_inv s \<and> known sid cs s"])
    show "triple tab_step enabled tab_inv (read_chunks sid)
        (\<lambda>r s. case r of Inl e \<Rightarrow> ?Q (Inl e) s | Inr cs \<Rightarrow> tab_inv s \<and> known sid cs s)"
      by (rule recording.triple_weaken [OF triple_read_chunks]) (auto split: sum.splits)
    fix cs
    show "triple tab_step enabled (\<lambda>s. tab_inv s \<and> known sid cs s) (andthen (update (\<lambda>s. s\<lparr>
       pending_count := int (length cs),
       failed_count := int (length (filter retry_waiting cs)),
       warning := storageWarning (sum_list (map (\<lambda>c. blob_size (k_blob c)) cs))\<rparr>)) (ret (Inr cs))) ?Q"
      by (rule recording.triple_updating [where P'="\<lambda>s. tab_inv s \<and> known sid cs s"])
        (use core_both in \<open>force simp: known_def was_stored_def\<close>,
         rule recording.triple_ret, blast intro: recording.I_stable known_stable)
  qed (blast intro: recording.I_stable)
qed simp

lemma triple_catch:
  assumes "triple tab_step enabled P m (\<lambda>_ s. tab_inv s \<and> F s)"
    and "\<And>e. triple tab_step enabled (\<lambda>s. tab_inv s \<and> F s) (h e) (\<lambda>_. tab_inv)"
  shows "triple tab_step enabled P (catch m h) (\<lambda>_. tab_inv)"
  unfolding catch_def
proof (rule recording.triple_await [OF assms(1)])
  fix r show "triple tab_step enabled (\<lambda>s. tab_inv s \<and> F s)
      (case r of Inl e \<Rightarrow> h e | Inr a \<Rightarrow> ret (Inr a)) (\<lambda>_. tab_inv)"
    by (cases r) (auto intro!: assms(2) recording.triple_ret dest: recording.I_stable)
qed

lemma law_uploadNextChunk [laws]: "law (uploadNextChunk sid)"
  unfolding uploadNextChunk_def
proof (rule recording.lawful_attempt [OF law_basic(1)], rule triple_attempt_known [OF triple_refreshPending])
  fix cs
  show "triple tab_step enabled (\<lambda>s. tab_inv s \<and> known sid cs s)
    (await (reading (\<lambda>s. find (upload_ready s) cs)) (\<lambda>found.
     case found of
       None \<Rightarrow> finished
     | Some nxt \<Rightarrow>
         andthen (update (\<lambda>s. s\<lparr>in_flight := set_add (k_sequence nxt) (in_flight s)\<rparr>))
         (await (catch (confirm_upload sid nxt) (\<lambda>c. case block_of c of
             Some block \<Rightarrow> note_block sid nxt c block
           | None \<Rightarrow> note_retry sid nxt c)) (\<lambda>r.
         andthen (update (\<lambda>s. s\<lparr>in_flight := set_remove (k_sequence nxt) (in_flight s)\<rparr>))
         (attempt (refreshPending sid) (\<lambda>_. ret r)))))) (\<lambda>_. tab_inv)"
  proof (rule recording.triple_reading)
    fix found
    show "triple tab_step enabled (\<lambda>s. (tab_inv s \<and> known sid cs s) \<and> find (upload_ready s) cs = found)
     (case found of
       None \<Rightarrow> finished
     | Some nxt \<Rightarrow>
         andthen (update (\<lambda>s. s\<lparr>in_flight := set_add (k_sequence nxt) (in_flight s)\<rparr>))
         (await (catch (confirm_upload sid nxt) (\<lambda>c. case block_of c of
             Some block \<Rightarrow> note_block sid nxt c block
           | None \<Rightarrow> note_retry sid nxt c)) (\<lambda>r.
         andthen (update (\<lambda>s. s\<lparr>in_flight := set_remove (k_sequence nxt) (in_flight s)\<rparr>))
         (attempt (refreshPending sid) (\<lambda>_. ret r))))) (\<lambda>_. tab_inv)"
    proof (cases found)
      case None
      then show ?thesis using triple_law [OF law_basic(5)] by (auto elim: recording.triple_weaken)
    next
      case (Some nxt)
      have catch: "triple tab_step enabled (\<lambda>s. tab_inv s \<and> was_stored s nxt)
         (catch (confirm_upload sid nxt) (\<lambda>c. case block_of c of
             Some block \<Rightarrow> note_block sid nxt c block
           | None \<Rightarrow> note_retry sid nxt c)) (\<lambda>_. tab_inv)"
      proof (rule triple_catch)
        show "triple tab_step enabled (\<lambda>s. tab_inv s \<and> was_stored s nxt) (confirm_upload sid nxt)
          (\<lambda>_ s. tab_inv s \<and> was_stored s nxt)"
          by (rule recording.triple_weaken [OF recording.triple_frame [OF stored_stable triple_confirm]]) auto
      qed (auto split: option.splits intro: triple_note triple_note_retry)
      have stored: "was_stored s nxt" if "known sid cs s" "find (upload_ready s) cs = found" for s
        using that Some by (auto simp: known_def find_Some_iff)
      show ?thesis
        unfolding Some option.case
      proof (rule recording.triple_updating [where P'="\<lambda>s. tab_inv s \<and> was_stored s nxt"])
        fix s assume a: "(tab_inv s \<and> known sid cs s) \<and> find (upload_ready s) cs = Some nxt"
        then have "was_stored s nxt" using stored Some by blast
        then have "was_stored (s\<lparr>in_flight := set_add (k_sequence nxt) (in_flight s)\<rparr>) nxt"
          by (simp add: was_stored_def)
        with a show "tab_step s (s\<lparr>in_flight := set_add (k_sequence nxt) (in_flight s)\<rparr>) \<and>
          tab_inv (s\<lparr>in_flight := set_add (k_sequence nxt) (in_flight s)\<rparr>) \<and>
          was_stored (s\<lparr>in_flight := set_add (k_sequence nxt) (in_flight s)\<rparr>) nxt"
          using core_both [of "s\<lparr>in_flight := set_add (k_sequence nxt) (in_flight s)\<rparr>" s] by simp
      next
        have "law (andthen (update (\<lambda>s. s\<lparr>in_flight := set_remove (k_sequence nxt) (in_flight s)\<rparr>))
           (attempt (refreshPending sid) (\<lambda>_. ret r)))" for r :: "cause + unit"
          by (intro law_intros laws) simp_all
        then show "triple tab_step enabled (\<lambda>s. tab_inv s \<and> was_stored s nxt)
          (await (catch (confirm_upload sid nxt) (\<lambda>c. case block_of c of
             Some block \<Rightarrow> note_block sid nxt c block
           | None \<Rightarrow> note_retry sid nxt c)) (\<lambda>r.
           andthen (update (\<lambda>s. s\<lparr>in_flight := set_remove (k_sequence nxt) (in_flight s)\<rparr>))
           (attempt (refreshPending sid) (\<lambda>_. ret r)))) (\<lambda>_. tab_inv)"
          by (intro recording.triple_await [OF catch]) (simp add: lawful_def)
      qed
    qed
  qed
qed


lemma triple_finalizeRecording:
  "triple tab_step enabled (\<lambda>s. tab_inv s \<and> payload_known sid p s) (finalizeRecording sid p) (\<lambda>_. tab_inv)"
  unfolding finalizeRecording_def
proof (rule recording.triple_updating [where P'=tab_inv])
  fix s assume "tab_inv s \<and> payload_known sid p s"
  with step_sent_finalize [of s sid p] recording.I_stable
  show "tab_step s (s\<lparr>trace := SentFinalize sid p # trace s\<rparr>) \<and>
    tab_inv (s\<lparr>trace := SentFinalize sid p # trace s\<rparr>)" by blast
qed (rule lawful_def [THEN iffD1], intro law_intros)

lemma merge_finalize_ok:
  "meta_wf m \<Longrightarrow> meta_wf (merge_finalize p t r now m) \<and> same_take m (merge_finalize p t r now m)"
proof -
  assume wf: "meta_wf m"
  let ?f = "f_finalize_state r \<in> {FsPending, FsNone}"
  have "meta_wf (noteFinalizeAttempt m now ?f)" "same_take m (noteFinalizeAttempt m now ?f)"
    using wf by (auto simp: meta_frame simp del: insert_iff)
  from meta_wf_status [OF this(1)] same_take_trans [OF this(2) same_take_status] wf
  show ?thesis unfolding merge_finalize_def by simp
qed

lemma failed_ok:
  "meta_wf m \<Longrightarrow>
    meta_wf (case b of Some block \<Rightarrow> notePermanentFailure m block | None \<Rightarrow> noteFinalizeAttempt m now True) \<and>
    same_take m (case b of Some block \<Rightarrow> notePermanentFailure m block | None \<Rightarrow> noteFinalizeAttempt m now True)"
  by (cases b) (auto simp: meta_frame)

lemma law_finalize_failed [laws]: "law (finalize_failed sid c)"
  unfolding finalize_failed_def Let_def
  by (intro law_intros law_updating failed_ok laws) (simp_all split: sum.splits)

lemma law_sendFinalizeIfDue [laws]: "law (sendFinalizeIfDue sid)"
  unfolding sendFinalizeIfDue_def
proof (rule recording.lawful_attempt [OF law_basic(1)], rule triple_attempt_known [OF triple_read_row])
  fix current
  let ?send = "\<lambda>m payload. catch
    (attempt (finalizeRecording sid payload) (\<lambda>result.
     attempt (updating sid (\<lambda>s latest.
       merge_finalize payload (finalize_persisted_at m) result (clock s) latest)) (\<lambda>updated.
     andthen (update (\<lambda>s.
       let s1 = forgetError (note_meta updated s)
       in if is_replaced s1 sid then rememberHeldFailure ReplacedMessage s1 else s1)) finished)))
    (finalize_failed sid)"
  let ?rest = "\<lambda>pending. andthen (update (\<lambda>s. s\<lparr>meta := current\<rparr>)) (await (reading clock) (\<lambda>now.
     case current of None \<Rightarrow> finished
     | Some m \<Rightarrow> (case finalize_payload m of None \<Rightarrow> finished
       | Some payload \<Rightarrow> if \<not> finalizeDue m (int (length pending)) now then finished else ?send m payload)))"
  have send: "triple tab_step enabled (\<lambda>s. tab_inv s \<and> payload_known sid p s) (?send m p) (\<lambda>_. tab_inv)" for m p
    unfolding Let_def
    by (rule triple_catch [where F="\<lambda>_. True"],
        rule recording.triple_weaken [OF triple_then_law [OF triple_finalizeRecording]])
      ((intro law_intros law_updating merge_finalize_ok laws; simp)?,
        simp_all add: law_finalize_failed [unfolded lawful_def])
  have fin: "triple tab_step enabled (\<lambda>s. tab_inv s \<and> F s) finished (\<lambda>_. tab_inv)" for F
    by (rule triple_law [OF law_basic(5)])
  have known: "payload_known sid p s" if "row_known sid current s" "current = Some m" "finalize_payload m = Some p" for m p s
    using that by (simp add: row_known_def)
  have rest: "triple tab_step enabled (\<lambda>s. tab_inv s \<and> row_known sid current s) (?rest pending) (\<lambda>_. tab_inv)"
    for pending :: "persisted_chunk list"
  proof (rule recording.triple_updating [where P'="\<lambda>s. tab_inv s \<and> row_known sid current s"])
    fix s assume "tab_inv s \<and> row_known sid current s"
    then show "tab_step s (s\<lparr>meta := current\<rparr>) \<and> tab_inv (s\<lparr>meta := current\<rparr>) \<and> row_known sid current (s\<lparr>meta := current\<rparr>)"
      using core_both [of "s\<lparr>meta := current\<rparr>" s] by simp
  next
    show "triple tab_step enabled (\<lambda>s. tab_inv s \<and> row_known sid current s) (await (reading clock) (\<lambda>now.
     case current of None \<Rightarrow> finished
     | Some m \<Rightarrow> (case finalize_payload m of None \<Rightarrow> finished
       | Some payload \<Rightarrow> if \<not> finalizeDue m (int (length pending)) now then finished else ?send m payload)))
      (\<lambda>_. tab_inv)"
    proof (rule recording.triple_reading, rule recording.triple_weaken [where P="\<lambda>s. tab_inv s \<and> row_known sid current s"])
      fix now
      show "triple tab_step enabled (\<lambda>s. tab_inv s \<and> row_known sid current s) (case current of None \<Rightarrow> finished
        | Some m \<Rightarrow> (case finalize_payload m of None \<Rightarrow> finished
          | Some payload \<Rightarrow> if \<not> finalizeDue m (int (length pending)) now then finished else ?send m payload))
        (\<lambda>_. tab_inv)"
        by (split option.split, split option.split)
          (auto intro!: fin intro: recording.triple_weaken [OF send] known)
    qed auto
  qed
  show "triple tab_step enabled (\<lambda>s. tab_inv s \<and> tab_inv s \<and> row_known sid current s)
     (attempt (refreshPending sid) ?rest) (\<lambda>_. tab_inv)"
  proof (rule recording.triple_attempt [where Q'="\<lambda>_ s. tab_inv s \<and> row_known sid current s"])
    have "triple tab_step enabled (\<lambda>s. tab_inv s \<and> (tab_inv s \<and> row_known sid current s)) (refreshPending sid)
       (\<lambda>r s. tab_inv s \<and> (tab_inv s \<and> row_known sid current s))"
      by (rule recording.triple_frame [OF row_known_stable law_refreshPending [unfolded lawful_def]])
    then show "triple tab_step enabled (\<lambda>s. tab_inv s \<and> tab_inv s \<and> row_known sid current s) (refreshPending sid)
       (\<lambda>r s. case r of Inl e \<Rightarrow> tab_inv s | Inr a \<Rightarrow> tab_inv s \<and> row_known sid current s)"
      by (rule recording.triple_weaken) (auto split: sum.splits)
  qed (use rest recording.I_stable in blast)+
qed


lemma law_pump [laws]: "law (pump sid)"
  unfolding pump_def by (intro law_intros laws) simp_all

lemma law_retryFailed: "law retryFailed"
proof -
  have each: "triple tab_step enabled (\<lambda>s. tab_inv s \<and> known sid cs s)
      (for_each (filter retry_waiting cs) (\<lambda>c. write_chunk (c\<lparr>next_attempt_at := now\<rparr>))) (\<lambda>_. tab_inv)"
    for sid cs now
  proof -
    have eq: "for_each (filter retry_waiting cs) (\<lambda>c. write_chunk (c\<lparr>next_attempt_at := now\<rparr>))
        = for_each (map (\<lambda>c. c\<lparr>next_attempt_at := now\<rparr>) (filter retry_waiting cs)) write_chunk"
      by (induction cs) simp_all
    have "known sid (map (\<lambda>c. c\<lparr>next_attempt_at := now\<rparr>) (filter retry_waiting cs)) s" if "known sid cs s" for s
      using known_subset [OF that, of "filter retry_waiting cs"]
      by (intro known_map) (auto simp: slice_of_def)
    then show ?thesis unfolding eq by (intro recording.triple_weaken [OF triple_write_known]) auto
  qed
  have k: "triple tab_step enabled (\<lambda>s. tab_inv s \<and> known sid cs s)
    (await (reading clock) (\<lambda>now.
       attempt (for_each (filter retry_waiting cs) (\<lambda>c. write_chunk (c\<lparr>next_attempt_at := now\<rparr>))) (\<lambda>_.
       await (reading bound_session) (\<lambda>bound.
       case bound of None \<Rightarrow> finished | Some b \<Rightarrow> pump b)))) (\<lambda>_. tab_inv)" for sid cs
    by (rule recording.triple_reading, rule triple_then_law, rule recording.triple_weaken [OF each])
      (auto intro!: law_intros laws)
  show ?thesis
    unfolding retryFailed_def by (intro law_intros laws triple_read_known k)
qed

lemma law_bindSession: "law (bindSession sid)"
  unfolding bindSession_def by (intro law_intros laws) simp_all

text \<open>A slice that was kept is stored; one that was given up is recorded as a loss.\<close>

definition kept_or_lost :: "string \<Rightarrow> blob \<Rightarrow> tab \<Rightarrow> bool" where
  "kept_or_lost sid b s \<longleftrightarrow> chunk_persist_lost s \<or> stored_blob s sid b"

lemma kept_stable: "kept_or_lost sid b s \<Longrightarrow> tab_step s s' \<Longrightarrow> kept_or_lost sid b s'"
  using stored_blob_stable by (auto simp: kept_or_lost_def tab_step_def)

abbreviation stores :: "string \<Rightarrow> blob \<Rightarrow> cause + unit \<Rightarrow> tab \<Rightarrow> bool" where
  "stores sid b r s \<equiv> tab_inv s \<and> (r = Inr () \<longrightarrow> stored_blob s sid b)"

lemma triple_persistBlob:
  assumes "b \<noteq> []"
  shows "triple tab_step enabled tab_inv (persistBlob sid b) (stores sid b)"
proof -
  have rest: "triple tab_step enabled (\<lambda>s. tab_inv s \<and> stored_blob s sid b)
      (andthen (update (\<lambda>s. s\<lparr>meta := Some (snd stored)\<rparr>)) (attempt (refreshPending sid) (\<lambda>_. finished)))
      (stores sid b)" for stored :: "seqno \<times> recording_meta"
  proof -
    have "law (andthen (update (\<lambda>s. s\<lparr>meta := Some (snd stored)\<rparr>)) (attempt (refreshPending sid) (\<lambda>_. finished)))"
      by (intro law_intros laws) simp_all
    from recording.triple_frame [where F="\<lambda>s. stored_blob s sid b", OF stored_blob_stable this [unfolded lawful_def]]
    show ?thesis by (rule recording.triple_weaken) auto
  qed
  have store: "triple tab_step enabled tab_inv
      (attempt (transaction (\<lambda>_ t d. storeChunkAndBumpSequence t d sid b timing) (stored_effect sid)) (\<lambda>stored.
        andthen (update (\<lambda>s. s\<lparr>meta := Some (snd stored)\<rparr>)) (attempt (refreshPending sid) (\<lambda>_. finished))))
      (stores sid b)" for timing
  proof (rule recording.triple_attempt [where Q'="\<lambda>_ s. tab_inv s \<and> stored_blob s sid b"])
    show "triple tab_step enabled tab_inv
      (transaction (\<lambda>_ t d. storeChunkAndBumpSequence t d sid b timing) (stored_effect sid))
      (\<lambda>r s. case r of Inl e \<Rightarrow> stores sid b (Inl e) s | Inr a \<Rightarrow> tab_inv s \<and> stored_blob s sid b)"
      by (rule recording.triple_weaken [OF triple_store]) (auto split: sum.splits)
  qed (use rest recording.I_stable in \<open>auto\<close>)
  have known: "triple tab_step enabled tab_inv (await (reading f) k) (stores sid b)"
    if "\<And>x. triple tab_step enabled tab_inv (k x) (stores sid b)" for f :: "tab \<Rightarrow> 'x" and k
    by (rule recording.triple_reading, rule recording.triple_weaken [OF that]) auto
  show ?thesis
    unfolding persistBlob_def Let_def using assms
    by (auto simp: blob_size_def split_def intro!: recording.triple_attempt_lawful laws known store)
qed


lemma step_lose: "tab_step s (s\<lparr>chunk_persist_lost := True\<rparr>)"
proof -
  let ?s = "s\<lparr>chunk_persist_lost := True\<rparr>"
  have "rows_ok ?s = rows_ok s" "uploads_ok ?s = uploads_ok s" "numbers_ok ?s = numbers_ok s"
    unfolding rows_ok_def uploads_ok_def numbers_ok_def was_stored_def purged_def by simp_all
  moreover have "chain_ok s \<Longrightarrow> chain_ok ?s" unfolding chain_ok_def by simp
  ultimately show ?thesis unfolding tab_step_def tab_inv_def by simp
qed

lemma triple_retain:
  assumes "b \<noteq> []"
  shows "triple tab_step enabled tab_inv (retain_attempts n c sid b) (\<lambda>r s. tab_inv s \<and> kept_or_lost sid b s)"
proof (induction n arbitrary: c)
  case 0
  have lost: "triple tab_step enabled (\<lambda>s. tab_inv s \<and> chunk_persist_lost s)
      (attempt (markDurableChunkLoss sid) (\<lambda>_. ret (Inl c) :: unit action))
      (\<lambda>r s. tab_inv s \<and> kept_or_lost sid b s)" for c :: cause
  proof -
    have "law (attempt (markDurableChunkLoss sid) (\<lambda>_. ret (Inl c) :: unit action))"
      by (intro law_intros laws)
    moreover have "chunk_persist_lost s'" if "chunk_persist_lost s" "tab_step s s'" for s s'
      using that by (simp add: tab_step_def)
    ultimately have "triple tab_step enabled (\<lambda>s. tab_inv s \<and> chunk_persist_lost s)
      (attempt (markDurableChunkLoss sid) (\<lambda>_. ret (Inl c) :: unit action)) (\<lambda>r s. tab_inv s \<and> chunk_persist_lost s)"
      unfolding lawful_def by (intro recording.triple_frame) auto
    then show ?thesis by (rule recording.triple_weaken) (auto simp: kept_or_lost_def)
  qed
  have "tab_inv s \<Longrightarrow> tab_inv (s\<lparr>chunk_persist_lost := True\<rparr>)" for s
    using step_lose recording.I_stable by blast
  then show ?case
    unfolding retain_attempts.simps
    by (intro recording.triple_updating [OF _ lost]) (simp add: step_lose)
next
  case (Suc n)
  show ?case
    unfolding retain_attempts.simps
  proof (rule recording.triple_await [OF triple_persistBlob [OF assms]])
    fix r
    show "triple tab_step enabled (stores sid b r)
      (case r of Inl c' \<Rightarrow> retain_attempts n c' sid b | Inr _ \<Rightarrow> finished)
      (\<lambda>r s. tab_inv s \<and> kept_or_lost sid b s)"
    proof (cases r)
      case (Inl e)
      then show ?thesis using Suc.IH by (auto elim: recording.triple_weaken)
    next
      case (Inr u)
      then show ?thesis
        by (auto simp: finished_def kept_or_lost_def intro!: recording.triple_ret
            dest: recording.I_stable stored_blob_stable)
    qed
  qed
qed

text \<open>A slice joins the chain at its end, and settles when its turn is over.\<close>

lemma chain_settled:
  "tab_inv s \<Longrightarrow> Produced g i sid b \<in> set (trace s) \<Longrightarrow> i < settled s g \<Longrightarrow> kept_or_lost sid b s"
  unfolding tab_inv_def chain_ok_def kept_or_lost_def by blast

lemma step_enqueue:
  assumes inv: "tab_inv s"
    and s': "s' = s\<lparr>chain := (fst (chain s), Suc (snd (chain s))),
      trace := Produced (fst (chain s)) (snd (chain s)) sid b # trace s\<rparr>"
  shows "tab_step s s'"
proof -
  have same: "rows_ok s' = rows_ok s" "uploads_ok s' = uploads_ok s" "numbers_ok s' = numbers_ok s"
    unfolding s' rows_ok_def uploads_ok_def numbers_ok_def was_stored_def purged_def by simp_all
  have blobs: "stored_blob s' x y = stored_blob s x y" for x y by (simp add: s' stored_blob_def)
  have c: "chain_ok s" using inv by (simp add: tab_inv_def)
  then have place: "\<And>g i x y. Produced g i x y \<in> set (trace s) \<Longrightarrow>
      g < fst (chain s) \<or> g = fst (chain s) \<and> i < snd (chain s)"
    unfolding chain_ok_def by blast
  have fresh: "Produced (fst (chain s)) (snd (chain s)) x y \<notin> set (trace s)" for x y
    using place by fastforce
  have mem: "Produced g i x y \<in> set (trace s') \<longleftrightarrow>
      (g = fst (chain s) \<and> i = snd (chain s) \<and> x = sid \<and> y = b) \<or> Produced g i x y \<in> set (trace s)" for g i x y
    by (auto simp: s')
  have new: "fst (chain s') = fst (chain s)" "snd (chain s') = Suc (snd (chain s))" "settled s' = settled s"
      "chunk_persist_lost s' = chunk_persist_lost s"
    by (simp_all add: s')
  have "chain_ok s'"
    unfolding chain_ok_def mem blobs new
    using c fresh unfolding chain_ok_def by (auto simp: less_Suc_eq dest: place)
  then have "tab_inv s'" using inv same by (simp add: tab_inv_def)
  then show ?thesis by (auto simp: tab_step_def s')
qed

lemma step_settle:
  assumes inv: "tab_inv s" and p: "Produced g i sid b \<in> set (trace s)" and turn: "i \<le> settled s g"
    and kept: "kept_or_lost sid b s"
  shows "tab_step s (settle_chain (g, i) s)"
proof -
  let ?s = "settle_chain (g, i) s"
  have parts: "trace ?s = trace s" "db ?s = db s" "chain ?s = chain s" "chunk_persist_lost ?s = chunk_persist_lost s"
      "settled ?s = (settled s)(g := max (settled s g) (Suc i))"
    by (simp_all add: settle_chain_def)
  have same: "rows_ok ?s = rows_ok s" "uploads_ok ?s = uploads_ok s" "numbers_ok ?s = numbers_ok s"
      "\<And>x y. stored_blob ?s x y = stored_blob s x y"
    unfolding rows_ok_def uploads_ok_def numbers_ok_def was_stored_def purged_def stored_blob_def
    by (simp_all add: parts)
  have c: "chain_ok s" using inv by (simp add: tab_inv_def)
  then have only: "x = sid \<and> y = b" if "Produced g i x y \<in> set (trace s)" for x y
    using p that unfolding chain_ok_def by blast
  let ?settled = "(settled s)(g := max (settled s g) (Suc i))"
  have late: "chunk_persist_lost s \<or> stored_blob s x y"
    if "Produced g' j x y \<in> set (trace s)" "j < ?settled g'" for g' j x y
  proof (cases "g' = g \<and> j = i")
    case True
    with that(1) only kept show ?thesis by (auto simp: kept_or_lost_def)
  next
    case False
    with that(2) turn have "j < settled s g'" by (auto split: if_splits)
    with c that(1) show ?thesis unfolding chain_ok_def by blast
  qed
  have per: "(g' < fst (chain s) \<or> g' = fst (chain s) \<and> j < snd (chain s)) \<and>
      (\<forall>x' y'. Produced g' j x' y' \<in> set (trace s) \<longrightarrow> x' = x \<and> y' = y) \<and>
      (j < ?settled g' \<longrightarrow> chunk_persist_lost s \<or> stored_blob s x y)"
    if "Produced g' j x y \<in> set (trace s)" for g' j x y
  proof (intro conjI)
    show "g' < fst (chain s) \<or> g' = fst (chain s) \<and> j < snd (chain s)"
      using c that unfolding chain_ok_def by blast
    show "\<forall>x' y'. Produced g' j x' y' \<in> set (trace s) \<longrightarrow> x' = x \<and> y' = y"
      using c that unfolding chain_ok_def by blast
    show "j < ?settled g' \<longrightarrow> chunk_persist_lost s \<or> stored_blob s x y"
      using late [OF that] by (rule impI)
  qed
  have "g < fst (chain s) \<or> g = fst (chain s) \<and> i < snd (chain s)"
    using c p unfolding chain_ok_def by blast
  moreover have "settled s (fst (chain s)) \<le> snd (chain s)" using c by (simp add: chain_ok_def)
  ultimately have top: "?settled (fst (chain s)) \<le> snd (chain s)" by auto
  have "chain_ok ?s"
    unfolding chain_ok_def parts same by (rule conjI [OF top]) (intro allI impI, rule per)
  then have "tab_inv ?s" using inv same by (simp add: tab_inv_def)
  then show ?thesis by (auto simp: tab_step_def parts)
qed


text \<open>The slice of this task is in the trace, and its turn has come.\<close>

definition queued :: "nat \<times> nat \<Rightarrow> string \<Rightarrow> blob \<Rightarrow> tab \<Rightarrow> bool" where
  "queued gn sid b s \<longleftrightarrow> tab_inv s \<and> Produced (fst gn) (snd gn) sid b \<in> set (trace s)"

definition on_turn :: "nat \<times> nat \<Rightarrow> string \<Rightarrow> blob \<Rightarrow> tab \<Rightarrow> bool" where
  "on_turn gn sid b s \<longleftrightarrow> queued gn sid b s \<and> snd gn \<le> settled s (fst gn)"

lemma queued_stable: "queued gn sid b s \<Longrightarrow> tab_step s s' \<Longrightarrow> queued gn sid b s'"
  by (auto simp: queued_def tab_step_def)

lemma on_turn_stable: "on_turn gn sid b s \<Longrightarrow> tab_step s s' \<Longrightarrow> on_turn gn sid b s'"
  unfolding on_turn_def using queued_stable [of gn sid b s s']
  by (auto simp: tab_step_def dest: spec [of _ "fst gn"])

lemma settle_step:
  assumes "on_turn gn sid b s" and "kept_or_lost sid b s"
  shows "tab_step s (settle_chain gn (case r of
      Inr (_ :: unit) \<Rightarrow> s
    | Inl c \<Rightarrow> rememberHeldFailure (SliceNotSaved (cause_string c)) (s\<lparr>chunk_persist_lost := True\<rparr>)))"
proof -
  let ?m = "case r of Inr (_ :: unit) \<Rightarrow> s
    | Inl c \<Rightarrow> rememberHeldFailure (SliceNotSaved (cause_string c)) (s\<lparr>chunk_persist_lost := True\<rparr>)"
  have "tab_step s ?m"
  proof (cases r)
    case (Inl c)
    have "tab_step (s\<lparr>chunk_persist_lost := True\<rparr>)
        (rememberHeldFailure (SliceNotSaved (cause_string c)) (s\<lparr>chunk_persist_lost := True\<rparr>))"
      by (rule core_step) simp_all
    with step_lose [of s] show ?thesis using recording.G_trans unfolding Inl sum.case by blast
  qed (simp add: recording.G_refl)
  moreover from this assms on_turn_stable kept_stable have "on_turn gn sid b ?m" "kept_or_lost sid b ?m" by blast+
  then have "tab_step ?m (settle_chain (fst gn, snd gn) ?m)"
    by (intro step_settle) (auto simp: on_turn_def queued_def)
  ultimately show ?thesis using recording.G_trans by simp
qed

lemma law_ondataavailable: "law (ondataavailable sid b)"
proof (cases "blob_size b = 0")
  case True
  then show ?thesis by (simp add: ondataavailable_def laws)
next
  case False
  then have b: "b \<noteq> []" by (auto simp: blob_size_def)
  let ?settle = "\<lambda>gn r s. settle_chain gn (case r of
            Inr _ \<Rightarrow> s
          | Inl c \<Rightarrow> rememberHeldFailure (SliceNotSaved (cause_string c)) (s\<lparr>chunk_persist_lost := True\<rparr>))"
  have settle: "triple tab_step enabled (\<lambda>s. (tab_inv s \<and> kept_or_lost sid b s) \<and> on_turn gn sid b s)
      (andthen (update (?settle gn r)) finished) (\<lambda>_. tab_inv)" for gn and r :: "cause + unit"
  proof (rule recording.triple_updating [where P'=tab_inv])
    fix s assume a: "(tab_inv s \<and> kept_or_lost sid b s) \<and> on_turn gn sid b s"
    then have "tab_step s (?settle gn r s)" by (intro settle_step) auto
    with a recording.I_stable show "tab_step s (?settle gn r s) \<and> tab_inv (?settle gn r s)" by blast
  qed (use laws in \<open>simp add: lawful_def\<close>)
  have retain: "triple tab_step enabled (on_turn gn sid b) (retainChunk sid b)
      (\<lambda>r s. (tab_inv s \<and> kept_or_lost sid b s) \<and> on_turn gn sid b s)" for gn
    unfolding retainChunk_def
    by (rule recording.triple_weaken [OF recording.triple_frame [OF on_turn_stable triple_retain [OF b]]])
      (auto simp: on_turn_def queued_def)
  have wait: "triple tab_step enabled (queued gn sid b) (ask (ChainRequest (fst gn) (snd gn)))
      (\<lambda>_. on_turn gn sid b)" for gn
  proof (rule recording.triple_ask)
    fix s r s' s''
    assume "queued gn sid b s" "tab_step s s'" "enabled s' (ChainRequest (fst gn) (snd gn)) r" "tab_step s' s''"
    then have "on_turn gn sid b s'" using queued_stable by (auto simp: on_turn_def enabled_def)
    with \<open>tab_step s' s''\<close> show "on_turn gn sid b s''" by (rule on_turn_stable [rotated])
  qed
  have enqueue: "triple tab_step enabled (\<lambda>s. tab_inv s \<and> chain s = gn)
     (andthen (update (\<lambda>s. s\<lparr>chain := (fst gn, Suc (snd gn)),
            trace := Produced (fst gn) (snd gn) sid b # trace s\<rparr>))
        (await (ask (ChainRequest (fst gn) (snd gn))) (\<lambda>_.
        await (retainChunk sid b) (\<lambda>r. andthen (update (?settle gn r)) finished)))) (\<lambda>_. tab_inv)" for gn
  proof (rule recording.triple_updating [where P'="queued gn sid b"])
    fix s assume a: "tab_inv s \<and> chain s = gn"
    let ?s = "s\<lparr>chain := (fst gn, Suc (snd gn)), trace := Produced (fst gn) (snd gn) sid b # trace s\<rparr>"
    from a have "tab_step s ?s" by (intro step_enqueue [of s ?s sid b]) auto
    with a recording.I_stable show "tab_step s ?s \<and> queued gn sid b ?s" by (auto simp: queued_def)
  qed (rule recording.triple_await [OF wait], rule recording.triple_await [OF retain], rule settle)
  show ?thesis
    unfolding lawful_def ondataavailable_def using False
    by (simp del: split_paired_All) (rule recording.triple_reading, rule enqueue)
qed

section \<open>The page\<close>

lemma law_run_job: "law (run_job j)"
  unfolding run_job_def
  by (cases j) (simp_all, (intro law_intros laws; simp split: sum.splits)+)

lemma law_handle: "law (handle ev)"
  unfolding handle_def sync_def ignoring_def
  by (cases ev)
    (simp_all, (intro law_intros laws law_run_job law_ondataavailable law_handleRecorderStop law_bindSession
      law_setSocketAdmitted law_resume law_retryFailed; simp)+)

lemma page_safe:
  assumes "interleave enabled page_starts (s0, []) (s, ts)" and "tab_inv s0"
  shows "tab_step s0 s"
proof -
  have "tab_step s s' \<and> safe tab_step enabled (\<lambda>_ _. True) t s'" if "tab_inv s" "page_starts s t s'" for s t s'
    using that(2)
  proof cases
    case (event ev)
    from law_handle [of ev] that(1)
    have "tab_step s (fst (handle ev s)) \<and> safe tab_step enabled (\<lambda>_. tab_inv) (snd (handle ev s)) (fst (handle ev s))"
      unfolding lawful_def triple_def by blast
    then have s: "tab_step s s'" and t: "safe tab_step enabled (\<lambda>_. tab_inv) t s'" by (simp_all add: event)
    from recording.safe_weaken [OF t TrueI] s show ?thesis by (rule conjI [rotated])
  qed
  from recording.interleave_safe [OF assms(1) this assms(2)] show ?thesis by (rule conjunct1)
qed


text \<open>A script of events, each with the answers its task is given, is one of the interleavings.\<close>

fun may_start :: "page_event \<Rightarrow> tab \<Rightarrow> bool" where
  "may_start (RunJob j) s = (j \<in> set (jobs s))"
| "may_start _ s = True"

fun run_script :: "(page_event \<times> answer list) list \<Rightarrow> tab \<Rightarrow> tab" where
  "run_script [] s = s"
| "run_script ((ev, rs) # sc) s = run_script sc (fst (drive rs (handle ev s)))"

fun script_ok :: "(page_event \<times> answer list) list \<Rightarrow> tab \<Rightarrow> bool" where
  "script_ok [] s = True"
| "script_ok ((ev, rs) # sc) s \<longleftrightarrow> may_start ev s \<and> accepts enabled rs (handle ev s) \<and>
     script_ok sc (fst (drive rs (handle ev s)))"

lemma script_interleaves:
  "interleave enabled page_starts c (s, ts) \<Longrightarrow> script_ok sc s \<Longrightarrow>
   \<exists>ts'. interleave enabled page_starts c (run_script sc s, ts')"
proof (induction sc s arbitrary: ts rule: run_script.induct)
  case (2 ev rs sc s)
  have "page_starts s (snd (handle ev s)) (fst (handle ev s))"
    using 2(3) by (intro page_starts.event [where ev=ev]) (auto split: page_event.splits)
  from interleave_drive [OF interleave.start [OF 2(2) this], of 0 rs] 2(3)
  have "\<exists>ts'. interleave enabled page_starts c (fst (drive rs (handle ev s)), ts')" by auto
  with 2(1,3) show ?case by auto
qed auto

lemma tab_inv_initial: "tab_inv ((initial_tab (openRecordingDb None) a b c)\<lparr>jobs := js, bound_session := x\<rparr>)"
  unfolding tab_inv_defs by (simp add: initial_tab_def store_wf_def)

definition example_page :: tab where
  "example_page = (initial_tab (openRecordingDb None) True True False)
     \<lparr>jobs := [UploadJob ''S1'', FinalizeJob ''S1''], bound_session := Some ''S1''\<rparr>"

definition slice_script :: "(page_event \<times> answer list) list" where
  "slice_script = [(Slice ''S1'' [1, 2], [Continue, Continue, TxIs Commit, Continue, DigestIs ''c'',
     TxIs Commit, Continue, Continue, TxIs Commit, Continue])]"

definition upload_script :: "(page_event \<times> answer list) list" where
  "upload_script = slice_script @ [(RunJob (UploadJob ''S1''), [Continue, Continue, TxIs Commit, Continue])]"

definition finalize_script :: "(page_event \<times> answer list) list" where
  "finalize_script = slice_script @
     [(RecorderStop ''S1'' None, [Continue, Continue, TxIs Commit, Continue]),
      (Tick 60000, []),
      (RunJob (FinalizeJob ''S1''), [Continue, TxIs Commit, Continue, Continue, TxIs Commit, Continue])]"

lemma slice_script_ok:
  "script_ok slice_script example_page"
  by code_simp

lemma upload_script_ok:
  "script_ok upload_script example_page"
  by code_simp

lemma finalize_script_ok:
  "script_ok finalize_script example_page"
  by code_simp

lemma slice_produced:
  "Produced 0 0 ''S1'' [1, 2] \<in> set (trace (run_script slice_script example_page))"
  by code_simp

lemma slice_settled:
  "settled (run_script slice_script example_page) 0 = 1"
  by code_simp

lemma upload_sent:
  "SentUpload ''S1'' 0 (0, 0, ''c'', [1, 2]) \<in> set (trace (run_script upload_script example_page))"
  by code_simp

lemma finalize_sent:
  "SentFinalize ''S1'' \<lparr>p_final_sequence = 0, p_total_chunks = 1, p_total_duration_ms = 0, p_reason = None\<rparr> \<in>
    set (trace (run_script finalize_script example_page))"
  by code_simp

lemma nothing_purged:
  "PurgedSession ''S1'' \<notin> set (trace (run_script finalize_script example_page))"
  by code_simp

lemmas example_scripts = slice_script_ok upload_script_ok finalize_script_ok slice_produced
  slice_settled upload_sent finalize_sent nothing_purged

section \<open>Properties\<close>

text \<open>
  C1: what is uploaded is what was stored. However the storing of slices, uploads, retries,
  reloads, upload codes, stops and takeovers interleave, and whichever transactions and requests
  fail, every slice that is sent was stored under the number it is sent with; and for a session
  whose records were not purged, a number is never sent with two different contents and is
  below the number of slices the row counts.
\<close>

theorem uploads_are_stored_slices:
  assumes "interleave enabled page_starts (s0, []) (s, ts)" and "tab_inv s0"
    and "SentUpload sid n sl \<in> set (trace s)"
  shows "StoredSlice sid n sl \<in> set (trace s) \<and>
    (PurgedSession sid \<in> set (trace s) \<or>
      (0 \<le> n \<and> n < counter (db s) sid \<and> (\<forall>sl'. SentUpload sid n sl' \<in> set (trace s) \<longrightarrow> sl' = sl)))"
proof -
  have inv: "tab_inv s" using page_safe [OF assms(1,2)] assms(2) by (simp add: tab_step_def)
  then have up: "SentUpload sid n x \<in> set (trace s) \<Longrightarrow> StoredSlice sid n x \<in> set (trace s)" for x
    unfolding tab_inv_def uploads_ok_def by blast
  show ?thesis
  proof (cases "purged s sid")
    case False
    from numbers_stored [OF inv False up [OF assms(3)]] up assms(3) show ?thesis by blast
  next
    case True
    with up assms(3) show ?thesis by (simp add: purged_def)
  qed
qed

lemma example_run:
  "script_ok sc example_page \<Longrightarrow>
   \<exists>ts. interleave enabled page_starts (example_page, []) (run_script sc example_page, ts)"
  by (rule script_interleaves [OF interleave.stop])

lemma example_page_inv: "tab_inv example_page"
  unfolding example_page_def by (rule tab_inv_initial)

theorem uploads_are_stored_slices_witness:
  "StoredSlice ''S1'' 0 (0, 0, ''c'', [1, 2]) \<in> set (trace (run_script upload_script example_page)) \<and>
    (PurgedSession ''S1'' \<in> set (trace (run_script upload_script example_page)) \<or>
      (0 \<le> (0 :: int) \<and> 0 < counter (db (run_script upload_script example_page)) ''S1'' \<and>
       (\<forall>sl'. SentUpload ''S1'' 0 sl' \<in> set (trace (run_script upload_script example_page)) \<longrightarrow>
         sl' = (0, 0, ''c'', [1, 2]))))"
  using example_run [OF example_scripts(2)] uploads_are_stored_slices [OF _ example_page_inv example_scripts(6)]
  by blast

text \<open>
  C5: a finalize never claims slices that do not exist. In every interleaving, a finalize that
  is sent for a session whose records were not purged declares as its slice count its last
  number plus one, and no more slices than were numbered.
\<close>

theorem finalize_covers_numbered_slices:
  assumes "interleave enabled page_starts (s0, []) (s, ts)" and "tab_inv s0"
    and "SentFinalize sid p \<in> set (trace s)" and "PurgedSession sid \<notin> set (trace s)"
  shows "p_total_chunks p = p_final_sequence p + 1 \<and> p_total_chunks p \<le> counter (db s) sid"
proof -
  have inv: "tab_inv s" using page_safe [OF assms(1,2)] assms(2) by (simp add: tab_step_def)
  from assms(4) have "\<not> purged s sid" by (simp add: purged_def)
  from numbers_final [OF inv this assms(3)] show ?thesis .
qed

theorem finalize_covers_numbered_slices_witness:
  "p_total_chunks \<lparr>p_final_sequence = 0, p_total_chunks = 1, p_total_duration_ms = 0, p_reason = None\<rparr>
     = p_final_sequence \<lparr>p_final_sequence = 0, p_total_chunks = 1, p_total_duration_ms = 0, p_reason = None\<rparr> + 1 \<and>
   p_total_chunks \<lparr>p_final_sequence = 0, p_total_chunks = 1, p_total_duration_ms = 0, p_reason = None\<rparr>
     \<le> counter (db (run_script finalize_script example_page)) ''S1''"
  using example_run [OF example_scripts(3)]
    finalize_covers_numbered_slices [OF _ example_page_inv example_scripts(7,8)]
  by blast

text \<open>
  C2: no slice of the recorder vanishes. In every interleaving, a slice that the recorder
  produced and whose turn in the storage chain is over was stored, or else the stop of its
  session declares the take as lost and asks for the operator: from the page as it then is, the
  commit of the stop leaves a row that is lost, needs the operator and, while its finalize is
  pending, names \<open>recorder_lost\<close>.
\<close>

theorem no_slice_vanishes:
  assumes "interleave enabled page_starts (s0, []) (s, ts)" and "tab_inv s0"
    and "Produced g i sid b \<in> set (trace s)" and "i < settled s g"
    and "get_row session_id sid' (metas (db s)) = Some m"
  shows "(\<exists>n t e h. StoredSlice sid n (t, e, h, b) \<in> set (trace s)) \<or>
    (\<exists>s' m'. drive [Continue, TxIs Commit, Continue] (commitRecorderStop sid' now s) = (s', Done (Inr (Some m'))) \<and>
      readMeta Commit (db s') sid' = Inr (Some m') \<and> meta s' = Some m' \<and>
      recorder_state m' = RsLost \<and> needs_operator m' \<and>
      (finalize_pending m' \<longrightarrow> Option.bind (finalize_payload m') p_reason = Some RecorderLost))"
proof -
  have inv: "tab_inv s" using page_safe [OF assms(1,2)] assms(2) by (simp add: tab_step_def)
  from chain_settled [OF inv assms(3,4)] consider "chunk_persist_lost s" | "stored_blob s sid b"
    by (auto simp: kept_or_lost_def)
  then show ?thesis
  proof cases
    case 1
    let ?s = "s\<lparr>stop_as_lost := False\<rparr>"
    let ?m = "releaseRecorderFlush (declareStop ?s m True sid' now) now"
    from inv get_row_key [OF assms(5)] have wf: "meta_wf m" and id: "session_id m = sid'"
      by (auto simp: tab_inv_def rows_ok_def)
    from declareStop_ok [OF wf, of ?s True sid' now] have m: "meta_wf ?m" "session_id ?m = sid'"
      using id by (simp_all add: same_take_def)
    have kept: "recorder_state (persistInterrupted m now) = RsLost" "recorder_state (persistReplaced m now) = RsLost"
      if "recorder_state m = RsLost"
      using that by (simp_all add: persistInterrupted_def persistReplaced_def persistRecorderLost_def
          notePermanentFailure_def Let_def split: option.splits)
    have "recorder_state (declareStop ?s m True sid' now) = RsLost \<and> needs_operator (declareStop ?s m True sid' now)"
      using 1 kept by (simp add: declareStop_def operator_if_def persistRecorderLost_def Let_def)
    then have lost: "recorder_state ?m = RsLost" "needs_operator ?m"
      by (auto simp: releaseRecorderFlush_def persistRecorderLost_def notePermanentFailure_def Let_def
          split: option.splits)
    moreover have "finalize_pending ?m \<longrightarrow> Option.bind (finalize_payload ?m) p_reason = Some RecorderLost"
      using m(1) lost(1) by (auto simp: meta_wf_def payload_wf_def split: option.splits if_splits)
    moreover have "drive [Continue, TxIs Commit, Continue] (commitRecorderStop sid' now s)
      = (?s\<lparr>db := (db s)\<lparr>metas := put_row session_id ?m (metas (db s))\<rparr>, meta := Some ?m\<rparr>, Done (Inr (Some ?m)))"
      using 1 assms(5) by (simp add: commitRecorderStop_def updating_def transaction_def open_db_def
          task_defs transaction_step_def updateMeta_def Let_def note_meta_def)
    ultimately show ?thesis using m(2) by (simp add: readMeta_def get_put_row)
  qed (auto simp: stored_blob_def)
qed


lemma example_slice_row: "get_row session_id ''S1'' (metas (db (run_script slice_script example_page))) \<noteq> None"
  by code_simp

theorem no_slice_vanishes_witness:
  "\<exists>m now. (\<exists>n t e h. StoredSlice ''S1'' n (t, e, h, [1, 2]) \<in> set (trace (run_script slice_script example_page))) \<or>
    (\<exists>s' m'. drive [Continue, TxIs Commit, Continue]
        (commitRecorderStop ''S1'' now (run_script slice_script example_page)) = (s', Done (Inr (Some m'))) \<and>
      readMeta Commit (db s') ''S1'' = Inr (Some m') \<and> meta s' = Some m' \<and>
      recorder_state m' = RsLost \<and> needs_operator m' \<and>
      (finalize_pending m' \<longrightarrow> Option.bind (finalize_payload m') p_reason = Some RecorderLost))"
proof -
  obtain m where m: "get_row session_id ''S1'' (metas (db (run_script slice_script example_page))) = Some m"
    using example_slice_row by blast
  obtain ts where run: "interleave enabled page_starts (example_page, []) (run_script slice_script example_page, ts)"
    using example_run [OF example_scripts(1)] by blast
  have "(0 :: nat) < settled (run_script slice_script example_page) 0" by (simp add: example_scripts(5))
  from no_slice_vanishes [OF run example_page_inv example_scripts(4) this m] show ?thesis by blast
qed



definition example_live :: tab where
  "example_live = (run_script slice_script example_page)
     \<lparr>active := Some \<lparr>a_session = ''S1'', a_recorder = 0, a_stream = Some 7\<rparr>,
       running_recorders := [0], live_streams := [7]\<rparr>"

lemma example_live_facts:
  "active_for example_live ''S1'' = Some \<lparr>a_session = ''S1'', a_recorder = 0, a_stream = Some 7\<rparr>"
  "recorder_live example_live \<lparr>a_session = ''S1'', a_recorder = 0, a_stream = Some 7\<rparr>"
  "map_option (\<lambda>m. (recorder_state m, finalize_confirmed m, server_finalize_state m))
     (get_row session_id ''S1'' (metas (db (fst (interruptRecording ''S1'' example_live)))))
   = Some (RsRecording, False, FsNone)"
  by code_simp+


text \<open>
  A failing database leaves a revoked recorder running. If the transaction that declares
  the interrupted take aborts, the interruption rejects at its next step: it has not called
  \<open>stop\<close>, the recorder and the camera go on, and no text about the revocation is shown.
\<close>

theorem failed_declaration_leaves_the_recorder:
  assumes "active_for s sid = Some a" and "recorder_live s a"
  shows "drive_env [(e1, Continue), (e2, TxIs (Abort e)), (e3, Continue)] (interruptRecording sid s)
    = (e3 (e2 (e1 (fst (interruptRecording sid s)))), Done (Inl (OtherError ''Error'' e)))"
proof -
  have here: "active_for (s\<lparr>revoked_sessions := x, retryable := False\<rparr>) sid = Some a"
    "recording_here (s\<lparr>revoked_sessions := x, retryable := False\<rparr>) sid" for x
    using assms by (auto simp: active_for_def recording_here_def recorder_live_def split: option.splits if_splits)
  then show ?thesis
    by (simp add: interruptRecording_def stop_as_declared_def updating_def transaction_def open_db_def finished_def
        task_defs transaction_step_def updateMeta_def Let_def)
qed

theorem failed_declaration_leaves_the_recorder_witness:
  "drive_env [(id, Continue), (id, TxIs (Abort ''QuotaExceededError'')), (id, Continue)]
      (interruptRecording ''S1'' example_live)
    = (fst (interruptRecording ''S1'' example_live), Done (Inl (OtherError ''Error'' ''QuotaExceededError'')))"
  using failed_declaration_leaves_the_recorder [OF example_live_facts(1,2), of id id _ id] by simp


text \<open>
  A reload does not lose a take that still runs. While this tab's recorder runs or is
  storing its last slices, merging the server's status (or none) into the row never declares the
  take lost and never releases a held declaration; with no recorder left, no row stays in the
  recording state and no declaration stays held.
\<close>

theorem reload_respects_the_recorder:
  "(let kept = mergeReload m st now True; settled_row = mergeReload m st now False in
     recorder_state kept = recorder_state m \<and> flush_pending kept = flush_pending m \<and>
     finalize_payload kept = finalize_payload m \<and>
     (planReload (Some settled_row) \<noteq> PlanRecorderLost) \<and> \<not> flush_pending settled_row)"
proof -
  let ?n = "case st of None \<Rightarrow> m | Some st \<Rightarrow> applyServerStatus m st now"
  have n: "recorder_state ?n = recorder_state m" "flush_pending ?n = flush_pending m" "finalize_payload ?n = finalize_payload m"
    by (auto simp: applyServerStatus_def flush_pending_def Let_def split: option.splits)
  let ?l = "if planReload (Some ?n) = PlanRecorderLost then persistRecorderLost ?n now else ?n"
  have l: "planReload (Some ?l) \<noteq> PlanRecorderLost"
    by (auto simp: persistRecorderLost_def Let_def)
  have r: "planReload (Some (releaseRecorderFlush x now)) \<noteq> PlanRecorderLost \<and> \<not> flush_pending (releaseRecorderFlush x now)"
    if "planReload (Some x) \<noteq> PlanRecorderLost" for x
    using that by (auto simp: releaseRecorderFlush_def persistRecorderLost_def notePermanentFailure_def flush_pending_def
        Let_def split: option.splits if_splits)
  show ?thesis using n r [OF l] by (simp add: mergeReload_def Let_def)
qed

end
