(* ===== verification/RecordingStart.thy ===== *)
theory RecordingStart
  imports RecordingTasks
begin

text \<open>
  Starting a take (\<open>startRecording\<close> of \<open>apps/student/src/recordingController.ts\<close>): the gates that
  are checked before and after each wait, the camera, the claim of the take on the server with
  its retries, the recorder lock between tabs, the row, and the recorder itself. The theory
  shows what holds whatever the rest of the page does while the start waits.
\<close>

section \<open>The claim\<close>

definition CLAIM_ATTEMPTS :: nat where
  "CLAIM_ATTEMPTS = 3"

definition CLAIM_RETRY_MS :: ms where
  "CLAIM_RETRY_MS = 500"

definition send_claim :: "string \<Rightarrow> string \<Rightarrow> unit action" where
  "send_claim sid takeId =
     andthen (update (\<lambda>s. s\<lparr>trace := SentClaim sid takeId # trace s\<rparr>))
      (await (ask (ClaimRequest sid takeId))
        (\<lambda>r. ret (case r of Accepted \<Rightarrow> Inr () | Rejected c \<Rightarrow> Inl c | _ \<Rightarrow> Inl unexpected)))"

text \<open>One round of \<open>claimWithRetry\<close>; \<open>again\<close> is what a failure that may be retried leads to.\<close>

definition claim_round ::
  "string \<Rightarrow> string \<Rightarrow> (tab, request, answer, claim_outcome) async
    \<Rightarrow> (tab, request, answer, claim_outcome) async" where
  "claim_round sid takeId again =
     await (send_claim sid takeId) (\<lambda>r. case r of
       Inr _ \<Rightarrow> andthen (update (\<lambda>s. s\<lparr>trace := ClaimAnswered sid takeId # trace s\<rparr>)) (ret ClaimClaimed)
     | Inl c \<Rightarrow>
         let outcome = classifyClaimError c
         in if outcome = ClaimLegacy then
              andthen (update (\<lambda>s. s\<lparr>trace := ClaimAnswered sid takeId # trace s\<rparr>)) (ret outcome)
            else if outcome \<noteq> ClaimFailed then ret outcome
            else again)"

fun claim_loop ::
  "nat \<Rightarrow> nat \<Rightarrow> string \<Rightarrow> string \<Rightarrow> (tab, request, answer, claim_outcome) async" where
  "claim_loop 0 made sid takeId = claim_round sid takeId (ret ClaimFailed)"
| "claim_loop (Suc left) made sid takeId = claim_round sid takeId
     (await (ask (Sleep (CLAIM_RETRY_MS * int made))) (\<lambda>_. claim_loop left (Suc made) sid takeId))"

definition claimWithRetry :: "string \<Rightarrow> string \<Rightarrow> (tab, request, answer, claim_outcome) async" where
  "claimWithRetry sid takeId = claim_loop (CLAIM_ATTEMPTS - 1) 1 sid takeId"

definition refuseClaim :: "string \<Rightarrow> claim_outcome \<Rightarrow> unit action" where
  "refuseClaim sid outcome =
     (case outcome of
        ClaimAlready \<Rightarrow> andthen (update (\<lambda>s. lockAlreadyClaimed sid (s\<lparr>pending_take := None\<rparr>))) finished
      | ClaimEnded \<Rightarrow> andthen (update (\<lambda>s.
          holdStartRefusal SessionEndedMessage (s\<lparr>pending_take := None, can_start := False\<rparr>))) finished
      | ClaimNotAdmitted \<Rightarrow> andthen (update (holdStartRefusal NotAdmittedMessage)) finished
      | ClaimRevoked \<Rightarrow>
          andthen (update (\<lambda>s. s\<lparr>pending_take := None, status := Idle\<rparr>)) (interruptRecording sid)
      | ClaimUnauthorized \<Rightarrow> andthen (update (\<lambda>s.
          holdStartRefusal UnauthorizedMessage (s\<lparr>pending_take := None, can_start := False\<rparr>))) finished
      | _ \<Rightarrow> andthen (update (holdStartRefusal ClaimFailedMessage)) finished)"

section \<open>The recorder lock\<close>

text \<open>Without web locks, or when the request fails, the lock counts as held.\<close>

definition holdRecorderLock :: "string \<Rightarrow> (tab, request, answer, bool) async" where
  "holdRecorderLock sid =
     await (reading web_locks) (\<lambda>locks.
     if \<not> locks then ret True
     else andthen (update dropRecorderLock)
       (await (ask (LockRequest sid)) (\<lambda>r. case r of
          LockIs True \<Rightarrow> andthen (update (\<lambda>s. s\<lparr>lock_held := Some sid\<rparr>)) (ret True)
        | LockIs False \<Rightarrow> ret False
        | _ \<Rightarrow> ret True)))"

section \<open>The start\<close>

definition getUserMedia :: "nat action" where
  "getUserMedia = await (ask CameraRequest) (\<lambda>r. case r of
     StreamIs st \<Rightarrow>
       andthen (update (\<lambda>s. s\<lparr>live_streams := set_add st (live_streams s), trace := CameraGranted st # trace s\<rparr>))
         (ret (Inr st))
   | Rejected c \<Rightarrow> ret (Inl c)
   | _ \<Rightarrow> ret (Inl unexpected))"

definition abandonUnstartedRecorder ::
  "string \<Rightarrow> nat \<Rightarrow> nat \<Rightarrow> recording_meta \<Rightarrow> unit action" where
  "abandonUnstartedRecorder sid r st created =
     andthen (update (\<lambda>s.
       let s1 = stopTracks (Some st) (s\<lparr>fenced_recorders := r # fenced_recorders s\<rparr>)
       in if map_option a_recorder (active s1) = Some r then s1\<lparr>active := None\<rparr> else s1))
     (await (reading chain) (\<lambda>gn.
     await (ask (ChainRequest (fst gn) (snd gn))) (\<lambda>_.
     andthen (update dropRecorderLock)
     (attempt open_db (\<lambda>_.
     attempt (transaction (\<lambda>_ t d. deleteUnstartedMeta t d sid (nullish (recorder_started_at created) (-1)))
         (\<lambda>_ _. [])) (\<lambda>removed.
     if removed then andthen (update (\<lambda>s. s\<lparr>meta := None, can_start := True\<rparr>)) finished
     else
       attempt (updating sid (\<lambda>s latest. persistRecorderLost latest (clock s))) (\<lambda>updated.
       andthen (update (\<lambda>s. s\<lparr>meta := updated, can_start := False\<rparr>)) finished)))))))"

definition start_failed :: "cause \<Rightarrow> tab \<Rightarrow> tab" where
  "start_failed c s =
     (rememberHeldFailure (StartFailedMessage (cause_string c)) s)\<lparr>status := ErrorStatus\<rparr>"

text \<open>\<open>start()\<close> returned: from here on any failure is a lost take.\<close>

definition started :: "string \<Rightarrow> unit action" where
  "started sid =
     andthen (update (\<lambda>s. ensurePump sid (s\<lparr>pending_take := None, status := Recording\<rparr>)))
     (await (reading (\<lambda>s. (is_revoked s sid, is_replaced s sid))) (\<lambda>(revoked, replaced).
      if revoked then interruptRecording sid
      else if replaced then stopReplacedRecording sid
      else finished))"

definition launch_recorder :: "string \<Rightarrow> nat \<Rightarrow> nat \<Rightarrow> recording_meta \<Rightarrow> unit action" where
  "launch_recorder sid r st created =
     andthen (update (\<lambda>s. attachRecorder sid r (Some st) (s\<lparr>meta := Some created, can_start := False\<rparr>)))
     (await (reading start_fault) (\<lambda>fault. case fault of
        Some c \<Rightarrow>
          attempt (abandonUnstartedRecorder sid r st created) (\<lambda>_.
          andthen (update (start_failed c)) finished)
      | None \<Rightarrow>
          andthen (update (\<lambda>s. s\<lparr>running_recorders := set_add r (running_recorders s),
              trace := RecorderStarted sid st # trace s\<rparr>)) (started sid)))"

definition create_recorder :: "string \<Rightarrow> nat \<Rightarrow> unit action" where
  "create_recorder sid st =
     await (reading (\<lambda>s. (constructor_fault s, next_recorder s, emptyMeta sid (clock s)))) (\<lambda>(fault, r, created).
     let failed = (\<lambda>c. andthen (update (\<lambda>s. start_failed c (stopTracks (Some st) (dropRecorderLock s)))) finished) in
     case fault of
       Some c \<Rightarrow> failed c
     | None \<Rightarrow>
         andthen (update (\<lambda>s. s\<lparr>next_recorder := Suc r\<rparr>))
         (await (transaction (\<lambda>_ t d. writeMeta t d created) (\<lambda>_ _. [])) (\<lambda>w. case w of
            Inl c \<Rightarrow> failed c
          | Inr _ \<Rightarrow> launch_recorder sid r st created)))"

definition after_claim :: "string \<Rightarrow> nat \<Rightarrow> unit action" where
  "after_claim sid st =
     await (reading (\<lambda>s. startBlocked s sid)) (\<lambda>blocked. case blocked of
       Some msg \<Rightarrow> andthen (update (\<lambda>s. holdStartRefusal msg (stopTracks (Some st) s))) finished
     | None \<Rightarrow>
         andthen (update (\<lambda>s. s\<lparr>take_check := Some (sid, TakeClaimed)\<rparr>))
         (await (holdRecorderLock sid) (\<lambda>held.
          if \<not> held then
            andthen (update (\<lambda>s. holdStartRefusal OtherTabMessage
              ((stopTracks (Some st) s)\<lparr>can_start := False\<rparr>))) finished
          else create_recorder sid st)))"

definition claim_take :: "string \<Rightarrow> string option \<Rightarrow> string \<Rightarrow> nat \<Rightarrow> unit action" where
  "claim_take sid pendingId newId st =
     (let takeId = nullish pendingId newId in
      andthen (update (\<lambda>s. s\<lparr>pending_take := Some (sid, takeId)\<rparr>))
      (await (claimWithRetry sid takeId) (\<lambda>claim.
       if claim \<noteq> ClaimClaimed \<and> claim \<noteq> ClaimLegacy then
         andthen (update (stopTracks (Some st))) (refuseClaim sid claim)
       else after_claim sid st)))"

definition after_camera :: "string \<Rightarrow> string option \<Rightarrow> string \<Rightarrow> nat \<Rightarrow> unit action" where
  "after_camera sid pendingId newId st =
     await (reading (\<lambda>s. startBlocked s sid)) (\<lambda>blocked. case blocked of
       Some msg \<Rightarrow> andthen (update (\<lambda>s. holdStartRefusal msg (stopTracks (Some st) s))) finished
     | None \<Rightarrow>
         attempt (read_row sid) (\<lambda>again. case again of
           Some m \<Rightarrow> andthen (update (\<lambda>s.
             (stopTracks (Some st) s)\<lparr>can_start := False, meta := Some m, status := Idle\<rparr>)) finished
         | None \<Rightarrow> claim_take sid pendingId newId st))"

definition request_camera :: "string \<Rightarrow> string option \<Rightarrow> string \<Rightarrow> unit action" where
  "request_camera sid pendingId newId =
     await (reading (\<lambda>s. media_recorder s \<and> media_devices s)) (\<lambda>available.
     if \<not> available then
       andthen (update (\<lambda>s. rememberHeldFailure NoMediaRecorderMessage (s\<lparr>status := Unavailable\<rparr>))) finished
     else
       andthen (update (\<lambda>s. (forgetError (s\<lparr>status := Requesting\<rparr>))\<lparr>retryable := False\<rparr>))
       (await getUserMedia (\<lambda>camera. case camera of
          Inl c \<Rightarrow>
            andthen (update (\<lambda>s.
              if is_revoked s sid then s\<lparr>status := Idle\<rparr>
              else (rememberHeldFailure (fst (describeMediaError c)) s)
                \<lparr>retryable := snd (describeMediaError c), status := ErrorStatus\<rparr>)) finished
        | Inr st \<Rightarrow> after_camera sid pendingId newId st)))"

text \<open>The id of a new take is drawn by the browser; it is an argument.\<close>

definition startRecordingOnce :: "string \<Rightarrow> string \<Rightarrow> unit action" where
  "startRecordingOnce sid newId =
     andthen (update cancelRelease)
     (await (reading (\<lambda>s. (is_revoked s sid \<or> is_replaced s sid, recording_here s sid))) (\<lambda>(barred, here).
      if barred then finished
      else if here then andthen (update (\<lambda>s. s\<lparr>status := Recording\<rparr>)) finished
      else
        attempt (bindSession sid) (\<lambda>_.
        attempt open_db (\<lambda>_.
        attempt (read_row sid) (\<lambda>existing. case existing of
          Some m \<Rightarrow> andthen (update (\<lambda>s. s\<lparr>can_start := False, meta := Some m\<rparr>)) finished
        | None \<Rightarrow>
            await (reading (\<lambda>s. (startBlocked s sid, pending_take s))) (\<lambda>(blocked, pending). case blocked of
              Some msg \<Rightarrow> andthen (update (holdStartRefusal msg)) finished
            | None \<Rightarrow>
                let pendingId = (case pending of
                    Some (p, takeId) \<Rightarrow> if p = sid then Some takeId else None | None \<Rightarrow> None) in
                if pendingId \<noteq> None then request_camera sid pendingId newId
                else await (checkTake sid) (\<lambda>st.
                  if st = TakeClaimed then andthen (update (lockAlreadyClaimed sid)) finished
                  else if st \<noteq> TakeFree then andthen (update (holdStartRefusal TakeUnknownMessage)) finished
                  else request_camera sid None newId)))))))"

text \<open>Concurrent starts share the one attempt in flight.\<close>

definition startRecording :: "string \<Rightarrow> string \<Rightarrow> unit action" where
  "startRecording sid newId =
     await (reading start_task) (\<lambda>running.
     if running then finished
     else
       andthen (update (\<lambda>s. s\<lparr>start_task := True\<rparr>))
       (await (startRecordingOnce sid newId) (\<lambda>r.
        andthen (update (\<lambda>s. s\<lparr>start_task := False\<rparr>)) (ret r))))"


section \<open>What holds whatever happens meanwhile\<close>

text \<open>
  The rest of the page may change everything while a start waits, but it does not forget
  what happened and does not start recorders itself.
\<close>

definition start_inv :: "tab \<Rightarrow> bool" where
  "start_inv s \<longleftrightarrow> (\<forall>sid st. RecorderStarted sid st \<in> set (trace s) \<longrightarrow>
     CameraGranted st \<in> set (trace s) \<and> (\<exists>takeId. ClaimAnswered sid takeId \<in> set (trace s)))"

definition start_step :: "tab \<Rightarrow> tab \<Rightarrow> bool" where
  "start_step s s' \<longleftrightarrow> set (trace s) \<subseteq> set (trace s') \<and> (start_inv s \<longrightarrow> start_inv s')"

interpretation starting: guarantee start_step enabled start_inv
  by unfold_locales (auto simp: start_step_def)

abbreviation calm :: "tab \<Rightarrow> tab \<Rightarrow> bool" where
  "calm s s' \<equiv> set (trace s) \<subseteq> set (trace s') \<and>
     (\<forall>sid st. RecorderStarted sid st \<in> set (trace s') \<longrightarrow> RecorderStarted sid st \<in> set (trace s))"

lemma calm_step: "calm s s' \<Longrightarrow> start_step s s'"
  unfolding start_step_def start_inv_def by blast

abbreviation slaw :: "(tab, request, answer, 'a) async \<Rightarrow> bool" where
  "slaw m \<equiv> lawful start_step enabled start_inv m"

lemma slaw_update: "(\<And>s. calm s (f s)) \<Longrightarrow> slaw (update f)"
  by (rule starting.lawful_update) (rule calm_step)

lemma slaw_transaction:
  assumes "\<And>d a sid st. RecorderStarted sid st \<notin> set (note d a)"
  shows "slaw (transaction f note)"
  unfolding transaction_def
proof (intro starting.lawful_await starting.lawful_perform starting.lawful_ask starting.lawful_ret calm_step)
  fix r s
  show "calm s (snd (transaction_step f note r s))"
    using assms by (auto simp: transaction_step_def split: answer.splits prod.splits sum.splits)
qed

lemmas slaw_intros = starting.lawful_await starting.lawful_ret starting.lawful_reading slaw_update
  starting.lawful_ask starting.lawful_andthen starting.lawful_attempt starting.lawful_catch
  starting.lawful_for_each starting.lawful_if starting.lawful_option starting.lawful_sum
  starting.lawful_let starting.lawful_prod

lemmas task_basic_defs = open_db_def fetchUploadStatus_def finished_def read_row_def read_chunks_def
  tx_read_def updating_def refreshPending_def checkTake_def stop_as_declared_def

lemma trace_frames [simp]:
  "trace (rememberHeldFailure m s) = trace s" "trace (forgetError s) = trace s"
  "trace (note_meta u s) = trace s" "trace (holdStartRefusal m s) = trace s"
  "trace (lockAlreadyClaimed sid s) = trace s" "trace (dropRecorderLock s) = trace s"
  "trace (ensurePump sid s) = trace s" "trace (bind_reset sid s) = trace s"
  "trace (cancelRelease s) = trace s" "trace (stop_recorder r s) = StopCalled r # trace s"
  "trace (start_failed c s) = trace s" "trace (attachRecorder sid r q s) = trace s"
  by (simp_all add: rememberHeldFailure_def forgetError_def note_meta_def holdStartRefusal_def
      lockAlreadyClaimed_def dropRecorderLock_def ensurePump_def bind_reset_def cancelRelease_def
      stop_recorder_def start_failed_def attachRecorder_def Let_def split: option.splits)

declare stopTracks.simps [simp del]

lemma trace_stop [simp]: "trace (stopTracks st s) = (case st of None \<Rightarrow> trace s | Some x \<Rightarrow> TracksStopped x # trace s)"
  by (cases st) (simp_all add: stopTracks.simps)

named_theorems slaws \<open>functions that start no recorder\<close>

lemma slaw_basic [slaws]:
  "slaw open_db" "slaw (fetchUploadStatus sid)" "slaw finished" "slaw (read_row sid)"
  "slaw (refreshPending sid)" "slaw (checkTake sid)" "slaw (updating sid g)" "slaw (bindSession sid)"
  unfolding task_basic_defs bindSession_def
  by (intro slaw_intros slaw_transaction; simp)+

lemma slaw_interrupt [slaws]: "slaw (interruptRecording sid)" "slaw (stopReplacedRecording sid)"
proof -
  have s: "slaw (stop_as_declared sid g msg)" for g msg
    unfolding stop_as_declared_def
    by (intro slaw_intros slaws) (auto split: option.splits)
  show "slaw (interruptRecording sid)" "slaw (stopReplacedRecording sid)"
    unfolding interruptRecording_def stopReplacedRecording_def by (intro slaw_intros s; simp)+
qed

lemma slaw_refuseClaim [slaws]: "slaw (refuseClaim sid outcome)"
  unfolding refuseClaim_def by (cases outcome) (simp_all, (intro slaw_intros slaws; simp)+)

lemma slaw_lock [slaws]: "slaw (holdRecorderLock sid)"
proof -
  have "slaw (case r of LockIs True \<Rightarrow> andthen (update (\<lambda>s. s\<lparr>lock_held := Some sid\<rparr>)) (ret True)
      | LockIs False \<Rightarrow> ret False | _ \<Rightarrow> ret True)" for r
    by (cases r) (auto intro!: slaw_intros split: bool.splits)
  then show ?thesis
    unfolding holdRecorderLock_def by (intro slaw_intros) simp_all
qed

definition granted :: "nat \<Rightarrow> tab \<Rightarrow> bool" where
  "granted st s \<longleftrightarrow> CameraGranted st \<in> set (trace s)"

definition answered :: "string \<Rightarrow> tab \<Rightarrow> bool" where
  "answered sid s \<longleftrightarrow> (\<exists>takeId. ClaimAnswered sid takeId \<in> set (trace s))"

definition camera_settled :: "string \<Rightarrow> nat \<Rightarrow> tab \<Rightarrow> bool" where
  "camera_settled sid st s \<longleftrightarrow>
     TracksStopped st \<in> set (trace s) \<or> RecorderStarted sid st \<in> set (trace s)"

lemma facts_stable:
  "granted st s \<Longrightarrow> start_step s s' \<Longrightarrow> granted st s'"
  "answered sid s \<Longrightarrow> start_step s s' \<Longrightarrow> answered sid s'"
  "camera_settled sid st s \<Longrightarrow> start_step s s' \<Longrightarrow> camera_settled sid st s'"
  by (auto simp: granted_def answered_def camera_settled_def start_step_def)

abbreviation claims :: "string \<Rightarrow> claim_outcome \<Rightarrow> tab \<Rightarrow> bool" where
  "claims sid r s \<equiv> start_inv s \<and> (r \<in> {ClaimClaimed, ClaimLegacy} \<longrightarrow> answered sid s)"

lemma triple_claim_round:
  assumes "triple start_step enabled start_inv again (claims sid)"
  shows "triple start_step enabled start_inv (claim_round sid takeId again) (claims sid)"
  unfolding claim_round_def
proof (rule starting.triple_await)
  show "triple start_step enabled start_inv (send_claim sid takeId) (\<lambda>_. start_inv)"
    unfolding send_claim_def by (rule lawful_def [THEN iffD1], intro slaw_intros) auto
  have yes: "triple start_step enabled start_inv
      (andthen (update (\<lambda>s. s\<lparr>trace := ClaimAnswered sid takeId # trace s\<rparr>)) (ret a)) (claims sid)" for a
  proof (rule starting.triple_updating [where P'="\<lambda>s. start_inv s \<and> answered sid s"])
    fix s assume "start_inv s"
    moreover have "start_step s (s\<lparr>trace := ClaimAnswered sid takeId # trace s\<rparr>)"
      by (rule calm_step) auto
    ultimately show "start_step s (s\<lparr>trace := ClaimAnswered sid takeId # trace s\<rparr>) \<and>
      start_inv (s\<lparr>trace := ClaimAnswered sid takeId # trace s\<rparr>) \<and>
      answered sid (s\<lparr>trace := ClaimAnswered sid takeId # trace s\<rparr>)"
      using starting.I_stable by (auto simp: answered_def)
  qed (rule starting.triple_ret, blast intro: starting.I_stable facts_stable)
  have no: "triple start_step enabled start_inv (ret a) (claims sid)"
    if "a \<notin> {ClaimClaimed, ClaimLegacy}" for a
    using that starting.I_stable by (intro starting.triple_ret) auto
  have outcome: "classifyClaimError c \<noteq> ClaimClaimed" for c by (cases c) auto
  fix r :: "cause + unit"
  show "triple start_step enabled start_inv (case r of
       Inr _ \<Rightarrow> andthen (update (\<lambda>s. s\<lparr>trace := ClaimAnswered sid takeId # trace s\<rparr>)) (ret ClaimClaimed)
     | Inl c \<Rightarrow>
         let outcome = classifyClaimError c
         in if outcome = ClaimLegacy then
              andthen (update (\<lambda>s. s\<lparr>trace := ClaimAnswered sid takeId # trace s\<rparr>)) (ret outcome)
            else if outcome \<noteq> ClaimFailed then ret outcome
            else again) (claims sid)"
  proof (cases r)
    case (Inl c)
    show ?thesis
      unfolding Inl sum.case Let_def
      by ((split if_split)+, intro conjI impI yes assms no) (simp_all add: outcome)
  qed (use yes in simp)
qed

lemma triple_claim_loop:
  "triple start_step enabled start_inv (claim_loop left made sid takeId) (claims sid)"
proof (induction left arbitrary: made)
  case 0
  have "triple start_step enabled start_inv (ret ClaimFailed) (claims sid)"
    by (rule starting.triple_ret) (auto dest: starting.I_stable)
  then show ?case unfolding claim_loop.simps by (rule triple_claim_round)
next
  case (Suc left)
  have "triple start_step enabled start_inv
      (await (ask (Sleep d)) (\<lambda>_. claim_loop left (Suc made) sid takeId)) (claims sid)" for d
    by (rule starting.triple_await [OF starting.lawful_ask [unfolded lawful_def] Suc.IH])
  then show ?case unfolding claim_loop.simps by (rule triple_claim_round)
qed

abbreviation settles :: "string \<Rightarrow> nat \<Rightarrow> cause + unit \<Rightarrow> tab \<Rightarrow> bool" where
  "settles sid st r s \<equiv> start_inv s \<and> (r = Inr () \<longrightarrow> camera_settled sid st s)"

lemma then_slaw:
  "slaw m \<Longrightarrow> triple start_step enabled (\<lambda>s. start_inv s \<and> camera_settled sid st s) m (settles sid st)"
  unfolding lawful_def
  by (drule starting.triple_frame [where F="camera_settled sid st", rotated], erule (1) facts_stable(3))
    (erule starting.triple_weaken; simp)

lemma stop_then:
  assumes "\<And>s. calm s (f s) \<and> TracksStopped st \<in> set (trace (f s))" and "slaw m"
  shows "triple start_step enabled (\<lambda>s. start_inv s \<and> F s) (andthen (update f) m) (settles sid st)"
proof (rule starting.triple_updating [OF _ then_slaw [OF assms(2)]])
  fix s assume "start_inv s \<and> F s"
  with calm_step [of s "f s"] assms(1) [of s] starting.I_stable
  show "start_step s (f s) \<and> start_inv (f s) \<and> camera_settled sid st (f s)"
    by (auto simp: camera_settled_def)
qed


lemma reading_then:
  assumes "\<And>x. triple start_step enabled P (k x) Q"
  shows "triple start_step enabled P (await (reading f) k) Q"
proof (rule starting.triple_reading)
  fix x
  show "triple start_step enabled (\<lambda>s. P s \<and> f s = x) (k x) Q"
    using assms [of x] by (rule starting.triple_weaken) auto
qed

lemma slaw_then:
  assumes "slaw m" and "\<And>s s'. F s \<Longrightarrow> start_step s s' \<Longrightarrow> F s'"
    and "\<And>x. triple start_step enabled (\<lambda>s. start_inv s \<and> F s) (k x) Q"
  shows "triple start_step enabled (\<lambda>s. start_inv s \<and> F s) (await m k) Q"
  using starting.triple_frame [of F, OF assms(2) assms(1) [unfolded lawful_def]] assms(3)
  by (rule starting.triple_await)

lemma calm_then:
  assumes "\<And>s. calm s (f s)" and "\<And>s s'. F s \<Longrightarrow> start_step s s' \<Longrightarrow> F s'"
    and "triple start_step enabled (\<lambda>s. start_inv s \<and> F s) m Q"
  shows "triple start_step enabled (\<lambda>s. start_inv s \<and> F s) (andthen (update f) m) Q"
  using calm_step [OF assms(1)] assms(2) starting.I_stable
  by (intro starting.triple_updating [OF _ assms(3)]) blast

text \<open>The facts a start collects: the camera is granted and the claim is answered.\<close>

definition ready :: "string \<Rightarrow> nat \<Rightarrow> tab \<Rightarrow> bool" where
  "ready sid st s \<longleftrightarrow> granted st s \<and> answered sid s"

lemma ready_stable: "ready sid st s \<Longrightarrow> start_step s s' \<Longrightarrow> ready sid st s'"
  using facts_stable by (auto simp: ready_def)

lemma ready_calm:
  assumes "\<And>s. calm s (f s)"
    and "triple start_step enabled (\<lambda>s. start_inv s \<and> ready sid st s) m Q"
  shows "triple start_step enabled (\<lambda>s. start_inv s \<and> ready sid st s) (andthen (update f) m) Q"
  using assms(1) ready_stable assms(2) by (rule calm_then)

lemma ready_then:
  assumes "slaw m" and "\<And>x. triple start_step enabled (\<lambda>s. start_inv s \<and> ready sid st s) (k x) Q"
  shows "triple start_step enabled (\<lambda>s. start_inv s \<and> ready sid st s) (await m k) Q"
  using assms(1) ready_stable assms(2) by (rule slaw_then)

lemma slaw_started: "slaw (started sid)"
  unfolding started_def by (intro slaw_intros slaws) simp_all

lemma slaw_abandon: "slaw (abandonUnstartedRecorder sid r st created)"
  unfolding abandonUnstartedRecorder_def Let_def
  by (intro slaw_intros slaws slaw_transaction) auto

lemma launch_settles:
  "triple start_step enabled (\<lambda>s. start_inv s \<and> ready sid st s) (launch_recorder sid r st created) (settles sid st)"
  unfolding launch_recorder_def
proof (rule ready_calm, simp, rule reading_then)
  fix fault
  show "triple start_step enabled (\<lambda>s. start_inv s \<and> ready sid st s)
    (case fault of
        Some c \<Rightarrow>
          attempt (abandonUnstartedRecorder sid r st created) (\<lambda>_. andthen (update (start_failed c)) finished)
      | None \<Rightarrow>
          andthen (update (\<lambda>s. s\<lparr>running_recorders := set_add r (running_recorders s),
              trace := RecorderStarted sid st # trace s\<rparr>)) (started sid)) (settles sid st)"
  proof (cases fault)
    case None
    have "start_step s (s\<lparr>running_recorders := rs, trace := RecorderStarted sid st # trace s\<rparr>) \<and>
        start_inv (s\<lparr>running_recorders := rs, trace := RecorderStarted sid st # trace s\<rparr>)"
      if "start_inv s" "ready sid st s" for s rs
      using that by (auto simp: start_step_def start_inv_def ready_def granted_def answered_def)
    then show ?thesis
      unfolding None option.case
      by (intro starting.triple_updating [OF _ then_slaw [OF slaw_started]])
        (auto simp: camera_settled_def)
  next
    case (Some c)
    have "triple start_step enabled (\<lambda>s. start_inv s \<and> ready sid st s)
      (abandonUnstartedRecorder sid r st created) (settles sid st)"
      unfolding abandonUnstartedRecorder_def Let_def
      by (rule stop_then, force, intro slaw_intros slaws slaw_transaction) auto
    then show ?thesis
      unfolding Some option.case
    proof (rule starting.triple_attempt [where Q'="\<lambda>_ s. start_inv s \<and> camera_settled sid st s", OF starting.triple_weaken])
      have "slaw (andthen (update (start_failed c)) finished)" by (intro slaw_intros slaws) simp_all
      then show "triple start_step enabled (\<lambda>s. start_inv s \<and> camera_settled sid st s)
          (andthen (update (start_failed c)) finished) (settles sid st)" by (rule then_slaw)
    qed (auto split: sum.splits dest: starting.I_stable)
  qed
qed

lemma create_settles:
  "triple start_step enabled (\<lambda>s. start_inv s \<and> ready sid st s) (create_recorder sid st) (settles sid st)"
  unfolding create_recorder_def Let_def
proof (rule reading_then, clarify)
  fix fault r created
  have failed: "triple start_step enabled (\<lambda>s. start_inv s \<and> F s)
      (andthen (update (\<lambda>s. start_failed c (stopTracks (Some st) (dropRecorderLock s)))) finished) (settles sid st)" for c F
    by (rule stop_then) (auto intro: slaws)
  have row: "slaw (transaction (\<lambda>_ t d. writeMeta t d created) (\<lambda>_ _. []))"
    by (rule slaw_transaction) simp
  show "triple start_step enabled (\<lambda>s. start_inv s \<and> ready sid st s)
     (case fault of
       Some c \<Rightarrow> andthen (update (\<lambda>s. start_failed c (stopTracks (Some st) (dropRecorderLock s)))) finished
     | None \<Rightarrow>
         andthen (update (\<lambda>s. s\<lparr>next_recorder := Suc r\<rparr>))
         (await (transaction (\<lambda>_ t d. writeMeta t d created) (\<lambda>_ _. [])) (\<lambda>w. case w of
            Inl c \<Rightarrow> andthen (update (\<lambda>s. start_failed c (stopTracks (Some st) (dropRecorderLock s)))) finished
          | Inr _ \<Rightarrow> launch_recorder sid r st created))) (settles sid st)"
  proof (cases fault)
    case None
    have "triple start_step enabled (\<lambda>s. start_inv s \<and> ready sid st s)
      (case w of
         Inl c \<Rightarrow> andthen (update (\<lambda>s. start_failed c (stopTracks (Some st) (dropRecorderLock s)))) finished
       | Inr _ \<Rightarrow> launch_recorder sid r st created) (settles sid st)" for w :: "cause + unit"
      by (cases w) (simp_all add: failed launch_settles del: trace_stop)
    with None show ?thesis by (auto intro!: ready_calm ready_then [OF row])
  qed (simp add: failed)
qed

lemma after_claim_settles:
  "triple start_step enabled (\<lambda>s. start_inv s \<and> ready sid st s) (after_claim sid st) (settles sid st)"
  unfolding after_claim_def
proof (rule reading_then)
  fix blocked
  have stop: "triple start_step enabled (\<lambda>s. start_inv s \<and> ready sid st s) (andthen (update f) finished) (settles sid st)"
    if "\<And>s. calm s (f s) \<and> TracksStopped st \<in> set (trace (f s))" for f
    using that slaw_basic(3) by (rule stop_then)
  show "triple start_step enabled (\<lambda>s. start_inv s \<and> ready sid st s)
    (case blocked of
       Some msg \<Rightarrow> andthen (update (\<lambda>s. holdStartRefusal msg (stopTracks (Some st) s))) finished
     | None \<Rightarrow>
         andthen (update (\<lambda>s. s\<lparr>take_check := Some (sid, TakeClaimed)\<rparr>))
         (await (holdRecorderLock sid) (\<lambda>held.
          if \<not> held then
            andthen (update (\<lambda>s. holdStartRefusal OtherTabMessage
              ((stopTracks (Some st) s)\<lparr>can_start := False\<rparr>))) finished
          else create_recorder sid st))) (settles sid st)"
  proof (cases blocked)
    case None
    have "triple start_step enabled (\<lambda>s. start_inv s \<and> ready sid st s)
      (if \<not> held then andthen (update (\<lambda>s. holdStartRefusal OtherTabMessage
              ((stopTracks (Some st) s)\<lparr>can_start := False\<rparr>))) finished
       else create_recorder sid st) (settles sid st)" for held
      using create_settles by (cases held) (auto intro!: stop)
    with None show ?thesis unfolding None option.case by (intro ready_calm ready_then [OF slaw_lock]) simp_all
  qed (auto intro!: stop)
qed


lemma claim_take_settles:
  "triple start_step enabled (\<lambda>s. start_inv s \<and> granted st s) (claim_take sid p n st) (settles sid st)"
  unfolding claim_take_def Let_def
proof (rule calm_then)
  have claim: "triple start_step enabled (\<lambda>s. start_inv s \<and> granted st s) (claimWithRetry sid takeId)
      (\<lambda>r s. claims sid r s \<and> granted st s)" for takeId
    unfolding claimWithRetry_def
    using facts_stable(1) triple_claim_loop by (rule starting.triple_frame)
  have go: "triple start_step enabled (\<lambda>s. claims sid r s \<and> granted st s)
      (if r \<noteq> ClaimClaimed \<and> r \<noteq> ClaimLegacy then
         andthen (update (stopTracks (Some st))) (refuseClaim sid r)
       else after_claim sid st) (settles sid st)" for r
  proof (cases "r \<noteq> ClaimClaimed \<and> r \<noteq> ClaimLegacy")
    case True
    have "triple start_step enabled (\<lambda>s. start_inv s \<and> granted st s)
        (andthen (update (stopTracks (Some st))) (refuseClaim sid r)) (settles sid st)"
      by (rule stop_then) (auto intro: slaws)
    then have "triple start_step enabled (\<lambda>s. claims sid r s \<and> granted st s)
        (andthen (update (stopTracks (Some st))) (refuseClaim sid r)) (settles sid st)"
      by (rule starting.triple_weaken) auto
    with True show ?thesis by simp
  next
    case False
    have "triple start_step enabled (\<lambda>s. claims sid r s \<and> granted st s) (after_claim sid st) (settles sid st)"
      using after_claim_settles by (rule starting.triple_weaken) (use False in \<open>auto simp: ready_def\<close>)
    with False show ?thesis by auto
  qed
  show "triple start_step enabled (\<lambda>s. start_inv s \<and> granted st s)
      (await (claimWithRetry sid (nullish p n)) (\<lambda>claim.
       if claim \<noteq> ClaimClaimed \<and> claim \<noteq> ClaimLegacy then
         andthen (update (stopTracks (Some st))) (refuseClaim sid claim)
       else after_claim sid st)) (settles sid st)"
    using claim go by (rule starting.triple_await)
qed (use facts_stable in auto)

lemma after_camera_settles:
  "triple start_step enabled (\<lambda>s. start_inv s \<and> granted st s) (after_camera sid p n st) (settles sid st)"
  unfolding after_camera_def
proof (rule reading_then)
  fix blocked
  have stop: "triple start_step enabled (\<lambda>s. start_inv s \<and> granted st s) (andthen (update f) finished) (settles sid st)"
    if "\<And>s. calm s (f s) \<and> TracksStopped st \<in> set (trace (f s))" for f
    using that slaw_basic(3) by (rule stop_then)
  have read: "triple start_step enabled (\<lambda>s. start_inv s \<and> granted st s)
      (attempt (read_row sid) (\<lambda>again. case again of
           Some m \<Rightarrow> andthen (update (\<lambda>s.
             (stopTracks (Some st) s)\<lparr>can_start := False, meta := Some m, status := Idle\<rparr>)) finished
         | None \<Rightarrow> claim_take sid p n st)) (settles sid st)"
  proof (rule starting.triple_attempt [where Q'="\<lambda>_ s. start_inv s \<and> granted st s"])
    have "triple start_step enabled (\<lambda>s. start_inv s \<and> granted st s) (read_row sid)
        (\<lambda>_ s. start_inv s \<and> granted st s)"
      using facts_stable(1) slaw_basic(4) [unfolded lawful_def] by (rule starting.triple_frame)
    then show "triple start_step enabled (\<lambda>s. start_inv s \<and> granted st s) (read_row sid)
        (\<lambda>r s. case r of Inl e \<Rightarrow> settles sid st (Inl e) s | Inr a \<Rightarrow> start_inv s \<and> granted st s)"
      by (rule starting.triple_weaken) (auto split: sum.splits)
    fix again
    show "triple start_step enabled (\<lambda>s. start_inv s \<and> granted st s) (case again of
           Some m \<Rightarrow> andthen (update (\<lambda>s.
             (stopTracks (Some st) s)\<lparr>can_start := False, meta := Some m, status := Idle\<rparr>)) finished
         | None \<Rightarrow> claim_take sid p n st) (settles sid st)"
      using claim_take_settles by (cases again) (auto intro!: stop)
  qed (auto dest: starting.I_stable)
  show "triple start_step enabled (\<lambda>s. start_inv s \<and> granted st s) (case blocked of
       Some msg \<Rightarrow> andthen (update (\<lambda>s. holdStartRefusal msg (stopTracks (Some st) s))) finished
     | None \<Rightarrow> attempt (read_row sid) (\<lambda>again. case again of
           Some m \<Rightarrow> andthen (update (\<lambda>s.
             (stopTracks (Some st) s)\<lparr>can_start := False, meta := Some m, status := Idle\<rparr>)) finished
         | None \<Rightarrow> claim_take sid p n st)) (settles sid st)"
    using read by (cases blocked) (auto intro!: stop)
qed

lemma slaw_request_camera [slaws]: "slaw (request_camera sid p n)"
proof -
  have media: "triple start_step enabled start_inv getUserMedia
      (\<lambda>r s. start_inv s \<and> (\<forall>st. r = Inr st \<longrightarrow> granted st s))"
    unfolding getUserMedia_def
  proof (rule starting.triple_await [where Q="\<lambda>_. start_inv"])
    fix r
    have ok: "triple start_step enabled start_inv (andthen (update (\<lambda>s.
        s\<lparr>live_streams := set_add st (live_streams s), trace := CameraGranted st # trace s\<rparr>)) (ret (Inr st)))
        (\<lambda>r s. start_inv s \<and> (\<forall>st. r = Inr st \<longrightarrow> granted st s))" for st
    proof (rule starting.triple_updating [where P'="\<lambda>s. start_inv s \<and> granted st s"])
      fix s assume "start_inv s"
      moreover have "start_step s (s\<lparr>live_streams := set_add st (live_streams s), trace := CameraGranted st # trace s\<rparr>)"
        by (rule calm_step) auto
      ultimately show "start_step s (s\<lparr>live_streams := set_add st (live_streams s), trace := CameraGranted st # trace s\<rparr>) \<and>
        start_inv (s\<lparr>live_streams := set_add st (live_streams s), trace := CameraGranted st # trace s\<rparr>) \<and>
        granted st (s\<lparr>live_streams := set_add st (live_streams s), trace := CameraGranted st # trace s\<rparr>)"
        using starting.I_stable by (auto simp: granted_def)
    qed (rule starting.triple_ret, auto dest: starting.I_stable facts_stable)
    have no: "triple start_step enabled start_inv (ret (Inl c))
        (\<lambda>r s. start_inv s \<and> (\<forall>st. r = Inr st \<longrightarrow> granted st s))" for c
      by (rule starting.triple_ret) (auto dest: starting.I_stable)
    show "triple start_step enabled start_inv (case r of
       StreamIs st \<Rightarrow>
         andthen (update (\<lambda>s. s\<lparr>live_streams := set_add st (live_streams s), trace := CameraGranted st # trace s\<rparr>))
         (ret (Inr st))
     | Rejected c \<Rightarrow> ret (Inl c) | _ \<Rightarrow> ret (Inl unexpected))
      (\<lambda>r s. start_inv s \<and> (\<forall>st. r = Inr st \<longrightarrow> granted st s))"
      using ok no by (cases r) simp_all
  qed (rule starting.lawful_ask [unfolded lawful_def])
  have next_step: "triple start_step enabled (\<lambda>s. start_inv s \<and> (\<forall>st. camera = Inr st \<longrightarrow> granted st s))
     (case camera of
          Inl c \<Rightarrow>
            andthen (update (\<lambda>s.
              if is_revoked s sid then s\<lparr>status := Idle\<rparr>
              else (rememberHeldFailure (fst (describeMediaError c)) s)
                \<lparr>retryable := snd (describeMediaError c), status := ErrorStatus\<rparr>)) finished
        | Inr st \<Rightarrow> after_camera sid p n st) (\<lambda>_. start_inv)" for camera
  proof (cases camera)
    case (Inl c)
    have "slaw (andthen (update (\<lambda>s.
              if is_revoked s sid then s\<lparr>status := Idle\<rparr>
              else (rememberHeldFailure (fst (describeMediaError c)) s)
                \<lparr>retryable := snd (describeMediaError c), status := ErrorStatus\<rparr>)) finished)"
      by (intro slaw_intros slaws) simp
    then show ?thesis unfolding Inl sum.case lawful_def by (rule starting.triple_weaken) auto
  next
    case (Inr st)
    show ?thesis unfolding Inr sum.case using after_camera_settles by (rule starting.triple_weaken) auto
  qed
  have "slaw (await getUserMedia (\<lambda>camera. case camera of
          Inl c \<Rightarrow>
            andthen (update (\<lambda>s.
              if is_revoked s sid then s\<lparr>status := Idle\<rparr>
              else (rememberHeldFailure (fst (describeMediaError c)) s)
                \<lparr>retryable := snd (describeMediaError c), status := ErrorStatus\<rparr>)) finished
        | Inr st \<Rightarrow> after_camera sid p n st))"
    unfolding lawful_def using media next_step by (rule starting.triple_await)
  then show ?thesis
    unfolding request_camera_def
    by (intro starting.lawful_await [OF starting.lawful_reading] starting.lawful_if
        starting.lawful_andthen slaw_update slaw_basic(3)) simp_all
qed

lemma slaw_startRecording: "slaw (startRecording sid newId)"
proof -
  have "slaw (startRecordingOnce sid newId)"
    unfolding startRecordingOnce_def Let_def by (intro slaw_intros slaws) simp_all
  then show ?thesis unfolding startRecording_def by (intro slaw_intros) (simp_all add: slaw_basic)
qed


section \<open>Properties\<close>

text \<open>
  The page around the starts: concurrent start attempts, and any other step that does not
  forget what happened and does not itself start a recorder.
\<close>

inductive start_events ::
  "tab \<Rightarrow> (tab, request, answer, unit) task \<Rightarrow> tab \<Rightarrow> bool" where
  start: "ignoring (startRecording sid newId) s = (s', t) \<Longrightarrow> start_events s t s'"
| elsewhere: "calm s s' \<Longrightarrow> start_events s (Done ()) s'"

text \<open>
  C3: a recorder only starts for a take that the server knows. However starts, retries and
  everything else on the page interleave, whenever a recorder was started for a session, the
  camera stream it records was granted before, and a claim of the session's take was answered
  (or the server is one that has no claims).
\<close>

theorem recorder_starts_only_after_claim:
  assumes "interleave enabled start_events (s0, []) (s, ts)" and "trace s0 = []"
    and "RecorderStarted sid st \<in> set (trace s)"
  shows "CameraGranted st \<in> set (trace s) \<and> (\<exists>takeId. ClaimAnswered sid takeId \<in> set (trace s))"
proof -
  have "start_step s s' \<and> safe start_step enabled (\<lambda>_ _. True) t s'"
    if "start_inv s" "start_events s t s'" for s t s'
    using that(2)
  proof cases
    case (start sid newId)
    have "slaw (ignoring (startRecording sid newId))"
      unfolding ignoring_def by (intro slaw_intros slaw_startRecording)
    with that(1) start have "start_step s s'" "safe start_step enabled (\<lambda>_. start_inv) t s'"
      by (auto simp: lawful_def triple_def dest!: spec [of _ s])
    with starting.safe_weaken [OF this(2), of "\<lambda>_ _. True"] show ?thesis by simp
  next
    case elsewhere
    with calm_step show ?thesis by simp
  qed
  from starting.interleave_safe [OF assms(1) this] assms(2) have "start_step s0 s" "start_inv s0"
    by (auto simp: start_inv_def)
  then have "start_inv s" by (simp add: start_step_def)
  with assms(3) show ?thesis by (auto simp: start_inv_def)
qed

text \<open>
  C24: a start that returns has released the camera or is recording with it. Once the camera
  is granted, whatever the rest of the page does while the start waits for the row, the claim,
  the lock and the database, when the start returns the stream's tracks were stopped or a
  recorder was started on it.
\<close>

theorem start_releases_the_camera:
  "triple start_step enabled (\<lambda>s. start_inv s \<and> CameraGranted st \<in> set (trace s))
     (after_camera sid pendingId newId st)
     (\<lambda>r s. case r of
        Inl _ \<Rightarrow> True
      | Inr _ \<Rightarrow> TracksStopped st \<in> set (trace s) \<or> RecorderStarted sid st \<in> set (trace s))"
  using after_camera_settles [unfolded granted_def camera_settled_def]
  by (rule starting.triple_weaken) (auto split: sum.splits)


definition example_tab :: tab where
  "example_tab = (initial_tab (openRecordingDb None) True True False)\<lparr>admitted_sessions := [''S1'']\<rparr>"

definition free_status :: server_upload_status where
  "free_status = \<lparr>s_finalize_state = FsNone, s_recording_state = ''none'',
     s_received_sequences = [], s_take_claimed = Some False\<rparr>"

definition start_answers :: "answer list" where
  "start_answers = [Continue, TxIs Commit, Continue, Continue, TxIs Commit, Continue, StatusIs free_status,
     StreamIs 7, TxIs Commit, Continue, Accepted, TxIs Commit, Continue]"

lemma example_start:
  "accepts enabled start_answers (ignoring (startRecording ''S1'' ''T1'') example_tab)"
  "RecorderStarted ''S1'' 7 \<in>
     set (trace (fst (drive start_answers (ignoring (startRecording ''S1'' ''T1'') example_tab))))"
  "trace example_tab = []"
  by code_simp+

lemma example_start_run:
  "interleave enabled start_events (example_tab, [])
     (fst (drive start_answers (ignoring (startRecording ''S1'' ''T1'') example_tab)),
      [snd (drive start_answers (ignoring (startRecording ''S1'' ''T1'') example_tab))])"
proof (rule interleave_alone)
  show "start_events example_tab (snd (ignoring (startRecording ''S1'' ''T1'') example_tab))
      (fst (ignoring (startRecording ''S1'' ''T1'') example_tab))"
    by (rule start_events.start) (rule prod.collapse [symmetric])
qed (rule example_start(1))

theorem recorder_starts_only_after_claim_witness:
  "CameraGranted 7 \<in>
     set (trace (fst (drive start_answers (ignoring (startRecording ''S1'' ''T1'') example_tab)))) \<and>
   (\<exists>takeId. ClaimAnswered ''S1'' takeId \<in>
     set (trace (fst (drive start_answers (ignoring (startRecording ''S1'' ''T1'') example_tab)))))"
  by (rule recorder_starts_only_after_claim [OF example_start_run example_start(3,2)])

end
