(* ===== verification/SocketLifecycle.thy ===== *)
theory SocketLifecycle
  imports Prelude
begin

text \<open>
  \<open>packages/shared/src/socketLifecycle.ts\<close>: the bookkeeping of one live socket per role. The
  class has no timers and no sockets; each call names a socket and returns the effects that the
  hooks of the student and the wizard apply. A field of \<open>SocketEffects\<close> that the code leaves out
  is \<open>None\<close> (or \<open>False\<close>). The theory ends with the abstract client that the class implements
  and with what holds of every sequence of calls.
\<close>

section \<open>Closing codes\<close>

definition SOCKET_BACKOFF_MS :: "ms list" where
  "SOCKET_BACKOFF_MS = [1000, 2000, 4000, 8000, 15000]"

definition ADMISSION_TIMEOUT_MS :: ms where
  "ADMISSION_TIMEOUT_MS = 8000"

datatype close_kind = CkOccupied | CkUnavailable | CkReplaced | CkRevoked | CkEnded | CkRefused | CkLost

definition REFUSAL_CODES :: "int set" where
  "REFUSAL_CODES = {4400, 4401, 4403, 4404}"

definition classifyClose :: "int \<Rightarrow> string \<Rightarrow> close_kind" where
  "classifyClose code reason =
     (if code = 4429 then CkOccupied
      else if code = 1013 then CkUnavailable
      else if code = 4409 then CkReplaced
      else if code = 4401 \<and> reason = ''token_revoked'' then CkRevoked
      else if code = 4401 \<and> reason = ''session_ended'' then CkEnded
      else if code \<in> REFUSAL_CODES then CkRefused
      else CkLost)"

definition isRetryableClose :: "close_kind \<Rightarrow> bool" where
  "isRetryableClose kind \<longleftrightarrow> kind = CkOccupied \<or> kind = CkUnavailable \<or> kind = CkLost"

section \<open>The class\<close>

datatype lifecycle_status = LsConnecting | LsReconnecting | LsOpen | LsClosed

record socket_effects =
  ef_status :: "lifecycle_status option"
  ef_closed_reason :: "string option option"
  ef_notice :: "close_kind option option"
  ef_send_hello :: bool
  ef_admitted :: bool
  ef_detach :: bool
  ef_reconnect_in_ms :: "ms option"
  ef_stop :: bool

definition no_effects :: socket_effects where
  "no_effects = \<lparr>ef_status = None, ef_closed_reason = None, ef_notice = None, ef_send_hello = False,
     ef_admitted = False, ef_detach = False, ef_reconnect_in_ms = None, ef_stop = False\<rparr>"

record lifecycle =
  lc_current :: "nat option"
  lc_next_id :: nat
  lc_attempt :: nat
  lc_admitted_id :: "nat option"
  lc_ever_admitted :: bool
  lc_stopped :: bool

definition newLifecycle :: lifecycle where
  "newLifecycle = \<lparr>lc_current = None, lc_next_id = 1, lc_attempt = 0, lc_admitted_id = None,
     lc_ever_admitted = False, lc_stopped = False\<rparr>"

definition begin_socket :: "lifecycle \<Rightarrow> (nat \<times> lifecycle_status) \<times> lifecycle" where
  "begin_socket l =
     (let i = lc_next_id l
      in ((i, if lc_ever_admitted l then LsReconnecting else LsConnecting),
          l\<lparr>lc_next_id := i + 1, lc_current := Some i, lc_admitted_id := None\<rparr>))"

definition isCurrent :: "lifecycle \<Rightarrow> nat \<Rightarrow> bool" where
  "isCurrent l i \<longleftrightarrow> \<not> lc_stopped l \<and> lc_current l = Some i"

definition isAdmitted :: "lifecycle \<Rightarrow> nat \<Rightarrow> bool" where
  "isAdmitted l i \<longleftrightarrow> isCurrent l i \<and> lc_admitted_id l = Some i"

definition opened :: "nat \<Rightarrow> lifecycle \<Rightarrow> socket_effects \<times> lifecycle" where
  "opened i l = (if \<not> isCurrent l i then (no_effects, l) else (no_effects\<lparr>ef_send_hello := True\<rparr>, l))"

definition snapshot :: "nat \<Rightarrow> lifecycle \<Rightarrow> socket_effects \<times> lifecycle" where
  "snapshot i l =
     (if \<not> isCurrent l i \<or> lc_admitted_id l = Some i then (no_effects, l)
      else (no_effects\<lparr>ef_status := Some LsOpen, ef_closed_reason := Some None, ef_notice := Some None,
              ef_admitted := True\<rparr>,
            l\<lparr>lc_admitted_id := Some i, lc_ever_admitted := True, lc_attempt := 0\<rparr>))"

definition backoff :: "nat \<Rightarrow> ms" where
  "backoff attempt = SOCKET_BACKOFF_MS ! min attempt (length SOCKET_BACKOFF_MS - 1)"

definition retry_socket :: "close_kind \<Rightarrow> lifecycle \<Rightarrow> socket_effects \<times> lifecycle" where
  "retry_socket kind l =
     (no_effects\<lparr>ef_status := Some LsReconnecting, ef_notice := Some (Some kind),
        ef_reconnect_in_ms := Some (backoff (lc_attempt l))\<rparr>,
      l\<lparr>lc_attempt := lc_attempt l + 1\<rparr>)"

definition closed :: "nat \<Rightarrow> int \<Rightarrow> string \<Rightarrow> lifecycle \<Rightarrow> socket_effects \<times> lifecycle" where
  "closed i code reason l =
     (if \<not> isCurrent l i then (no_effects, l)
      else
        let l1 = l\<lparr>lc_current := None, lc_admitted_id := None\<rparr>;
            kind = classifyClose code reason
        in if \<not> isRetryableClose kind then
             (no_effects\<lparr>ef_status := Some LsClosed,
                ef_closed_reason := Some (Some (if reason = [] then string_of_int code else reason)),
                ef_notice := Some (Some kind), ef_stop := True\<rparr>,
              l1\<lparr>lc_stopped := True\<rparr>)
           else retry_socket kind l1)"

definition timedOut :: "nat \<Rightarrow> lifecycle \<Rightarrow> socket_effects \<times> lifecycle" where
  "timedOut i l =
     (if \<not> isCurrent l i then (no_effects, l)
      else
        let (e, l1) = retry_socket CkLost (l\<lparr>lc_current := None, lc_admitted_id := None\<rparr>)
        in (e\<lparr>ef_detach := True\<rparr>, l1))"

definition dispose :: "lifecycle \<Rightarrow> lifecycle" where
  "dispose l = l\<lparr>lc_stopped := True, lc_current := None, lc_admitted_id := None\<rparr>"

lemmas lifecycle_defs = begin_socket_def opened_def snapshot_def retry_socket_def closed_def timedOut_def
  dispose_def isCurrent_def isAdmitted_def no_effects_def Let_def

interpretation reconnect: bounded_delay backoff 15000
proof unfold_locales
  have b: "backoff n = (case min n 4 of 0 \<Rightarrow> 1000 | Suc 0 \<Rightarrow> 2000 | Suc (Suc 0) \<Rightarrow> 4000
      | Suc (Suc (Suc 0)) \<Rightarrow> 8000 | _ \<Rightarrow> 15000)" for n
    by (auto simp: backoff_def SOCKET_BACKOFF_MS_def nth_Cons split: nat.splits)
  have mono: "m \<le> n \<Longrightarrow> backoff m \<le> backoff n" for m n
    unfolding b by (auto simp: min_def split: nat.splits)
  then show "m \<le> n \<Longrightarrow> backoff m \<le> backoff n" for m n .
  show "0 < backoff n" "backoff n \<le> 15000" for n
    unfolding b by (auto split: nat.splits)
qed

section \<open>Sequences of calls\<close>

datatype lifecycle_call =
    Begin | Opened nat | Snapshot nat | Closed nat int string | TimedOut nat | Dispose

fun call :: "lifecycle_call \<Rightarrow> lifecycle \<Rightarrow> socket_effects \<times> lifecycle" where
  "call Begin l = (no_effects, snd (begin_socket l))"
| "call (Opened i) l = opened i l"
| "call (Snapshot i) l = snapshot i l"
| "call (Closed i code reason) l = closed i code reason l"
| "call (TimedOut i) l = timedOut i l"
| "call Dispose l = (no_effects, dispose l)"

fun after_calls :: "lifecycle_call list \<Rightarrow> lifecycle \<Rightarrow> lifecycle" where
  "after_calls [] l = l"
| "after_calls (c # cs) l = after_calls cs (snd (call c l))"

fun outputs :: "lifecycle_call list \<Rightarrow> lifecycle \<Rightarrow> socket_effects list" where
  "outputs [] l = []"
| "outputs (c # cs) l = fst (call c l) # outputs cs (snd (call c l))"

lemma after_calls_append [simp]: "after_calls (cs @ ds) l = after_calls ds (after_calls cs l)"
  by (induction cs arbitrary: l) simp_all

lemma outputs_append [simp]: "outputs (cs @ ds) l = outputs cs l @ outputs ds (after_calls cs l)"
  by (induction cs arbitrary: l) simp_all

lemma length_outputs [simp]: "length (outputs cs l) = length cs"
  by (induction cs arbitrary: l) simp_all

lemma nth_outputs: "k < length cs \<Longrightarrow> outputs cs l ! k = fst (call (cs ! k) (after_calls (take k cs) l))"
proof (induction cs arbitrary: l k)
  case (Cons c cs)
  then show ?case by (cases k) simp_all
qed simp

text \<open>The socket that a call names.\<close>

fun names :: "lifecycle_call \<Rightarrow> nat option" where
  "names (Opened i) = Some i"
| "names (Snapshot i) = Some i"
| "names (Closed i code reason) = Some i"
| "names (TimedOut i) = Some i"
| "names _ = None"

lemma stale_call_inert: "names c = Some i \<Longrightarrow> \<not> isCurrent l i \<Longrightarrow> call c l = (no_effects, l)"
  by (cases c) (simp_all add: opened_def snapshot_def closed_def timedOut_def)

definition lifecycle_inv :: "lifecycle \<Rightarrow> bool" where
  "lifecycle_inv l \<longleftrightarrow>
     (case lc_current l of None \<Rightarrow> lc_admitted_id l = None
      | Some i \<Rightarrow> i < lc_next_id l \<and> (lc_admitted_id l = None \<or> lc_admitted_id l = Some i \<and> lc_ever_admitted l \<and> lc_attempt l = 0))"

lemma lifecycle_inv_new [simp]: "lifecycle_inv newLifecycle"
  by (simp add: lifecycle_inv_def newLifecycle_def)

lemma lifecycle_inv_call: "lifecycle_inv l \<Longrightarrow> lifecycle_inv (snd (call c l))"
  by (cases c) (auto simp: lifecycle_inv_def lifecycle_defs split: option.splits)

lemma lifecycle_inv_calls: "lifecycle_inv l \<Longrightarrow> lifecycle_inv (after_calls cs l)"
  by (induction cs arbitrary: l) (simp_all add: lifecycle_inv_call)

lemma stopped_stays: "lc_stopped l \<Longrightarrow> lc_stopped (snd (call c l)) \<and> fst (call c l) = no_effects"
  by (cases c) (auto simp: lifecycle_defs)

lemma stopped_silent: "lc_stopped l \<Longrightarrow> set (outputs cs l) \<subseteq> {no_effects} \<and> lc_stopped (after_calls cs l)"
  by (induction cs arbitrary: l) (use stopped_stays in auto)

section \<open>The client that the class implements\<close>

text \<open>
  The contract of the file's comments, without the class: a client waits to connect, opens a
  socket, is live on it once a snapshot arrived, or is over for good. The codes that end it are
  those the comments name.
\<close>

datatype phase = Waiting | Opening nat | Live nat | Over

record socket_client =
  c_phase :: phase
  c_next :: nat
  c_failures :: nat

definition final_close :: "int \<Rightarrow> bool" where
  "final_close code \<longleftrightarrow> code \<in> {4400, 4401, 4403, 4404, 4409}"

definition fail_client :: "nat \<Rightarrow> bool \<Rightarrow> socket_client \<Rightarrow> socket_client" where
  "fail_client i final c =
     (if c_phase c \<noteq> Opening i \<and> c_phase c \<noteq> Live i then c
      else if final then c\<lparr>c_phase := Over\<rparr>
      else c\<lparr>c_phase := Waiting, c_failures := c_failures c + 1\<rparr>)"

fun client_step :: "lifecycle_call \<Rightarrow> socket_client \<Rightarrow> socket_client" where
  "client_step Begin c =
     c\<lparr>c_next := c_next c + 1, c_phase := (if c_phase c = Over then Over else Opening (c_next c))\<rparr>"
| "client_step (Opened i) c = c"
| "client_step (Snapshot i) c =
     (if c_phase c = Opening i then c\<lparr>c_phase := Live i, c_failures := 0\<rparr> else c)"
| "client_step (Closed i code reason) c = fail_client i (final_close code) c"
| "client_step (TimedOut i) c = fail_client i False c"
| "client_step Dispose c = c\<lparr>c_phase := Over\<rparr>"

definition client_of :: "lifecycle \<Rightarrow> socket_client" where
  "client_of l =
     \<lparr>c_phase =
        (if lc_stopped l then Over
         else case lc_current l of
           None \<Rightarrow> Waiting
         | Some i \<Rightarrow> if lc_admitted_id l = Some i then Live i else Opening i),
      c_next = lc_next_id l, c_failures = lc_attempt l\<rparr>"

lemma retryable_iff: "isRetryableClose (classifyClose code reason) \<longleftrightarrow> \<not> final_close code"
  by (auto simp: isRetryableClose_def classifyClose_def final_close_def REFUSAL_CODES_def)

lemma client_of_call:
  assumes "lifecycle_inv l"
  shows "client_of (snd (call c l)) = client_step c (client_of l)"
  using assms
  by (cases c)
    (auto simp: client_of_def lifecycle_defs fail_client_def lifecycle_inv_def retryable_iff
      split: option.splits if_splits)

lemma effects_of_call:
  assumes "lifecycle_inv l"
  shows "ef_admitted (fst (call c l)) \<longleftrightarrow>
      (\<exists>i. c_phase (client_of l) = Opening i \<and> c_phase (client_step c (client_of l)) = Live i)"
    and "ef_reconnect_in_ms (fst (call c l)) =
      (if c_phase (client_of l) \<noteq> Waiting \<and> c_phase (client_step c (client_of l)) = Waiting
       then Some (backoff (c_failures (client_of l))) else None)"
    and "ef_stop (fst (call c l)) \<longleftrightarrow>
      c \<noteq> Dispose \<and> c_phase (client_of l) \<noteq> Over \<and> c_phase (client_step c (client_of l)) = Over"
  using assms
  by (cases c; auto simp: client_of_def lifecycle_defs fail_client_def lifecycle_inv_def retryable_iff
      split: option.splits if_splits)+

text \<open>
  C10: the class implements the client of its comments. In every state that a sequence of calls
  can reach, each call takes the abstract client (waiting, opening, live, over) to the state that
  the contract gives; it reports an admission exactly when the client becomes live, asks for a
  reconnect exactly when the client falls back to waiting, after the delay of its failures so
  far, and stops exactly when a close code that the server means to be final ends it.
\<close>

theorem lifecycle_refines_the_client:
  "let l = after_calls cs newLifecycle; (e, l') = call c l; before = client_of l; now = client_of l' in
     now = client_step c before \<and>
     (ef_admitted e \<longleftrightarrow> (\<exists>i. c_phase before = Opening i \<and> c_phase now = Live i)) \<and>
     ef_reconnect_in_ms e =
       (if c_phase before \<noteq> Waiting \<and> c_phase now = Waiting then Some (backoff (c_failures before)) else None) \<and>
     (ef_stop e \<longleftrightarrow> c \<noteq> Dispose \<and> c_phase before \<noteq> Over \<and> c_phase now = Over)"
proof -
  have inv: "lifecycle_inv (after_calls cs newLifecycle)" by (simp add: lifecycle_inv_calls)
  show ?thesis
    using client_of_call [OF inv, of c] effects_of_call [OF inv, of c]
    by (cases "call c (after_calls cs newLifecycle)") (simp add: Let_def)
qed

section \<open>Admission\<close>

text \<open>Where the current socket comes from, and whether its snapshot was seen.\<close>

definition since_begin :: "nat \<Rightarrow> bool \<Rightarrow> lifecycle_call list \<Rightarrow> bool" where
  "since_begin i seen cs \<longleftrightarrow>
     (\<exists>as bs. cs = as @ Begin # bs \<and> i = Suc (length (filter (\<lambda>c. c = Begin) as)) \<and>
        Begin \<notin> set bs \<and> Dispose \<notin> set bs \<and> (Snapshot i \<in> set bs \<longleftrightarrow> seen) \<and>
        (\<forall>c \<in> set bs. names c = Some i \<longrightarrow> c \<in> {Opened i, Snapshot i}))"

lemma next_id_after: "lc_next_id (after_calls cs l) = lc_next_id l + length (filter (\<lambda>c. c = Begin) cs)"
proof (induction cs arbitrary: l)
  case (Cons c cs)
  have "lc_next_id (snd (call c l)) = lc_next_id l + (if c = Begin then 1 else 0)"
    by (cases c) (auto simp: lifecycle_defs)
  with Cons show ?case by simp
qed simp

lemma current_since_begin:
  "isCurrent (after_calls cs newLifecycle) i \<Longrightarrow>
   since_begin i (lc_admitted_id (after_calls cs newLifecycle) = Some i) cs"
proof (induction cs rule: rev_induct)
  case Nil
  then show ?case by (simp add: isCurrent_def newLifecycle_def)
next
  case (snoc c cs)
  let ?l = "after_calls cs newLifecycle"
  show ?case
  proof (cases "c = Begin")
    case True
    with snoc.prems have "i = lc_next_id ?l" by (simp add: isCurrent_def begin_socket_def Let_def)
    then have "i = Suc (length (filter (\<lambda>c. c = Begin) cs))"
      by (simp add: next_id_after newLifecycle_def)
    with True show ?thesis unfolding since_begin_def
      by (intro exI [of _ cs] exI [of _ "[]"]) (simp add: begin_socket_def Let_def)
  next
    case False
    with snoc.prems have cur: "isCurrent ?l i"
      and c: "c \<noteq> Dispose" "names c = Some i \<Longrightarrow> c \<in> {Opened i, Snapshot i}"
      and seen: "lc_admitted_id (snd (call c ?l)) = Some i \<longleftrightarrow> c = Snapshot i \<or> lc_admitted_id ?l = Some i"
      by (cases c; auto simp: lifecycle_defs split: if_splits)+
    from snoc.IH [OF cur] obtain as bs where "cs = as @ Begin # bs"
      "i = Suc (length (filter (\<lambda>c. c = Begin) as))" "Begin \<notin> set bs" "Dispose \<notin> set bs"
      "Snapshot i \<in> set bs \<longleftrightarrow> lc_admitted_id ?l = Some i"
      "\<forall>c \<in> set bs. names c = Some i \<longrightarrow> c \<in> {Opened i, Snapshot i}"
      unfolding since_begin_def by blast
    with False c seen show ?thesis
      unfolding since_begin_def by (intro exI [of _ as] exI [of _ "bs @ [c]"]) auto
  qed
qed

text \<open>
  Only the first snapshot on the current socket admits. If a call of any sequence reports an
  admission, it is a snapshot that names the socket of the latest \<open>begin\<close>; that socket has not
  closed, timed out or been disposed of since, and no snapshot was seen on it before. A call
  that names any other socket changes nothing and has no effects, and neither has any call after
  the disposal.
\<close>

theorem admitted_by_the_first_snapshot:
  assumes "ef_admitted (fst (call c (after_calls cs newLifecycle)))"
  shows "\<exists>i as bs. c = Snapshot i \<and> cs = as @ Begin # bs \<and>
    i = Suc (length (filter (\<lambda>c. c = Begin) as)) \<and>
    {Begin, Dispose, Snapshot i, TimedOut i} \<inter> set bs = {} \<and>
    (\<forall>code reason. Closed i code reason \<notin> set bs) \<and>
    (\<forall>c' j. names c' = Some j \<and> j \<noteq> i \<longrightarrow> call c' (after_calls cs newLifecycle) = (no_effects, after_calls cs newLifecycle)) \<and>
    (\<forall>ds. set (outputs ds (after_calls (cs @ [c, Dispose]) newLifecycle)) \<subseteq> {no_effects})"
proof -
  let ?l = "after_calls cs newLifecycle"
  from assms obtain i where c: "c = Snapshot i" and cur: "isCurrent ?l i" and new: "lc_admitted_id ?l \<noteq> Some i"
    by (cases c) (auto simp: lifecycle_defs split: if_splits)
  from current_since_begin [OF cur] new have "since_begin i False cs" by simp
  then obtain as bs where bs: "cs = as @ Begin # bs" "i = Suc (length (filter (\<lambda>c. c = Begin) as))"
    "Begin \<notin> set bs" "Dispose \<notin> set bs" "Snapshot i \<notin> set bs"
    "\<forall>c \<in> set bs. names c = Some i \<longrightarrow> c \<in> {Opened i, Snapshot i}"
    unfolding since_begin_def by blast
  then have "TimedOut i \<notin> set bs" "\<forall>code reason. Closed i code reason \<notin> set bs" by fastforce+
  moreover have "call c' ?l = (no_effects, ?l)" if "names c' = Some j" "j \<noteq> i" for c' j
    using stale_call_inert [OF that(1)] that(2) cur by (auto simp: isCurrent_def)
  moreover have "set (outputs ds (after_calls (cs @ [c, Dispose]) newLifecycle)) \<subseteq> {no_effects}" for ds
    using stopped_silent by (simp add: dispose_def)
  ultimately show ?thesis using c bs by blast
qed

theorem admitted_by_the_first_snapshot_witness:
  "\<exists>i as bs. Snapshot 2 = Snapshot i \<and> [Begin, Opened 1, TimedOut 1, Begin, Opened 2] = as @ Begin # bs \<and>
    i = Suc (length (filter (\<lambda>c. c = Begin) as)) \<and> {Begin, Dispose, Snapshot i, TimedOut i} \<inter> set bs = {}"
proof -
  have "ef_admitted (fst (call (Snapshot 2)
      (after_calls [Begin, Opened 1, TimedOut 1, Begin, Opened 2] newLifecycle)))"
    by code_simp
  from admitted_by_the_first_snapshot [OF this] show ?thesis by blast
qed

section \<open>Reconnects\<close>

definition delays :: "socket_effects list \<Rightarrow> ms list" where
  "delays es = concat (map (\<lambda>e. case ef_reconnect_in_ms e of None \<Rightarrow> [] | Some d \<Rightarrow> [d]) es)"

lemma attempt_call:
  "\<not> ef_admitted (fst (call c l)) \<Longrightarrow>
   lc_attempt l \<le> lc_attempt (snd (call c l)) \<and>
   delays [fst (call c l)] = map backoff [lc_attempt l ..< lc_attempt (snd (call c l))]"
  by (cases c) (auto simp: delays_def lifecycle_defs)

lemma delays_without_admission:
  "\<forall>e \<in> set (outputs cs l). \<not> ef_admitted e \<Longrightarrow>
   lc_attempt l \<le> lc_attempt (after_calls cs l) \<and>
   delays (outputs cs l) = map backoff [lc_attempt l ..< lc_attempt (after_calls cs l)]"
proof (induction cs arbitrary: l)
  case Nil
  then show ?case by (simp add: delays_def)
next
  case (Cons c cs)
  let ?l = "snd (call c l)" and ?r = "after_calls cs (snd (call c l))"
  from Cons.prems attempt_call [of c l]
  have c: "lc_attempt l \<le> lc_attempt ?l"
    "delays [fst (call c l)] = map backoff [lc_attempt l ..< lc_attempt ?l]" by simp_all
  from Cons.IH [of ?l] Cons.prems
  have cs: "lc_attempt ?l \<le> lc_attempt ?r"
    "delays (outputs cs ?l) = map backoff [lc_attempt ?l ..< lc_attempt ?r]" by simp_all
  have "delays (outputs (c # cs) l) = delays [fst (call c l)] @ delays (outputs cs ?l)"
    by (simp add: delays_def)
  also have "\<dots> = map backoff ([lc_attempt l ..< lc_attempt ?l] @ [lc_attempt ?l ..< lc_attempt ?r])"
    using c(2) cs(2) by simp
  also have "[lc_attempt l ..< lc_attempt ?l] @ [lc_attempt ?l ..< lc_attempt ?r] = [lc_attempt l ..< lc_attempt ?r]"
    using c(1) cs(1) by (metis le_Suc_ex upt_add_eq_append)
  finally show ?case using c(1) cs(1) by simp
qed

text \<open>
  The reconnect delays follow the schedule. In any sequence of calls without an admission
  that starts fresh or right after an admission, the delays the hook is asked to wait are the
  first ones of 1, 2, 4, 8, 15, 15, ... seconds, whatever the sockets were closed for and however
  many stale calls came in between; so they never shrink, and each is between 1 and 15 seconds.
\<close>

theorem reconnects_follow_the_schedule:
  assumes "\<forall>e \<in> set (outputs ds (after_calls cs newLifecycle)). \<not> ef_admitted e"
    and "cs = [] \<or> ef_admitted (last (outputs cs newLifecycle))"
  shows "(let waits = delays (outputs ds (after_calls cs newLifecycle)) in
    waits = map backoff [0..<length waits] \<and> sorted waits \<and> set waits \<subseteq> {1000..15000})"
proof -
  let ?l = "after_calls cs newLifecycle"
  have "lc_attempt ?l = 0"
  proof (cases cs rule: rev_cases)
    case (snoc cs' c)
    with assms(2) have "ef_admitted (fst (call c (after_calls cs' newLifecycle)))" by simp
    with snoc show ?thesis by (cases c) (auto simp: lifecycle_defs split: if_splits)
  qed (simp add: newLifecycle_def)
  with delays_without_admission [OF assms(1)]
  obtain n where n: "delays (outputs ds ?l) = map backoff [0..<n]" by auto
  have "sorted (map backoff [0..<n])"
    by (simp add: sorted_wrt_map sorted_wrt_iff_nth_less reconnect.delay_mono)
  moreover have "1000 \<le> backoff k \<and> backoff k \<le> 15000" for k
    using reconnect.delay_mono [of 0 k] reconnect.delay_cap [of k] by (simp add: backoff_def SOCKET_BACKOFF_MS_def)
  ultimately show ?thesis using n by (auto simp: Let_def)
qed

theorem reconnects_follow_the_schedule_witness:
  "(let waits = delays (outputs [Begin, Closed 2 4429 '''', Begin, Opened 3, TimedOut 3]
      (after_calls [Begin, Snapshot 1] newLifecycle)) in
    waits = map backoff [0..<length waits] \<and> sorted waits \<and> set waits \<subseteq> {1000..15000})"
proof (rule reconnects_follow_the_schedule)
  show "\<forall>e \<in> set (outputs [Begin, Closed 2 4429 '''', Begin, Opened 3, TimedOut 3]
      (after_calls [Begin, Snapshot 1] newLifecycle)). \<not> ef_admitted e"
    by code_simp
  show "[Begin, Snapshot 1] = [] \<or> ef_admitted (last (outputs [Begin, Snapshot 1] newLifecycle))"
    by code_simp
qed

end
