(* ===== verification/Messages.thy ===== *)
theory Messages
  imports Prelude
begin

text \<open>
  \<open>packages/shared/src/events.ts\<close> and \<open>messages.ts\<close>: what travels over the session socket. A frame
  that was parsed is a JSON value; the guards decide whether it is a control message or an event
  envelope, and the handlers read the fields of an accepted frame through a cast. The theory
  models the guards and those readings, and shows that the casts never lie.
\<close>

section \<open>JSON values\<close>

text \<open>
  What \<open>JSON.parse\<close> returns. A number is finite, or infinite when the text overflows
  (\<open>1e999\<close>). The fields of an object have distinct names, as in JavaScript.
\<close>

datatype json =
    JNull
  | JBool bool
  | JNum rat
  | JInfinite bool
  | JStr string
  | JArr "json list"
  | JObj "(string \<times> json) list"

text \<open>\<open>value[key]\<close>; undefined is \<open>None\<close>.\<close>

fun field :: "json \<Rightarrow> string \<Rightarrow> json option" where
  "field (JObj fs) k = map_of fs k"
| "field j k = None"

fun isRecord :: "json \<Rightarrow> bool" where
  "isRecord (JObj fs) = True"
| "isRecord j = False"

definition has_key :: "json \<Rightarrow> string \<Rightarrow> bool" where
  "has_key j k \<longleftrightarrow> field j k \<noteq> None"

fun is_string :: "json option \<Rightarrow> bool" where
  "is_string (Some (JStr s)) = True"
| "is_string v = False"

fun is_finite :: "json option \<Rightarrow> bool" where
  "is_finite (Some (JNum n)) = True"
| "is_finite v = False"

definition hasString :: "json \<Rightarrow> string \<Rightarrow> bool" where
  "hasString j k = is_string (field j k)"

definition hasNumber :: "json \<Rightarrow> string \<Rightarrow> bool" where
  "hasNumber j k = is_finite (field j k)"

definition hasStringArray :: "json \<Rightarrow> string \<Rightarrow> bool" where
  "hasStringArray j k =
     (case field j k of Some (JArr xs) \<Rightarrow> list_all (\<lambda>x. is_string (Some x)) xs | _ \<Rightarrow> False)"

definition isStringOrNull :: "json option \<Rightarrow> bool" where
  "isStringOrNull v \<longleftrightarrow> is_string v \<or> v = Some JNull"

definition isNumberOrNull :: "json option \<Rightarrow> bool" where
  "isNumberOrNull v \<longleftrightarrow> is_finite v \<or> v = Some JNull"

definition isKnownValue :: "string list \<Rightarrow> json option \<Rightarrow> bool" where
  "isKnownValue values v = (case v of Some (JStr s) \<Rightarrow> s \<in> set values | _ \<Rightarrow> False)"

definition hasOptionalStringOrNull :: "json \<Rightarrow> string \<Rightarrow> bool" where
  "hasOptionalStringOrNull j k \<longleftrightarrow> \<not> has_key j k \<or> isStringOrNull (field j k)"

definition hasOptionalNumberOrNull :: "json \<Rightarrow> string \<Rightarrow> bool" where
  "hasOptionalNumberOrNull j k \<longleftrightarrow> \<not> has_key j k \<or> isNumberOrNull (field j k)"

section \<open>The vocabulary of events\<close>

datatype event_type =
    SessionCreated | SessionStarted | SessionPaused | SessionResumed | SessionEnded
  | PingEvent | PongEvent | ClockSyncEvent
  | ClipCommand | ClipStarted | ClipEnded | ClipInterrupted | ReturnToIdle | ThinkingStarted
  | FallbackUsed | UncoveredQuestion | OperatorError | ObserverNote
  | RecordingStarted | RecordingStopped | ChunkUploadedEvent

fun event_name :: "event_type \<Rightarrow> string" where
  "event_name SessionCreated = ''session_created''"
| "event_name SessionStarted = ''session_started''"
| "event_name SessionPaused = ''session_paused''"
| "event_name SessionResumed = ''session_resumed''"
| "event_name SessionEnded = ''session_ended''"
| "event_name PingEvent = ''ping''"
| "event_name PongEvent = ''pong''"
| "event_name ClockSyncEvent = ''clock_sync''"
| "event_name ClipCommand = ''clip_command''"
| "event_name ClipStarted = ''clip_started''"
| "event_name ClipEnded = ''clip_ended''"
| "event_name ClipInterrupted = ''clip_interrupted''"
| "event_name ReturnToIdle = ''return_to_idle''"
| "event_name ThinkingStarted = ''thinking_started''"
| "event_name FallbackUsed = ''fallback_used''"
| "event_name UncoveredQuestion = ''uncovered_question''"
| "event_name OperatorError = ''operator_error''"
| "event_name ObserverNote = ''observer_note''"
| "event_name RecordingStarted = ''recording_started''"
| "event_name RecordingStopped = ''recording_stopped''"
| "event_name ChunkUploadedEvent = ''chunk_uploaded''"

definition EVENT_TYPES :: "event_type list" where
  "EVENT_TYPES =
     [SessionCreated, SessionStarted, SessionPaused, SessionResumed, SessionEnded,
      PingEvent, PongEvent, ClockSyncEvent,
      ClipCommand, ClipStarted, ClipEnded, ClipInterrupted, ReturnToIdle, ThinkingStarted,
      FallbackUsed, UncoveredQuestion, OperatorError, ObserverNote,
      RecordingStarted, RecordingStopped, ChunkUploadedEvent]"

definition SOURCE_VALUES :: "string list" where
  "SOURCE_VALUES = [''student'', ''wizard'', ''server'']"

definition ROLE_VALUES :: "string list" where
  "ROLE_VALUES = [''student'', ''wizard'', ''teacher'', ''observer'']"

datatype pause_reason = Manual | NetworkFailure | ClockSyncFailure | RecordingFailure | EthicalOrSafetyStop

definition PAUSE_REASONS :: "pause_reason list" where
  "PAUSE_REASONS = [Manual, NetworkFailure, ClockSyncFailure, RecordingFailure, EthicalOrSafetyStop]"

fun pause_reason_name :: "pause_reason \<Rightarrow> string" where
  "pause_reason_name Manual = ''manual''"
| "pause_reason_name NetworkFailure = ''network_failure''"
| "pause_reason_name ClockSyncFailure = ''clock_sync_failure''"
| "pause_reason_name RecordingFailure = ''recording_failure''"
| "pause_reason_name EthicalOrSafetyStop = ''ethical_or_safety_stop''"

definition SHORT_LIVED_COMMAND_EVENT_TYPES :: "event_type list" where
  "SHORT_LIVED_COMMAND_EVENT_TYPES = [ClipCommand, ReturnToIdle, SessionPaused]"

datatype fallback_category = Clarify | OneAtATime | UnknownOrUnsure | DeclineOrBoundary

fun fallback_category_name :: "fallback_category \<Rightarrow> string" where
  "fallback_category_name Clarify = ''CLARIFY''"
| "fallback_category_name OneAtATime = ''ONE_AT_A_TIME''"
| "fallback_category_name UnknownOrUnsure = ''UNKNOWN_OR_UNSURE''"
| "fallback_category_name DeclineOrBoundary = ''DECLINE_OR_BOUNDARY''"

definition FALLBACK_CATEGORIES :: "fallback_category list" where
  "FALLBACK_CATEGORIES = [Clarify, OneAtATime, UnknownOrUnsure, DeclineOrBoundary]"

definition EVENT_ACK_STATUSES :: "string list" where
  "EVENT_ACK_STATUSES = [''accepted'', ''duplicate'', ''rejected'']"

datatype session_state = StCreated | StStarting | StActive | StPaused | StEnded

fun session_state_name :: "session_state \<Rightarrow> string" where
  "session_state_name StCreated = ''created''"
| "session_state_name StStarting = ''starting''"
| "session_state_name StActive = ''active''"
| "session_state_name StPaused = ''paused''"
| "session_state_name StEnded = ''ended''"

definition SESSION_STATES :: "session_state list" where
  "SESSION_STATES = [StCreated, StStarting, StActive, StPaused, StEnded]"

datatype playback_state = PbIdle | PbPlaying

fun playback_state_name :: "playback_state \<Rightarrow> string" where
  "playback_state_name PbIdle = ''idle''"
| "playback_state_name PbPlaying = ''playing''"

definition PLAYBACK_STATES :: "playback_state list" where
  "PLAYBACK_STATES = [PbIdle, PbPlaying]"

section \<open>The guards\<close>

definition controlMessageType :: "json \<Rightarrow> json option" where
  "controlMessageType m =
     (case field m ''type'' of
        Some (JStr t) \<Rightarrow> if t \<noteq> [] then Some (JStr t) else field m ''command_type''
      | _ \<Rightarrow> field m ''command_type'')"

definition control_fields :: "json \<Rightarrow> string \<Rightarrow> bool" where
  "control_fields m t =
     (if t = ''ping'' then hasString m ''ping_id'' \<and> hasNumber m ''client_timestamp_ms''
      else if t = ''pong'' then
        isStringOrNull (field m ''ping_id'') \<and> hasNumber m ''server_timestamp_ms''
      else if t = ''event_ack'' then
        isStringOrNull (field m ''event_id'') \<and>
        isKnownValue EVENT_ACK_STATUSES (field m ''status'') \<and>
        hasOptionalStringOrNull m ''reason''
      else if t = ''reconnect_hello'' then
        hasString m ''session_id'' \<and>
        isKnownValue ROLE_VALUES (field m ''role'') \<and>
        hasNumber m ''last_snapshot_revision'' \<and>
        hasNumber m ''last_acked_sequence'' \<and>
        hasStringArray m ''pending_event_ids''
      else if t = ''session_snapshot'' then
        hasNumber m ''snapshot_revision'' \<and>
        isKnownValue (map session_state_name SESSION_STATES) (field m ''session_state'') \<and>
        isKnownValue (map playback_state_name PLAYBACK_STATES) (field m ''playback_state'') \<and>
        isStringOrNull (field m ''active_clip'') \<and>
        hasString m ''character_state'' \<and>
        hasNumber m ''cooperation_level'' \<and>
        hasStringArray m ''revealed_facts'' \<and>
        hasNumber m ''consecutive_fallbacks'' \<and>
        hasNumber m ''server_timestamp_ms'' \<and>
        hasOptionalNumberOrNull m ''start_at_server_ms''
      else if t = ''role_connection_replaced'' then
        isKnownValue ROLE_VALUES (field m ''role'') \<and> hasNumber m ''server_timestamp_ms''
      else if t = ''clock_sync_probe'' then
        hasString m ''probe_id'' \<and> hasNumber m ''t0'' \<and> hasNumber m ''client_monotonic_ms''
      else if t = ''clock_sync_response'' then
        isStringOrNull (field m ''probe_id'') \<and> isNumberOrNull (field m ''t0'') \<and>
        hasNumber m ''s1'' \<and> hasNumber m ''s2''
      else if t = ''clock_offset_report'' then
        hasNumber m ''offset_ms'' \<and> hasNumber m ''sample_count'' \<and> hasNumber m ''rtt_ms''
      else if t = ''session_start_scheduled'' then
        hasString m ''session_id'' \<and> hasNumber m ''start_at_server_ms'' \<and>
        hasNumber m ''server_timestamp_ms''
      else if t = ''request_fallback'' then
        hasNumber m ''sequence'' \<and> hasNumber m ''client_timestamp_ms'' \<and>
        (case field m ''payload'' of
           None \<Rightarrow> False
         | Some payload \<Rightarrow>
             isRecord payload \<and> hasString payload ''command_id'' \<and>
             hasNumber payload ''expires_at_ms'' \<and> hasNumber payload ''snapshot_revision'' \<and>
             isKnownValue (map fallback_category_name FALLBACK_CATEGORIES) (field payload ''fallback_category''))
      else if t = ''fallback_threshold_reached'' then
        hasString m ''session_id'' \<and> hasNumber m ''server_timestamp_ms'' \<and>
        (case field m ''payload'' of
           None \<Rightarrow> False
         | Some payload \<Rightarrow> isRecord payload \<and> hasNumber payload ''consecutive_fallbacks'')
      else False)"

definition isWebSocketControlMessage :: "json \<Rightarrow> bool" where
  "isWebSocketControlMessage m \<longleftrightarrow>
     isRecord m \<and> \<not> has_key m ''event_type'' \<and>
     (case controlMessageType m of Some (JStr t) \<Rightarrow> control_fields m t | _ \<Rightarrow> False)"

definition isEventEnvelope :: "json \<Rightarrow> bool" where
  "isEventEnvelope m \<longleftrightarrow>
     isRecord m \<and>
     isKnownValue (map event_name EVENT_TYPES) (field m ''event_type'') \<and>
     hasString m ''session_id'' \<and>
     hasNumber m ''sequence'' \<and>
     hasNumber m ''client_timestamp_ms'' \<and>
     hasOptionalNumberOrNull m ''server_timestamp_ms'' \<and>
     hasOptionalNumberOrNull m ''clock_offset_ms'' \<and>
     isKnownValue SOURCE_VALUES (field m ''source'') \<and>
     (case field m ''payload'' of None \<Rightarrow> False | Some p \<Rightarrow> isRecord p)"

lemmas json_guards = hasString_def hasNumber_def hasStringArray_def isStringOrNull_def isNumberOrNull_def
  isKnownValue_def hasOptionalStringOrNull_def hasOptionalNumberOrNull_def has_key_def

section \<open>Reading an accepted frame\<close>

text \<open>The readings of the handlers: a field of the type that the cast promises.\<close>

fun text_of :: "json option \<Rightarrow> string option" where
  "text_of (Some (JStr s)) = Some s"
| "text_of v = None"

fun number_of :: "json option \<Rightarrow> rat option" where
  "number_of (Some (JNum n)) = Some n"
| "number_of v = None"

fun texts_of :: "json option \<Rightarrow> string list" where
  "texts_of (Some (JArr xs)) = map (\<lambda>x. nullish (text_of (Some x)) []) xs"
| "texts_of v = []"

definition text_at :: "json \<Rightarrow> string \<Rightarrow> string" where
  "text_at m k = nullish (text_of (field m k)) []"

definition number_at :: "json \<Rightarrow> string \<Rightarrow> rat" where
  "number_at m k = nullish (number_of (field m k)) 0"

definition event_type_of :: "string \<Rightarrow> event_type option" where
  "event_type_of t = find (\<lambda>e. event_name e = t) EVENT_TYPES"

definition session_state_of :: "string \<Rightarrow> session_state" where
  "session_state_of t = nullish (find (\<lambda>e. session_state_name e = t) SESSION_STATES) StCreated"

definition playback_state_of :: "string \<Rightarrow> playback_state" where
  "playback_state_of t = nullish (find (\<lambda>e. playback_state_name e = t) PLAYBACK_STATES) PbIdle"

datatype ack_status = Accepted | Duplicate | Rejected

fun ack_status_name :: "ack_status \<Rightarrow> string" where
  "ack_status_name Accepted = ''accepted''"
| "ack_status_name Duplicate = ''duplicate''"
| "ack_status_name Rejected = ''rejected''"

definition ack_status_of :: "string \<Rightarrow> ack_status" where
  "ack_status_of t =
     (if t = ''accepted'' then Accepted else if t = ''duplicate'' then Duplicate else Rejected)"

record event_ack_message =
  ak_event_id :: "string option"
  ak_status :: ack_status
  ak_reason :: "string option"

definition as_event_ack :: "json \<Rightarrow> event_ack_message" where
  "as_event_ack m =
     \<lparr>ak_event_id = text_of (field m ''event_id''), ak_status = ack_status_of (text_at m ''status''),
      ak_reason = text_of (field m ''reason'')\<rparr>"

record session_snapshot_message =
  sn_snapshot_revision :: rat
  sn_session_state :: session_state
  sn_playback_state :: playback_state
  sn_active_clip :: "string option"
  sn_character_state :: string
  sn_cooperation_level :: rat
  sn_revealed_facts :: "string list"
  sn_consecutive_fallbacks :: rat
  sn_server_timestamp_ms :: rat
  sn_start_at_server_ms :: "rat option"

definition as_session_snapshot :: "json \<Rightarrow> session_snapshot_message" where
  "as_session_snapshot m =
     \<lparr>sn_snapshot_revision = number_at m ''snapshot_revision'',
      sn_session_state = session_state_of (text_at m ''session_state''),
      sn_playback_state = playback_state_of (text_at m ''playback_state''),
      sn_active_clip = text_of (field m ''active_clip''),
      sn_character_state = text_at m ''character_state'',
      sn_cooperation_level = number_at m ''cooperation_level'',
      sn_revealed_facts = texts_of (field m ''revealed_facts''),
      sn_consecutive_fallbacks = number_at m ''consecutive_fallbacks'',
      sn_server_timestamp_ms = number_at m ''server_timestamp_ms'',
      sn_start_at_server_ms = number_of (field m ''start_at_server_ms'')\<rparr>"

record clock_sync_response_message =
  cr_probe_id :: "string option"
  cr_t0 :: "rat option"
  cr_s1 :: rat
  cr_s2 :: rat

definition as_clock_sync_response :: "json \<Rightarrow> clock_sync_response_message" where
  "as_clock_sync_response m =
     \<lparr>cr_probe_id = text_of (field m ''probe_id''), cr_t0 = number_of (field m ''t0''),
      cr_s1 = number_at m ''s1'', cr_s2 = number_at m ''s2''\<rparr>"

record event_envelope =
  ev_session_id :: string
  ev_sequence :: rat
  ev_client_timestamp_ms :: rat
  ev_source :: string
  ev_event_type :: "event_type option"
  ev_payload :: json

definition as_event_envelope :: "json \<Rightarrow> event_envelope" where
  "as_event_envelope m =
     \<lparr>ev_session_id = text_at m ''session_id'', ev_sequence = number_at m ''sequence'',
      ev_client_timestamp_ms = number_at m ''client_timestamp_ms'', ev_source = text_at m ''source'',
      ev_event_type = event_type_of (text_at m ''event_type''),
      ev_payload = nullish (field m ''payload'') JNull\<rparr>"

text \<open>Writing a reading back: what the frame has to hold for the reading to be true.\<close>

definition null_or :: "('a \<Rightarrow> json) \<Rightarrow> 'a option \<Rightarrow> json" where
  "null_or f v = (case v of None \<Rightarrow> JNull | Some x \<Rightarrow> f x)"

lemma is_string_iff: "is_string v \<longleftrightarrow> (\<exists>s. v = Some (JStr s))"
  by (cases v rule: is_string.cases) auto

lemma is_finite_iff: "is_finite v \<longleftrightarrow> (\<exists>n. v = Some (JNum n))"
  by (cases v rule: is_finite.cases) auto

lemma hasString_iff: "hasString m k \<longleftrightarrow> field m k = Some (JStr (text_at m k))"
  by (auto simp: hasString_def is_string_iff text_at_def)

lemma hasNumber_iff: "hasNumber m k \<longleftrightarrow> field m k = Some (JNum (number_at m k))"
  by (auto simp: hasNumber_def is_finite_iff number_at_def)

lemma stringOrNull_iff: "isStringOrNull v \<longleftrightarrow> v = Some (null_or JStr (text_of v))"
  by (cases v rule: text_of.cases) (auto simp: isStringOrNull_def null_or_def)

lemma numberOrNull_iff: "isNumberOrNull v \<longleftrightarrow> v = Some (null_or JNum (number_of v))"
  by (cases v rule: number_of.cases) (auto simp: isNumberOrNull_def null_or_def)

lemma hasStringArray_iff: "hasStringArray m k \<longleftrightarrow> field m k = Some (JArr (map JStr (texts_of (field m k))))"
proof -
  have "list_all (\<lambda>x. is_string (Some x)) xs \<longleftrightarrow> xs = map JStr (texts_of (Some (JArr xs)))" for xs
    by (induction xs) (auto simp: is_string_iff)
  then show ?thesis by (auto simp: hasStringArray_def split: option.splits json.splits)
qed

lemma event_type_of_name [simp]: "event_type_of (event_name e) = Some e"
  by (cases e) (simp_all add: event_type_of_def EVENT_TYPES_def)

lemma session_state_of_name [simp]: "session_state_of (session_state_name e) = e"
  by (cases e) (simp_all add: session_state_of_def SESSION_STATES_def)

lemma playback_state_of_name [simp]: "playback_state_of (playback_state_name e) = e"
  by (cases e) (simp_all add: playback_state_of_def PLAYBACK_STATES_def)

lemma knownValue_iff: "isKnownValue vs (field m k) \<longleftrightarrow> field m k = Some (JStr (text_at m k)) \<and> text_at m k \<in> set vs"
  by (auto simp: isKnownValue_def text_at_def split: option.splits json.splits)

lemma known_name:
  "t \<in> set (map session_state_name SESSION_STATES) \<Longrightarrow> session_state_name (session_state_of t) = t"
  "t \<in> set (map playback_state_name PLAYBACK_STATES) \<Longrightarrow> playback_state_name (playback_state_of t) = t"
  "t \<in> set EVENT_ACK_STATUSES \<Longrightarrow> ack_status_name (ack_status_of t) = t"
  by (auto simp: EVENT_ACK_STATUSES_def ack_status_of_def)

lemma known_event: "t \<in> set (map event_name EVENT_TYPES) \<Longrightarrow> \<exists>e. event_type_of t = Some e \<and> event_name e = t"
  by auto

lemma optional_number: "hasOptionalNumberOrNull m k \<longleftrightarrow>
    field m k = None \<or> field m k = Some (null_or JNum (number_of (field m k)))"
  by (auto simp: hasOptionalNumberOrNull_def has_key_def simp flip: numberOrNull_iff)

lemma optional_string: "hasOptionalStringOrNull m k \<longleftrightarrow>
    field m k = None \<or> field m k = Some (null_or JStr (text_of (field m k)))"
  by (auto simp: hasOptionalStringOrNull_def has_key_def simp flip: stringOrNull_iff)

lemmas guard_readings = hasString_iff hasNumber_iff stringOrNull_iff numberOrNull_iff hasStringArray_iff
  knownValue_iff optional_number optional_string

section \<open>Properties of the guards\<close>

text \<open>
  C19: the casts of the handlers never lie. In every frame that the control guard accepts, the
  acknowledgement, the snapshot, the clock answer, the scheduled start, the pong and the
  threshold alert hold, under the names the handlers read, values of exactly the types the
  handlers read them at; the same is true of every frame that the envelope guard accepts, whose
  event type is one of the vocabulary.
\<close>

theorem casts_never_lie:
  assumes "isWebSocketControlMessage m \<or> isEventEnvelope m"
  shows "(let a = as_event_ack m; s = as_session_snapshot m; c = as_clock_sync_response m;
      e = as_event_envelope m in
    (case controlMessageType m of
       Some (JStr t) \<Rightarrow> isEventEnvelope m \<or>
         (t = ''event_ack'' \<longrightarrow>
           field m ''event_id'' = Some (null_or JStr (ak_event_id a)) \<and>
           field m ''status'' = Some (JStr (ack_status_name (ak_status a))) \<and>
           (field m ''reason'' = None \<or> field m ''reason'' = Some (null_or JStr (ak_reason a)))) \<and>
         (t = ''session_snapshot'' \<longrightarrow>
           field m ''snapshot_revision'' = Some (JNum (sn_snapshot_revision s)) \<and>
           field m ''session_state'' = Some (JStr (session_state_name (sn_session_state s))) \<and>
           field m ''playback_state'' = Some (JStr (playback_state_name (sn_playback_state s))) \<and>
           field m ''active_clip'' = Some (null_or JStr (sn_active_clip s)) \<and>
           field m ''revealed_facts'' = Some (JArr (map JStr (sn_revealed_facts s))) \<and>
           field m ''consecutive_fallbacks'' = Some (JNum (sn_consecutive_fallbacks s)) \<and>
           (field m ''start_at_server_ms'' = None \<or>
            field m ''start_at_server_ms'' = Some (null_or JNum (sn_start_at_server_ms s)))) \<and>
         (t = ''clock_sync_response'' \<longrightarrow>
           field m ''probe_id'' = Some (null_or JStr (cr_probe_id c)) \<and>
           field m ''t0'' = Some (null_or JNum (cr_t0 c)) \<and>
           field m ''s1'' = Some (JNum (cr_s1 c)) \<and> field m ''s2'' = Some (JNum (cr_s2 c))) \<and>
         (t = ''session_start_scheduled'' \<longrightarrow>
           field m ''start_at_server_ms'' = Some (JNum (number_at m ''start_at_server_ms''))) \<and>
         (t = ''pong'' \<longrightarrow> field m ''ping_id'' = Some (null_or JStr (text_of (field m ''ping_id'')))) \<and>
         (t = ''fallback_threshold_reached'' \<longrightarrow>
           (\<exists>p. field m ''payload'' = Some p \<and>
              field p ''consecutive_fallbacks'' = Some (JNum (number_at p ''consecutive_fallbacks''))))
     | _ \<Rightarrow> isEventEnvelope m) \<and>
    (isEventEnvelope m \<longrightarrow>
      (\<exists>t. ev_event_type e = Some t \<and> field m ''event_type'' = Some (JStr (event_name t))) \<and>
      field m ''session_id'' = Some (JStr (ev_session_id e)) \<and>
      field m ''sequence'' = Some (JNum (ev_sequence e)) \<and>
      field m ''payload'' = Some (ev_payload e) \<and> isRecord (ev_payload e)))"
proof -
  have env: "(\<exists>t. ev_event_type e = Some t \<and> field m ''event_type'' = Some (JStr (event_name t))) \<and>
      field m ''session_id'' = Some (JStr (ev_session_id e)) \<and>
      field m ''sequence'' = Some (JNum (ev_sequence e)) \<and>
      field m ''payload'' = Some (ev_payload e) \<and> isRecord (ev_payload e)"
    if "isEventEnvelope m" "e = as_event_envelope m" for e
    using that known_event [of "text_at m ''event_type''"]
    by (auto simp: isEventEnvelope_def as_event_envelope_def guard_readings split: option.splits)
  show ?thesis
  proof (cases "isEventEnvelope m")
    case True
    with env show ?thesis by (simp add: Let_def split: option.splits json.splits)
  next
    case False
    with assms obtain t where t: "controlMessageType m = Some (JStr t)" "control_fields m t"
      by (auto simp: isWebSocketControlMessage_def split: option.splits json.splits)
    have ack: "t = ''event_ack'' \<Longrightarrow>
           field m ''event_id'' = Some (null_or JStr (ak_event_id (as_event_ack m))) \<and>
           field m ''status'' = Some (JStr (ack_status_name (ak_status (as_event_ack m)))) \<and>
           (field m ''reason'' = None \<or> field m ''reason'' = Some (null_or JStr (ak_reason (as_event_ack m))))"
      using t(2) by (simp add: control_fields_def as_event_ack_def guard_readings known_name)
    have snap: "t = ''session_snapshot'' \<Longrightarrow>
           field m ''snapshot_revision'' = Some (JNum (sn_snapshot_revision (as_session_snapshot m))) \<and>
           field m ''session_state'' = Some (JStr (session_state_name (sn_session_state (as_session_snapshot m)))) \<and>
           field m ''playback_state'' = Some (JStr (playback_state_name (sn_playback_state (as_session_snapshot m)))) \<and>
           field m ''active_clip'' = Some (null_or JStr (sn_active_clip (as_session_snapshot m))) \<and>
           field m ''revealed_facts'' = Some (JArr (map JStr (sn_revealed_facts (as_session_snapshot m)))) \<and>
           field m ''consecutive_fallbacks'' = Some (JNum (sn_consecutive_fallbacks (as_session_snapshot m))) \<and>
           (field m ''start_at_server_ms'' = None \<or>
            field m ''start_at_server_ms'' = Some (null_or JNum (sn_start_at_server_ms (as_session_snapshot m))))"
      using t(2) by (simp add: control_fields_def as_session_snapshot_def guard_readings known_name del: set_map)
    have clock: "t = ''clock_sync_response'' \<Longrightarrow>
           field m ''probe_id'' = Some (null_or JStr (cr_probe_id (as_clock_sync_response m))) \<and>
           field m ''t0'' = Some (null_or JNum (cr_t0 (as_clock_sync_response m))) \<and>
           field m ''s1'' = Some (JNum (cr_s1 (as_clock_sync_response m))) \<and>
           field m ''s2'' = Some (JNum (cr_s2 (as_clock_sync_response m)))"
      using t(2) by (simp add: control_fields_def as_clock_sync_response_def guard_readings)
    have rest: "t = ''session_start_scheduled'' \<Longrightarrow>
           field m ''start_at_server_ms'' = Some (JNum (number_at m ''start_at_server_ms''))"
      "t = ''pong'' \<Longrightarrow> field m ''ping_id'' = Some (null_or JStr (text_of (field m ''ping_id'')))"
      "t = ''fallback_threshold_reached'' \<Longrightarrow>
           (\<exists>p. field m ''payload'' = Some p \<and>
              field p ''consecutive_fallbacks'' = Some (JNum (number_at p ''consecutive_fallbacks'')))"
      using t(2) by (auto simp: control_fields_def guard_readings split: option.splits)
    show ?thesis using t(1) False ack snap clock rest by (simp only: Let_def option.case json.case) blast
  qed
qed

definition example_snapshot :: json where
  "example_snapshot = JObj
     [(''type'', JStr ''session_snapshot''), (''snapshot_revision'', JNum 4),
      (''session_state'', JStr ''active''), (''playback_state'', JStr ''playing''),
      (''active_clip'', JStr ''C01''), (''character_state'', JStr ''neutral''),
      (''cooperation_level'', JNum 2), (''revealed_facts'', JArr [JStr ''F1'']),
      (''consecutive_fallbacks'', JNum 0), (''server_timestamp_ms'', JNum 1000)]"

lemma example_snapshot_accepted: "isWebSocketControlMessage example_snapshot"
  by code_simp

theorem casts_never_lie_witness:
  "controlMessageType example_snapshot = Some (JStr ''session_snapshot'') \<and>
   field example_snapshot ''active_clip'' = Some (null_or JStr (sn_active_clip (as_session_snapshot example_snapshot)))"
proof -
  have t: "controlMessageType example_snapshot = Some (JStr ''session_snapshot'')"
    "\<not> isEventEnvelope example_snapshot" by code_simp+
  show ?thesis
    using casts_never_lie [OF disjI1 [OF example_snapshot_accepted]]
    by (simp only: t Let_def option.case json.case simp_thms)
qed

lemma control_fields_cong:
  assumes "\<And>k. k \<noteq> ''command_type'' \<Longrightarrow> field m k = field n k"
  shows "control_fields m t = control_fields n t"
  by (simp add: control_fields_def json_guards assms)

text \<open>
  The two guards split the wire. No frame is both a control message and an event envelope;
  a frame with an \<open>event_type\<close> field is never a control message, whatever its type says; and
  whether a frame with a non-empty \<open>type\<close> is accepted does not depend on its \<open>command_type\<close>.
\<close>

theorem guards_split_the_wire:
  "\<not> (isWebSocketControlMessage m \<and> isEventEnvelope m) \<and>
   \<not> isWebSocketControlMessage (JObj ((''event_type'', v) # fs)) \<and>
   isWebSocketControlMessage (JObj ((''type'', JStr (c # t)) # (''command_type'', v) # fs))
     = isWebSocketControlMessage (JObj ((''type'', JStr (c # t)) # (''command_type'', JNull) # fs))"
proof (intro conjI)
  show "\<not> (isWebSocketControlMessage m \<and> isEventEnvelope m)"
    by (auto simp: isWebSocketControlMessage_def isEventEnvelope_def has_key_def isKnownValue_def
        split: option.splits)
  show "\<not> isWebSocketControlMessage (JObj ((''event_type'', v) # fs))"
    by (simp add: isWebSocketControlMessage_def has_key_def)
  let ?m = "\<lambda>v. JObj ((''type'', JStr (c # t)) # (''command_type'', v) # fs)"
  have "field (?m v) k = field (?m JNull) k" if "k \<noteq> ''command_type''" for k
    using that by simp
  then have "control_fields (?m v) (c # t) = control_fields (?m JNull) (c # t)"
    by (rule control_fields_cong)
  then show "isWebSocketControlMessage (?m v) = isWebSocketControlMessage (?m JNull)"
    by (simp add: isWebSocketControlMessage_def controlMessageType_def has_key_def)
qed

end
