(* ===== verification/SocketHook.thy ===== *)
theory SocketHook
  imports SocketLifecycle Messages
begin

text \<open>
  What the socket hooks of the student (\<open>apps/student/src/useStudentSocket.ts\<close>) and the wizard
  (\<open>apps/wizard/src/useSessionSocket.ts\<close>) have in common: timers, sockets and their handlers,
  sending, the heartbeat, the clock sync, the pending frames, and the application of the
  lifecycle's effects. A hook is a record that the two apps extend by their own state. The
  browser is in it too: the clock, the sockets' ready states, the pending timers (each with the
  closure it runs, as a constructor) and a trace of what was sent, newest first. React state is
  set at once. A socket is named by the mount of the hook that opened it and its lifecycle id.
\<close>

section \<open>The browser\<close>

type_synonym sock = "nat \<times> nat"

datatype ready_state = ReadyConnecting | ReadyOpen | ReadyClosing | ReadyClosed

datatype timer = ReconnectTimer | AdmissionTimer sock | PingTimer sock | PongTimer sock string
  | ProbeTimer | StartTimer | ResyncTimer | StartCheckTimer

datatype wire = Dialed sock string string | AdmittedOn sock | Sent sock json

datatype connection_status = CsIdle | CsConnecting | CsOpen | CsDegraded | CsReconnecting | CsClosed

datatype log_level = LogInfo | LogWarn | LogError

datatype log_text =
    NotSent "event_type option" | SentLog "event_type option" | ScheduledIn int | Replayed nat
  | RejectedLog string | ClockSynced int int | HeartbeatLost | Unparsable | RoleReplacedLog string
  | ThresholdLog rat | ReceivedLog event_type | FallbackResolved "string option" | AdmittedLog
  | OccupiedRetry ms | LostRetry ms | ClosedLog string | EndedLog | OpenWaiting | SocketErrorLog
  | StartScheduledLog | NoActiveClip

record log_entry =
  g_id :: string
  g_at :: ms
  g_level :: log_level
  g_text :: log_text

record clock_sample =
  rtt_ms :: rat
  offset_ms :: rat

record clock_state =
  ck_offset_ms :: "int option"
  ck_rtt_ms :: "int option"
  ck_sample_count :: int

text \<open>A frame that was sent and not acknowledged; the event type of a fallback request is
  \<open>None\<close>. Only the wizard has short-lived commands.\<close>

record pending_frame =
  pf_dedup_key :: string
  pf_event_type :: "event_type option"
  pf_sequence :: seqno
  pf_frame :: json
  pf_short_lived :: bool

record ack_view =
  av_event_id :: "string option"
  av_status :: ack_status
  av_reason :: "string option"

record hook =
  h_session :: "string option"
  h_now :: ms
  h_performance :: rat
  h_uuid :: "nat \<Rightarrow> string"
  h_drawn :: nat
  h_sockets :: "(sock \<times> ready_state) list"
  h_detached :: "sock list"
  h_timers :: "(nat \<times> ms \<times> timer) list"
  h_next_timer :: nat
  h_trace :: "wire list"
  h_mounts :: nat
  h_disposed :: bool
  h_lifecycle :: lifecycle
  h_token :: string
  h_status :: connection_status
  h_closed_reason :: "string option"
  h_notice :: "close_kind option"
  h_clock :: clock_state
  h_last_ack :: "ack_view option"
  h_pending_count :: nat
  h_log :: "log_entry list"
  h_socket :: "sock option"
  h_reconnect_timer :: "nat option"
  h_admission_timer :: "nat option"
  h_admitted :: bool
  h_admit :: "nat option"
  h_ping_timer :: "nat option"
  h_pong_timers :: "(string \<times> nat) list"
  h_missed :: nat
  h_samples :: "clock_sample list"
  h_probe_sent :: "(string \<times> ms) list"
  h_clock_offset :: "int option"
  h_clock_timers :: "nat list"
  h_sequence :: seqno
  h_last_acked :: seqno
  h_pending :: "(string \<times> pending_frame) list"
  h_revision :: rat
  h_replay :: bool

section \<open>Constants\<close>

definition PING_INTERVAL_MS :: ms where "PING_INTERVAL_MS = 10000"
definition PONG_WAIT_MS :: ms where "PONG_WAIT_MS = 5000"
definition MAX_MISSED_HEARTBEATS :: nat where "MAX_MISSED_HEARTBEATS = 3"
definition CLOCK_SYNC_SAMPLES :: nat where "CLOCK_SYNC_SAMPLES = 9"
definition CLOCK_SYNC_KEEP_LOWEST :: nat where "CLOCK_SYNC_KEEP_LOWEST = 5"
definition CLOCK_SYNC_SPACING_MS :: ms where "CLOCK_SYNC_SPACING_MS = 120"

definition REVISION_BUMPING_EVENTS :: "event_type list" where
  "REVISION_BUMPING_EVENTS =
     [SessionStarted, SessionPaused, SessionResumed, SessionEnded, ClipCommand, ClipStarted, ClipEnded,
      ClipInterrupted, ReturnToIdle, FallbackUsed]"

section \<open>Ids, log and timers\<close>

definition newId :: "string \<Rightarrow> 'm hook_scheme \<Rightarrow> string \<times> 'm hook_scheme" where
  "newId prefix h = (prefix @ ''-'' @ h_uuid h (h_drawn h), h\<lparr>h_drawn := Suc (h_drawn h)\<rparr>)"

definition appendLog :: "nat \<Rightarrow> log_level \<Rightarrow> log_text \<Rightarrow> 'm hook_scheme \<Rightarrow> 'm hook_scheme" where
  "appendLog limit level txt h =
     (let (i, h1) = newId ''log'' h;
          entry = \<lparr>g_id = i, g_at = h_now h, g_level = level, g_text = txt\<rparr>
      in h1\<lparr>h_log := take limit (entry # h_log h1)\<rparr>)"

definition setTimer :: "timer \<Rightarrow> ms \<Rightarrow> 'm hook_scheme \<Rightarrow> nat \<times> 'm hook_scheme" where
  "setTimer t delay h =
     (h_next_timer h,
      h\<lparr>h_timers := h_timers h @ [(h_next_timer h, delay, t)], h_next_timer := Suc (h_next_timer h)\<rparr>)"

definition clearTimer :: "nat \<Rightarrow> 'm hook_scheme \<Rightarrow> 'm hook_scheme" where
  "clearTimer i h = h\<lparr>h_timers := filter (\<lambda>e. fst e \<noteq> i) (h_timers h)\<rparr>"

definition clearRef :: "nat option \<Rightarrow> 'm hook_scheme \<Rightarrow> 'm hook_scheme" where
  "clearRef r h = (case r of None \<Rightarrow> h | Some i \<Rightarrow> clearTimer i h)"

section \<open>Sending\<close>

definition rawSend :: "json \<Rightarrow> 'm hook_scheme \<Rightarrow> bool \<times> 'm hook_scheme" where
  "rawSend frame h =
     (case h_socket h of
        None \<Rightarrow> (False, h)
      | Some k \<Rightarrow>
          if map_of (h_sockets h) k \<noteq> Some ReadyOpen then (False, h)
          else (True, h\<lparr>h_trace := Sent k frame # h_trace h\<rparr>))"

definition reconnect_hello :: "string \<Rightarrow> string \<Rightarrow> 'm hook_scheme \<Rightarrow> json" where
  "reconnect_hello sid role h = JObj
     [(''type'', JStr ''reconnect_hello''),
      (''session_id'', JStr sid),
      (''role'', JStr role),
      (''last_snapshot_revision'', JNum (h_revision h)),
      (''last_acked_sequence'', JNum (of_int (h_last_acked h))),
      (''pending_event_ids'', JArr (map (\<lambda>e. JStr (fst e)) (h_pending h)))]"

definition trackPending :: "pending_frame \<Rightarrow> 'm hook_scheme \<Rightarrow> 'm hook_scheme" where
  "trackPending p h =
     (let m = map_set (pf_dedup_key p) p (h_pending h)
      in h\<lparr>h_pending := m, h_pending_count := length m\<rparr>)"

definition envelope :: "string \<Rightarrow> string \<Rightarrow> seqno \<Rightarrow> ms \<Rightarrow> event_type \<Rightarrow> (string \<times> json) list \<Rightarrow> json" where
  "envelope sid source sequence now e payload = JObj
     [(''session_id'', JStr sid),
      (''sequence'', JNum (of_int sequence)),
      (''client_timestamp_ms'', JNum (of_int now)),
      (''source'', JStr source),
      (''event_type'', JStr (event_name e)),
      (''payload'', JObj payload)]"

text \<open>The replay of what was not acknowledged, in the order it was sent.\<close>

fun send_all :: "json list \<Rightarrow> 'm hook_scheme \<Rightarrow> 'm hook_scheme" where
  "send_all [] h = h"
| "send_all (f # fs) h = send_all fs (snd (rawSend f h))"

definition replayPending :: "nat \<Rightarrow> 'm hook_scheme \<Rightarrow> 'm hook_scheme" where
  "replayPending limit h =
     (if h_replay h then
        let h1 = send_all (map (\<lambda>e. pf_frame (snd e)) (h_pending h)) (h\<lparr>h_replay := False\<rparr>)
        in if h_pending h1 \<noteq> [] then appendLog limit LogInfo (Replayed (length (h_pending h1))) h1 else h1
      else h)"

section \<open>Heartbeat\<close>

definition clearHeartbeat :: "'m hook_scheme \<Rightarrow> 'm hook_scheme" where
  "clearHeartbeat h =
     (let h1 = (clearRef (h_ping_timer h) h)\<lparr>h_ping_timer := None\<rparr>;
          h2 = fold clearTimer (map snd (h_pong_timers h1)) h1
      in h2\<lparr>h_pong_timers := []\<rparr>)"

definition startHeartbeat :: "sock \<Rightarrow> 'm hook_scheme \<Rightarrow> 'm hook_scheme" where
  "startHeartbeat k h =
     (let (i, h1) = setTimer (PingTimer k) PING_INTERVAL_MS ((clearHeartbeat h)\<lparr>h_missed := 0\<rparr>)
      in h1\<lparr>h_ping_timer := Some i\<rparr>)"

definition ping_frame :: "string \<Rightarrow> ms \<Rightarrow> json" where
  "ping_frame pingId now = JObj
     [(''type'', JStr ''ping''), (''ping_id'', JStr pingId), (''client_timestamp_ms'', JNum (of_int now))]"

definition ping_fires :: "sock \<Rightarrow> 'm hook_scheme \<Rightarrow> 'm hook_scheme" where
  "ping_fires k h =
     (let (pingId, h1) = newId ''ping'' h;
          (ok, h2) = rawSend (ping_frame pingId (h_now h1)) h1
      in if \<not> ok then h2
         else let (t, h3) = setTimer (PongTimer k pingId) PONG_WAIT_MS h2
           in h3\<lparr>h_pong_timers := map_set pingId t (h_pong_timers h3)\<rparr>)"

definition handlePong :: "string option \<Rightarrow> 'm hook_scheme \<Rightarrow> 'm hook_scheme" where
  "handlePong pingId h =
     (let h1 = (case pingId of
            None \<Rightarrow> h
          | Some p \<Rightarrow>
              (case map_of (h_pong_timers h) p of
                 None \<Rightarrow> h
               | Some t \<Rightarrow> (clearTimer t h)\<lparr>h_pong_timers := map_delete p (h_pong_timers h)\<rparr>))
      in h1\<lparr>h_missed := 0, h_status := (if h_status h1 = CsDegraded then CsOpen else h_status h1)\<rparr>)"

section \<open>Clock sync\<close>

definition median :: "rat list \<Rightarrow> rat" where
  "median values =
     (let sorted = sort values; mid = length sorted div 2
      in if length sorted mod 2 = 1 then sorted ! mid else (sorted ! (mid - 1) + sorted ! mid) / 2)"

text \<open>The timers of the probes, \<open>CLOCK_SYNC_SPACING_MS\<close> apart.\<close>

definition probe_timer :: "nat \<Rightarrow> 'm hook_scheme \<Rightarrow> 'm hook_scheme" where
  "probe_timer i h =
     (let (t, h1) = setTimer ProbeTimer (int i * CLOCK_SYNC_SPACING_MS) h
      in h1\<lparr>h_clock_timers := h_clock_timers h1 @ [t]\<rparr>)"

definition startProbes :: "'m hook_scheme \<Rightarrow> 'm hook_scheme" where
  "startProbes h =
     (let h1 = fold clearTimer (h_clock_timers h) (h\<lparr>h_samples := [], h_probe_sent := []\<rparr>)
      in fold probe_timer [0..<CLOCK_SYNC_SAMPLES] (h1\<lparr>h_clock_timers := []\<rparr>))"

definition probe_frame :: "string \<Rightarrow> ms \<Rightarrow> int \<Rightarrow> json" where
  "probe_frame probeId t0 perf = JObj
     [(''type'', JStr ''clock_sync_probe''), (''probe_id'', JStr probeId), (''t0'', JNum (of_int t0)),
      (''client_monotonic_ms'', JNum (of_int perf))]"

definition probe_fires :: "'m hook_scheme \<Rightarrow> 'm hook_scheme" where
  "probe_fires h =
     (let (probeId, h1) = newId ''probe'' h;
          h2 = h1\<lparr>h_probe_sent := map_set probeId (h_now h1) (h_probe_sent h1)\<rparr>
      in snd (rawSend (probe_frame probeId (h_now h2) (js_round (h_performance h2))) h2))"

definition clock_sample_of :: "rat \<Rightarrow> rat \<Rightarrow> rat \<Rightarrow> rat \<Rightarrow> clock_sample" where
  "clock_sample_of t0 s1 s2 t3 =
     \<lparr>rtt_ms = t3 - t0 - (s2 - s1), offset_ms = (s1 - t0 + (s2 - t3)) / 2\<rparr>"

text \<open>The samples with the lowest round trip, and the rounded medians over them.\<close>

definition best_samples :: "clock_sample list \<Rightarrow> clock_sample list" where
  "best_samples samples = take CLOCK_SYNC_KEEP_LOWEST (sort_key rtt_ms samples)"

definition clock_estimate :: "clock_sample list \<Rightarrow> int \<times> int" where
  "clock_estimate samples =
     (let best = best_samples samples
      in (js_round (median (map offset_ms best)), js_round (median (map rtt_ms best))))"

definition offset_report :: "int \<Rightarrow> nat \<Rightarrow> int \<Rightarrow> json" where
  "offset_report off count rtt = JObj
     [(''type'', JStr ''clock_offset_report''), (''offset_ms'', JNum (of_int off)),
      (''sample_count'', JNum (of_nat count)), (''rtt_ms'', JNum (of_int rtt))]"

section \<open>Acknowledgements\<close>

definition ack_pending :: "event_ack_message \<Rightarrow> 'm hook_scheme \<Rightarrow> pending_frame option \<times> 'm hook_scheme" where
  "ack_pending m h =
     (let h1 = h\<lparr>h_last_ack := Some \<lparr>av_event_id = ak_event_id m, av_status = ak_status m,
            av_reason = ak_reason m\<rparr>\<rparr>
      in case ak_event_id m of
           None \<Rightarrow> (None, h1)
         | Some key \<Rightarrow>
             (case map_of (h_pending h1) key of
                None \<Rightarrow> (None, h1)
              | Some p \<Rightarrow>
                  let rest = map_delete key (h_pending h1);
                      h2 = h1\<lparr>h_pending := rest, h_pending_count := length rest\<rparr>
                  in (Some p,
                      if ak_status m \<noteq> Rejected
                      then h2\<lparr>h_last_acked := max (h_last_acked h2) (pf_sequence p)\<rparr> else h2)))"

definition bumps_revision :: "event_type option \<Rightarrow> bool" where
  "bumps_revision e = (case e of None \<Rightarrow> False | Some t \<Rightarrow> t \<in> set REVISION_BUMPING_EVENTS)"

text \<open>The send time of a probe: as recorded, or else as echoed.\<close>

definition probe_t0 :: "clock_sync_response_message \<Rightarrow> 'm hook_scheme \<Rightarrow> rat option" where
  "probe_t0 m h =
     or_else (map_option of_int (Option.bind (cr_probe_id m) (map_of (h_probe_sent h)))) (cr_t0 m)"

definition take_sample :: "clock_sync_response_message \<Rightarrow> rat \<Rightarrow> 'm hook_scheme \<Rightarrow> 'm hook_scheme" where
  "take_sample m t0 h =
     h\<lparr>h_probe_sent := (case cr_probe_id m of None \<Rightarrow> h_probe_sent h | Some p \<Rightarrow> map_delete p (h_probe_sent h)),
       h_samples := h_samples h @ [clock_sample_of t0 (cr_s1 m) (cr_s2 m) (of_int (h_now h))]\<rparr>"

section \<open>The lifecycle's effects\<close>

text \<open>What an app plugs in: its request for a snapshot, its clock sync, what it does when the
  connection is over for good, and the length of its log.\<close>

record 'h hook_ops =
  op_request_snapshot :: "'h \<Rightarrow> 'h"
  op_clock_sync :: "'h \<Rightarrow> 'h"
  op_stop :: "socket_effects \<Rightarrow> 'h \<Rightarrow> 'h"
  op_log :: nat

fun shown_status :: "lifecycle_status \<Rightarrow> connection_status" where
  "shown_status LsConnecting = CsConnecting"
| "shown_status LsReconnecting = CsReconnecting"
| "shown_status LsOpen = CsOpen"
| "shown_status LsClosed = CsClosed"

definition clearAdmissionTimer :: "'m hook_scheme \<Rightarrow> 'm hook_scheme" where
  "clearAdmissionTimer h = (clearRef (h_admission_timer h) h)\<lparr>h_admission_timer := None\<rparr>"

definition set_ready :: "sock \<Rightarrow> ready_state \<Rightarrow> 'm hook_scheme \<Rightarrow> 'm hook_scheme" where
  "set_ready k r h = h\<lparr>h_sockets := map_set k r (h_sockets h)\<rparr>"

definition close_socket :: "sock \<Rightarrow> 'm hook_scheme \<Rightarrow> 'm hook_scheme" where
  "close_socket k h =
     (if map_of (h_sockets h) k = Some ReadyClosed then h else set_ready k ReadyClosing h)"

definition show_effects :: "socket_effects \<Rightarrow> 'm hook_scheme \<Rightarrow> 'm hook_scheme" where
  "show_effects e h = h\<lparr>
     h_status := (case ef_status e of None \<Rightarrow> h_status h | Some s \<Rightarrow> shown_status s),
     h_closed_reason := nullish (ef_closed_reason e) (h_closed_reason h),
     h_notice := nullish (ef_notice e) (h_notice h)\<rparr>"

definition admit_hook :: "'m hook_scheme hook_ops \<Rightarrow> sock \<Rightarrow> 'm hook_scheme \<Rightarrow> 'm hook_scheme" where
  "admit_hook ops k h =
     (let h1 = (clearAdmissionTimer h)\<lparr>h_admitted := True, h_replay := True\<rparr>;
          h2 = appendLog (op_log ops) LogInfo AdmittedLog (h1\<lparr>h_trace := AdmittedOn k # h_trace h1\<rparr>)
      in startHeartbeat k (op_clock_sync ops h2))"

definition leave_hook :: "'m hook_scheme \<Rightarrow> 'm hook_scheme" where
  "leave_hook h = (clearAdmissionTimer (clearHeartbeat h))\<lparr>h_admitted := False\<rparr>"

definition detach_hook :: "sock \<Rightarrow> 'm hook_scheme \<Rightarrow> 'm hook_scheme" where
  "detach_hook k h =
     (let h1 = close_socket k (h\<lparr>h_detached := k # h_detached h\<rparr>)
      in if h_socket h1 = Some k then h1\<lparr>h_socket := None\<rparr> else h1)"

definition schedule_reconnect :: "'m hook_scheme hook_ops \<Rightarrow> socket_effects \<Rightarrow> ms \<Rightarrow> 'm hook_scheme \<Rightarrow> 'm hook_scheme" where
  "schedule_reconnect ops e delay h =
     (let h1 = appendLog (op_log ops) LogWarn
            (if ef_notice e = Some (Some CkOccupied) then OccupiedRetry delay else LostRetry delay) h;
          (t, h2) = setTimer ReconnectTimer delay h1
      in h2\<lparr>h_reconnect_timer := Some t\<rparr>)"

definition apply_effects ::
  "'m hook_scheme hook_ops \<Rightarrow> sock \<Rightarrow> socket_effects \<Rightarrow> 'm hook_scheme \<Rightarrow> 'm hook_scheme" where
  "apply_effects ops k e h =
     (let h1 = show_effects e h;
          h2 = (if ef_send_hello e then op_request_snapshot ops h1 else h1);
          h3 = (if ef_admitted e then admit_hook ops k h2 else h2);
          h4 = (if ef_detach e \<or> ef_reconnect_in_ms e \<noteq> None \<or> ef_stop e then leave_hook h3 else h3);
          h5 = (if ef_detach e then detach_hook k h4 else h4);
          h6 = (case ef_reconnect_in_ms e of None \<Rightarrow> h5 | Some d \<Rightarrow> schedule_reconnect ops e d h5)
      in if ef_stop e then op_stop ops e h6 else h6)"

text \<open>A call of the lifecycle and the application of its effects.\<close>

definition apply_call ::
  "'m hook_scheme hook_ops \<Rightarrow> sock \<Rightarrow> (lifecycle \<Rightarrow> socket_effects \<times> lifecycle) \<Rightarrow> 'm hook_scheme \<Rightarrow> 'm hook_scheme" where
  "apply_call ops k f h =
     (let (e, l) = f (h_lifecycle h) in apply_effects ops k e (h\<lparr>h_lifecycle := l\<rparr>))"

text \<open>A handler of a socket belongs to the mount that opened it; after that mount's cleanup its
  \<open>disposed\<close> flag is set and its lifecycle stopped.\<close>

definition closure_current :: "sock \<Rightarrow> 'm hook_scheme \<Rightarrow> bool" where
  "closure_current k h \<longleftrightarrow> fst k = h_mounts h \<and> \<not> h_disposed h \<and> isCurrent (h_lifecycle h) (snd k)"

definition pong_expires :: "'m hook_scheme hook_ops \<Rightarrow> sock \<Rightarrow> string \<Rightarrow> 'm hook_scheme \<Rightarrow> 'm hook_scheme" where
  "pong_expires ops k pingId h =
     (let h1 = h\<lparr>h_pong_timers := map_delete pingId (h_pong_timers h), h_missed := Suc (h_missed h)\<rparr>
      in if h_missed h1 \<ge> MAX_MISSED_HEARTBEATS then
           let h2 = appendLog (op_log ops) LogError HeartbeatLost h1
           in (if fst k = h_mounts h2 then apply_call ops k (timedOut (snd k)) h2 else h2)
         else h1\<lparr>h_status := CsDegraded\<rparr>)"

section \<open>Connecting\<close>

definition connect :: "'m hook_scheme \<Rightarrow> 'm hook_scheme" where
  "connect h0 =
     (let h = h0\<lparr>h_reconnect_timer := None\<rparr>
      in if h_disposed h then h
         else
           let ((i, st), l) = begin_socket (h_lifecycle h);
               k = (h_mounts h, i)
           in h\<lparr>h_lifecycle := l, h_status := shown_status st,
                h_sockets := map_set k ReadyConnecting (h_sockets h),
                h_trace := Dialed k (nullish (h_session h) []) (h_token h) # h_trace h,
                h_socket := Some k, h_admit := Some i\<rparr>)"

definition mount :: "string option \<Rightarrow> string option \<Rightarrow> 'm hook_scheme \<Rightarrow> 'm hook_scheme" where
  "mount sid token h0 =
     (let h = h0\<lparr>h_session := sid\<rparr>
      in case sid of
           None \<Rightarrow> h\<lparr>h_status := CsIdle\<rparr>
         | Some s \<Rightarrow>
             let h1 = h\<lparr>h_admitted := False\<rparr>
             in if \<not> truthy token
                then h1\<lparr>h_status := CsClosed, h_closed_reason := Some ''missing_session_token''\<rparr>
                else connect (h1\<lparr>h_mounts := Suc (h_mounts h1), h_disposed := False,
                  h_lifecycle := newLifecycle, h_token := nullish token []\<rparr>))"

text \<open>The cleanup that both hooks share.\<close>

definition unmount :: "'m hook_scheme \<Rightarrow> 'm hook_scheme" where
  "unmount h =
     (let h1 = h\<lparr>h_disposed := True, h_lifecycle := dispose (h_lifecycle h), h_admitted := False, h_admit := None\<rparr>;
          h2 = clearAdmissionTimer (clearHeartbeat h1);
          h3 = (clearRef (h_reconnect_timer h2) h2)\<lparr>h_reconnect_timer := None\<rparr>;
          h4 = (fold clearTimer (h_clock_timers h3) h3)\<lparr>h_clock_timers := []\<rparr>
      in (case h_socket h4 of None \<Rightarrow> h4 | Some k \<Rightarrow> (close_socket k h4)\<lparr>h_socket := None\<rparr>))"

definition socket_onopen :: "'m hook_scheme hook_ops \<Rightarrow> sock \<Rightarrow> 'm hook_scheme \<Rightarrow> 'm hook_scheme" where
  "socket_onopen ops k h0 =
     (let h = set_ready k ReadyOpen h0
      in if \<not> closure_current k h then close_socket k h
         else
           let (t, h1) = setTimer (AdmissionTimer k) ADMISSION_TIMEOUT_MS
                 (appendLog (op_log ops) LogInfo OpenWaiting h)
           in apply_call ops k (opened (snd k)) (h1\<lparr>h_admission_timer := Some t\<rparr>))"

definition socket_onclose ::
  "'m hook_scheme hook_ops \<Rightarrow> sock \<Rightarrow> int \<Rightarrow> string \<Rightarrow> 'm hook_scheme \<Rightarrow> 'm hook_scheme" where
  "socket_onclose ops k code reason h0 =
     (let h = set_ready k ReadyClosed h0
      in if \<not> closure_current k h then h
         else
           let h1 = (if h_socket h = Some k then h\<lparr>h_socket := None\<rparr> else h)
           in apply_call ops k (closed (snd k) code reason) h1)"

text \<open>\<open>admitRef\<close>: the closure of the latest connect admits its own socket only.\<close>

definition admit_socket :: "'m hook_scheme hook_ops \<Rightarrow> sock \<Rightarrow> 'm hook_scheme \<Rightarrow> 'm hook_scheme" where
  "admit_socket ops k h =
     (if h_admit h = Some (snd k) then apply_call ops k (snapshot (snd k)) h else h)"

text \<open>The timers both hooks have; the closure of an old mount finds its lifecycle stopped.\<close>

definition admission_expires :: "'m hook_scheme hook_ops \<Rightarrow> sock \<Rightarrow> 'm hook_scheme \<Rightarrow> 'm hook_scheme" where
  "admission_expires ops k h =
     (let h1 = h\<lparr>h_admission_timer := None\<rparr>
      in if fst k = h_mounts h1 then apply_call ops k (timedOut (snd k)) h1 else h1)"

definition socket_onerror :: "nat \<Rightarrow> 'm hook_scheme \<Rightarrow> 'm hook_scheme" where
  "socket_onerror limit h = appendLog limit LogWarn SocketErrorLog h"

section \<open>What can happen\<close>

text \<open>Everything that can happen to a hook; \<open>App\<close> is a call of the app. \<open>Mount\<close> gives the session and
  the token the effect finds; a frame that \<open>JSON.parse\<close> refuses is \<open>None\<close>.\<close>

datatype 'c socket_event =
    Mount "string option" "string option" | Unmount
  | SocketOpens sock | Receives sock "json option" | SocketErrs sock | SocketCloses sock int string
  | TimerFires "nat \<times> ms \<times> timer" | TimePasses ms rat | App 'c

definition attached :: "sock \<Rightarrow> 'm hook_scheme \<Rightarrow> bool" where
  "attached k h \<longleftrightarrow> k \<notin> set (h_detached h)"

definition can_happen :: "'c socket_event \<Rightarrow> 'm hook_scheme \<Rightarrow> bool" where
  "can_happen ev h \<longleftrightarrow>
     (case ev of
        Mount sid token \<Rightarrow> h_disposed h
      | Unmount \<Rightarrow> \<not> h_disposed h
      | SocketOpens k \<Rightarrow> attached k h \<and> map_of (h_sockets h) k = Some ReadyConnecting
      | Receives k m \<Rightarrow> attached k h \<and> map_of (h_sockets h) k \<in> {Some ReadyOpen, Some ReadyClosing}
      | SocketErrs k \<Rightarrow> attached k h
      | SocketCloses k code reason \<Rightarrow> attached k h \<and> map_of (h_sockets h) k \<notin> {None, Some ReadyClosed}
      | TimerFires e \<Rightarrow> e \<in> set (h_timers h)
      | _ \<Rightarrow> True)"

definition pass_time :: "ms \<Rightarrow> rat \<Rightarrow> 'm hook_scheme \<Rightarrow> 'm hook_scheme" where
  "pass_time d p h = h\<lparr>h_now := h_now h + max 0 d, h_performance := h_performance h + max 0 p\<rparr>"

fun hook_run ::
  "('c socket_event \<Rightarrow> 'm hook_scheme \<Rightarrow> 'm hook_scheme) \<Rightarrow> 'c socket_event list \<Rightarrow> 'm hook_scheme \<Rightarrow> 'm hook_scheme"
where
  "hook_run step [] h = h"
| "hook_run step (ev # evs) h = hook_run step evs (if can_happen ev h then step ev h else h)"

fun remounts :: "'c socket_event \<Rightarrow> bool" where
  "remounts (Mount sid token) = True"
| "remounts ev = False"

lemmas hook_steps = newId_def appendLog_def setTimer_def clearTimer_def clearRef_def rawSend_def trackPending_def
  clearHeartbeat_def startHeartbeat_def handlePong_def Let_def

section \<open>What every step keeps\<close>

text \<open>The frames of the interview: events, and the wizard's requests for a fallback.\<close>

definition interview_frame :: "json \<Rightarrow> bool" where
  "interview_frame f \<longleftrightarrow> isEventEnvelope f \<or> field f ''type'' = Some (JStr ''request_fallback'')"

text \<open>Frames that the guards of the other end accept.\<close>

definition valid_frame :: "json \<Rightarrow> bool" where
  "valid_frame f \<longleftrightarrow> isEventEnvelope f \<or> isWebSocketControlMessage f"

fun chatter :: "wire \<Rightarrow> bool" where
  "chatter (Sent k f) = (\<not> interview_frame f \<and> valid_frame f)"
| "chatter w = False"

definition core ::
  "'m hook_scheme \<Rightarrow> nat \<times> bool \<times> lifecycle \<times> (sock \<times> ready_state) list \<times> sock option \<times> bool \<times> nat option
    \<times> bool \<times> seqno \<times> (nat \<Rightarrow> string) \<times> string option \<times> nat option" where
  "core h = (h_mounts h, h_disposed h, h_lifecycle h, h_sockets h, h_socket h, h_admitted h, h_admit h,
     h_replay h, h_sequence h, h_uuid h, h_session h, h_reconnect_timer h)"

text \<open>The timers that will connect again.\<close>

definition recon :: "(nat \<times> ms \<times> timer) list \<Rightarrow> nat set" where
  "recon ts = {j. \<exists>d. (j, d, ReconnectTimer) \<in> set ts}"

lemma recon_simps [simp]:
  "recon [] = {}" "recon (ts @ us) = recon ts \<union> recon us"
  "recon ((j, d, t) # ts) = (if t = ReconnectTimer then insert j (recon ts) else recon ts)"
  by (auto simp: recon_def)

lemma recon_filter: "recon (filter P ts) \<subseteq> recon ts"
  by (auto simp: recon_def)

lemma recon_filter_none [simp]: "recon ts = {} \<Longrightarrow> recon (filter P ts) = {}"
  using recon_filter by blast

text \<open>A step that leaves the connection alone, forgets no frame it has sent, and sends nothing of
  the interview.\<close>

definition quiet :: "'m hook_scheme \<Rightarrow> 'm hook_scheme \<Rightarrow> bool" where
  "quiet h h' \<longleftrightarrow>
     core h' = core h \<and> set (h_pending h') \<subseteq> set (h_pending h) \<and> recon (h_timers h') \<subseteq> recon (h_timers h) \<and>
     (\<exists>ws. h_trace h' = ws @ h_trace h \<and> list_all chatter ws)"

lemma quiet_refl [simp]: "quiet h h"
  by (auto simp: quiet_def)

lemma quiet_trans: "quiet h h' \<Longrightarrow> quiet h' h'' \<Longrightarrow> quiet h h''"
  unfolding quiet_def by (fastforce simp: list_all_iff)

lemma quiet_silent:
  "core h' = core h \<Longrightarrow> h_trace h' = h_trace h \<Longrightarrow> h_pending h' = h_pending h \<Longrightarrow>
   recon (h_timers h') \<subseteq> recon (h_timers h) \<Longrightarrow> quiet h h'"
  by (auto simp: quiet_def)

lemma fold_clearTimer:
  "fold clearTimer ids h = h\<lparr>h_timers := filter (\<lambda>e. fst e \<notin> set ids) (h_timers h)\<rparr>"
proof (induction ids arbitrary: h)
  case (Cons i ids)
  have "filter (\<lambda>e. fst e \<notin> set ids) (filter (\<lambda>e. fst e \<noteq> i) ts) = filter (\<lambda>e. fst e \<notin> set (i # ids)) ts"
    for ts :: "(nat \<times> ms \<times> timer) list"
    by (induction ts) auto
  from this [of "h_timers h"] show ?case
    by (simp only: fold_Cons o_apply Cons) (simp add: clearTimer_def)
qed simp

lemma clearRef_eq: "clearRef r h = h\<lparr>h_timers := filter (\<lambda>e. r \<noteq> Some (fst e)) (h_timers h)\<rparr>"
  by (auto simp: clearRef_def clearTimer_def eq_commute split: option.splits intro!: arg_cong [where f = "\<lambda>t. h\<lparr>h_timers := t\<rparr>"])

lemma clearHeartbeat_eq:
  "clearHeartbeat h = h\<lparr>h_timers := filter (\<lambda>e. fst e \<notin> set (map snd (h_pong_timers h)))
       (filter (\<lambda>e. h_ping_timer h \<noteq> Some (fst e)) (h_timers h)),
     h_ping_timer := None, h_pong_timers := []\<rparr>"
  by (simp add: clearHeartbeat_def fold_clearTimer clearRef_eq)

lemma quiet_basic:
  "quiet h (snd (newId p h))" "quiet h (appendLog n l txt h)"
  "quiet h (clearTimer j h)" "quiet h (clearRef r h)" "quiet h (clearHeartbeat h)"
  "quiet h (clearAdmissionTimer h)" "quiet h (handlePong pid h)" "quiet h (show_effects e h)"
  by (rule quiet_silent;
      simp add: core_def newId_def appendLog_def clearTimer_def clearRef_eq clearHeartbeat_eq recon_filter
        recon_filter [THEN order_trans] clearAdmissionTimer_def handlePong_def show_effects_def Let_def split: option.splits)+

lemma quiet_setTimer: "t \<noteq> ReconnectTimer \<Longrightarrow> quiet h (snd (setTimer t d h))"
  by (rule quiet_silent) (simp_all add: core_def setTimer_def)

lemma quiet_startHeartbeat: "quiet h (startHeartbeat k h)"
  by (rule quiet_silent)
    (simp_all add: startHeartbeat_def clearHeartbeat_eq setTimer_def core_def recon_filter [THEN order_trans] recon_filter)

lemma quiet_send: "\<not> interview_frame f \<Longrightarrow> valid_frame f \<Longrightarrow> quiet h (snd (rawSend f h))"
  by (auto simp: quiet_def rawSend_def core_def split: option.splits)

lemma quiet_probe_timers: "quiet h (fold probe_timer ids h)"
proof (induction ids arbitrary: h)
  case (Cons i ids)
  have "quiet h (probe_timer i h)"
    by (rule quiet_silent) (simp_all add: probe_timer_def setTimer_def core_def)
  from quiet_trans [OF this Cons] show ?case by simp
qed simp

lemma quiet_startProbes: "quiet h (startProbes h)"
  unfolding startProbes_def fold_clearTimer Let_def
  by (rule quiet_trans [OF _ quiet_probe_timers]) (rule quiet_silent, simp_all add: core_def recon_filter)

lemma plain_frames [simp]:
  "\<not> interview_frame (ping_frame p t)" "\<not> interview_frame (probe_frame q t r)"
  "\<not> interview_frame (offset_report off n rtt)" "\<not> interview_frame (reconnect_hello sid role h)"
  by (simp_all add: interview_frame_def isEventEnvelope_def isKnownValue_def ping_frame_def probe_frame_def
      offset_report_def reconnect_hello_def)

lemma valid_frames [simp]:
  "valid_frame (ping_frame p t)" "valid_frame (probe_frame q t r)" "valid_frame (offset_report off n rtt)"
  "role \<in> set ROLE_VALUES \<Longrightarrow> valid_frame (reconnect_hello sid role h)"
  by (simp_all add: valid_frame_def isWebSocketControlMessage_def control_fields_def controlMessageType_def
      json_guards ping_frame_def probe_frame_def offset_report_def reconnect_hello_def list_all_iff)

lemma quiet_update:
  "quiet h g \<Longrightarrow> core h' = core g \<Longrightarrow> h_trace h' = h_trace g \<Longrightarrow> h_pending h' = h_pending g \<Longrightarrow>
   recon (h_timers h') \<subseteq> recon (h_timers g) \<Longrightarrow> quiet h h'"
  by (rule quiet_trans [OF _ quiet_silent])

lemma quiet_pass_time: "quiet h (pass_time d p h)"
  by (rule quiet_silent) (simp_all add: pass_time_def core_def)

lemma quiet_ping: "quiet h (ping_fires k h)"
proof -
  let ?h1 = "snd (newId ''ping'' h)" and ?p = "fst (newId ''ping'' h)"
  let ?h2 = "snd (rawSend (ping_frame ?p (h_now ?h1)) ?h1)"
  have "quiet h ?h2" by (rule quiet_trans [OF quiet_basic(1) quiet_send]) simp_all
  then show ?thesis
    unfolding ping_fires_def
    by (auto simp: Let_def setTimer_def split_def core_def elim: quiet_update)
qed

lemma quiet_probe: "quiet h (probe_fires h)"
proof -
  obtain p h1 where id: "newId ''probe'' h = (p, h1)" by fastforce
  with quiet_basic(1) [of h "''probe''"] have "quiet h h1" by simp
  then have "quiet h (h1\<lparr>h_probe_sent := map_set p (h_now h1) (h_probe_sent h1)\<rparr>)"
    by (rule quiet_update) (simp_all add: core_def)
  from quiet_trans [OF this quiet_send] show ?thesis
    unfolding probe_fires_def by (simp add: id Let_def)
qed

lemma quiet_ack: "quiet h (snd (ack_pending m h))"
  by (auto simp: ack_pending_def quiet_def core_def map_delete_def Let_def split: option.splits)

text \<open>
  The invariant: interview frames are only on sockets that were admitted before; a hook that
  counts as admitted is on its current socket, which the lifecycle has admitted; every sequence
  number was used for one frame only, and the pending frames are among those sent.
\<close>

fun speech_ok :: "wire list \<Rightarrow> bool" where
  "speech_ok [] = True"
| "speech_ok (Sent k f # ws) = (valid_frame f \<and> (interview_frame f \<longrightarrow> AdmittedOn k \<in> set ws) \<and> speech_ok ws)"
| "speech_ok (w # ws) = speech_ok ws"

definition spoken :: "wire list \<Rightarrow> json set" where
  "spoken ws = {f. interview_frame f \<and> (\<exists>k. Sent k f \<in> set ws)}"

definition frame_seq :: "json \<Rightarrow> rat option" where
  "frame_seq f = number_of (field f ''sequence'')"

lemma envelope_seq: "frame_seq (envelope sid src n t e fs) = Some (of_int n)"
  by (simp add: frame_seq_def envelope_def)

lemma envelope_accepted: "src \<in> set SOURCE_VALUES \<Longrightarrow> isEventEnvelope (envelope sid src n t e fs)"
  by (simp add: isEventEnvelope_def envelope_def json_guards) (cases e; simp add: EVENT_TYPES_def)

definition numbered :: "seqno \<Rightarrow> json \<Rightarrow> bool" where
  "numbered next f \<longleftrightarrow> (\<exists>n < next. frame_seq f = Some (of_int n))"

definition seq_ok :: "'m hook_scheme \<Rightarrow> bool" where
  "seq_ok h \<longleftrightarrow>
     Ball (spoken (h_trace h)) (numbered (h_sequence h)) \<and> inj_on frame_seq (spoken (h_trace h)) \<and>
     (\<lambda>e. pf_frame (snd e)) ` set (h_pending h) \<subseteq> spoken (h_trace h)"

definition hook_ok :: "'m hook_scheme \<Rightarrow> bool" where
  "hook_ok h \<longleftrightarrow>
     lifecycle_inv (h_lifecycle h) \<and> speech_ok (h_trace h) \<and> seq_ok h \<and>
     (\<forall>i. \<not> h_disposed h \<and> isCurrent (h_lifecycle h) i \<longrightarrow> h_socket h = Some (h_mounts h, i)) \<and>
     (h_admitted h \<longrightarrow> \<not> h_disposed h \<and>
       (\<exists>i. h_socket h = Some (h_mounts h, i) \<and> isAdmitted (h_lifecycle h) i \<and>
          AdmittedOn (h_mounts h, i) \<in> set (h_trace h))) \<and>
     (h_replay h \<longrightarrow> h_admitted h) \<and> (h_disposed h \<longrightarrow> (\<forall>i. \<not> isCurrent (h_lifecycle h) i)) \<and>
     (\<forall>j \<in> recon (h_timers h). h_reconnect_timer h = Some j \<and> \<not> h_disposed h \<and>
        lc_current (h_lifecycle h) = None \<and> \<not> lc_stopped (h_lifecycle h))"

definition hook_inv :: "'m hook_scheme \<Rightarrow> bool" where
  "hook_inv h \<longleftrightarrow> hook_ok h \<and> \<not> h_replay h"

lemma speech_valid: "speech_ok ws \<Longrightarrow> Sent k f \<in> set ws \<Longrightarrow> valid_frame f"
  by (induction ws rule: speech_ok.induct) auto

lemma spoken_valid: "speech_ok ws \<Longrightarrow> f \<in> spoken ws \<Longrightarrow> valid_frame f"
  using speech_valid unfolding spoken_def by blast

lemma speech_ok_append: "list_all chatter ws \<Longrightarrow> speech_ok (ws @ us) = speech_ok us"
  by (induction ws) (auto elim: chatter.elims)

lemma spoken_append: "list_all chatter ws \<Longrightarrow> spoken (ws @ us) = spoken us"
  by (auto simp: spoken_def list_all_iff dest: bspec)

lemma spoken_Sent: "spoken (Sent k f # ws) = (if interview_frame f then insert f (spoken ws) else spoken ws)"
  unfolding spoken_def by (cases k) (auto intro: exI)

lemma spoken_other [simp]: "spoken (Dialed k sid t # ws) = spoken ws" "spoken (AdmittedOn k # ws) = spoken ws"
  by (auto simp: spoken_def)

lemma quiet_core: "quiet h h' \<Longrightarrow> core h' = core h"
  by (simp add: quiet_def)

lemma quiet_fields:
  "quiet h h' \<Longrightarrow> h_admitted h' = h_admitted h \<and> h_replay h' = h_replay h \<and> h_lifecycle h' = h_lifecycle h \<and>
     h_mounts h' = h_mounts h \<and> h_disposed h' = h_disposed h \<and> h_socket h' = h_socket h \<and>
     h_sequence h' = h_sequence h \<and> h_session h' = h_session h \<and> h_admit h' = h_admit h \<and>
     h_sockets h' = h_sockets h \<and> h_uuid h' = h_uuid h \<and> h_reconnect_timer h' = h_reconnect_timer h"
  by (simp add: quiet_def core_def)

lemma quiet_ok: "quiet h h' \<Longrightarrow> hook_ok h \<Longrightarrow> hook_ok h'"
proof -
  assume q: "quiet h h'" and ok: "hook_ok h"
  from q obtain ws where ws: "h_trace h' = ws @ h_trace h" "list_all chatter ws"
    and p: "set (h_pending h') \<subseteq> set (h_pending h)" "recon (h_timers h') \<subseteq> recon (h_timers h)"
    by (auto simp: quiet_def)
  from ws ok have "speech_ok (h_trace h')" by (simp add: speech_ok_append hook_ok_def)
  moreover from ws(2) have s: "spoken (h_trace h') = spoken (h_trace h)" by (simp add: ws(1) spoken_append)
  from p ok have "seq_ok h'"
    using quiet_fields [OF q] s by (simp add: hook_ok_def seq_ok_def) blast
  moreover from ws(1) have "set (h_trace h) \<subseteq> set (h_trace h')" by auto
  ultimately show ?thesis using ok quiet_fields [OF q] p(2) by (simp add: hook_ok_def) blast
qed

lemma quiet_inv: "quiet h h' \<Longrightarrow> hook_inv h \<Longrightarrow> hook_inv h'"
  using quiet_fields [of h h'] quiet_ok [of h h'] by (simp add: hook_inv_def)

text \<open>Sending again what was already sent, and sending a new frame.\<close>

lemma resend_ok:
  assumes "hook_ok h" "h_admitted h" "f \<in> spoken (h_trace h)"
  shows "hook_ok (snd (rawSend f h))" "core (snd (rawSend f h)) = core h"
    "spoken (h_trace (snd (rawSend f h))) = spoken (h_trace h)" "h_pending (snd (rawSend f h)) = h_pending h"
  using assms
  by (auto simp: rawSend_def hook_ok_def seq_ok_def core_def spoken_Sent insert_absorb spoken_valid split: option.splits)

lemma send_all_ok:
  "hook_ok h \<Longrightarrow> h_admitted h \<Longrightarrow> set fs \<subseteq> spoken (h_trace h) \<Longrightarrow>
   hook_ok (send_all fs h) \<and> core (send_all fs h) = core h \<and> h_pending (send_all fs h) = h_pending h"
proof (induction fs arbitrary: h)
  case (Cons f fs)
  let ?h = "snd (rawSend f h)"
  from Cons.prems resend_ok [of h f]
  have r: "hook_ok ?h" "core ?h = core h" "spoken (h_trace ?h) = spoken (h_trace h)" "h_pending ?h = h_pending h"
    by simp_all
  from r(2) Cons.prems(2) have "h_admitted ?h" by (simp add: core_def)
  from Cons.IH [OF r(1) this] Cons.prems(3) r show ?case by simp
qed simp

lemma replay_inv:
  assumes "hook_ok h"
  shows "hook_inv (replayPending n h)"
proof (cases "h_replay h")
  case False
  with assms show ?thesis by (simp add: replayPending_def hook_inv_def)
next
  case True
  let ?g = "h\<lparr>h_replay := False\<rparr>" and ?fs = "map (\<lambda>e. pf_frame (snd e)) (h_pending h)"
  from assms True have g: "hook_ok ?g" "h_admitted ?g" by (auto simp: hook_ok_def seq_ok_def)
  moreover have "set ?fs \<subseteq> spoken (h_trace ?g)" using assms by (auto simp: hook_ok_def seq_ok_def)
  ultimately have "hook_ok (send_all ?fs ?g)" "core (send_all ?fs ?g) = core ?g"
    using send_all_ok by blast+
  then have "hook_inv (send_all ?fs ?g)" by (simp add: hook_inv_def core_def)
  with True show ?thesis by (auto simp: replayPending_def Let_def intro: quiet_inv [OF quiet_basic(2)])
qed

lemma set_map_set: "set (map_set k v m) \<subseteq> insert (k, v) (set m)"
  by (induction m) (auto split: if_splits)

lemma post_inv:
  assumes "hook_inv h" "h_admitted h" "interview_frame f" "frame_seq f = Some (of_int (h_sequence h))"
    and "rawSend f h = (True, g)" "pf_frame p = f" "valid_frame f"
  shows "hook_inv (trackPending p (g\<lparr>h_sequence := h_sequence h + 1\<rparr>))"
proof -
  from assms(5) obtain k where k: "h_socket h = Some k" and g: "g = h\<lparr>h_trace := Sent k f # h_trace h\<rparr>"
    by (auto simp: rawSend_def split: option.splits if_splits)
  let ?S = "spoken (h_trace h)"
  from assms(1) have inv: "Ball ?S (numbered (h_sequence h))" "inj_on frame_seq ?S"
      "(\<lambda>e. pf_frame (snd e)) ` set (h_pending h) \<subseteq> ?S"
    by (simp_all add: hook_inv_def hook_ok_def seq_ok_def)
  have "Ball (insert f ?S) (numbered (h_sequence h + 1))"
    using inv(1) assms(4) by (fastforce simp: numbered_def)
  moreover have "inj_on frame_seq (insert f ?S)"
    using inv(1,2) assms(4) by (auto simp: inj_on_insert numbered_def)
  moreover have "(\<lambda>e. pf_frame (snd e)) ` set (map_set (pf_dedup_key p) p (h_pending h)) \<subseteq> insert f ?S"
    using inv(3) assms(6) set_map_set by fastforce
  ultimately show ?thesis
    using assms(1-3,7) k by (simp add: g trackPending_def Let_def hook_inv_def hook_ok_def seq_ok_def spoken_Sent) blast
qed

lemma offline_inv:
  assumes "hook_inv h" "h_trace h' = h_trace h" "h_pending h' = h_pending h" "h_sequence h' = h_sequence h"
    and "\<not> h_admitted h'" "\<not> h_replay h'" "lifecycle_inv (h_lifecycle h')"
    and "\<forall>i. isCurrent (h_lifecycle h') i \<longrightarrow> \<not> h_disposed h' \<and> h_socket h' = Some (h_mounts h', i)"
    and "\<forall>j \<in> recon (h_timers h'). h_reconnect_timer h' = Some j \<and> \<not> h_disposed h' \<and>
        lc_current (h_lifecycle h') = None \<and> \<not> lc_stopped (h_lifecycle h')"
  shows "hook_inv h'"
  using assms by (simp add: hook_inv_def hook_ok_def seq_ok_def) blast

lemma inv_sockets [simp]: "hook_inv (h\<lparr>h_sockets := x\<rparr>) = hook_inv h" "hook_inv (set_ready k r h) = hook_inv h"
  "hook_inv (close_socket k h) = hook_inv h" "hook_inv (h\<lparr>h_admission_timer := t\<rparr>) = hook_inv h"
  by (simp_all add: hook_inv_def hook_ok_def seq_ok_def set_ready_def close_socket_def)

lemma show_none [simp]: "show_effects no_effects h = h"
  by (simp add: show_effects_def no_effects_def)

lemma apply_none [simp]: "apply_effects ops k no_effects h = h"
proof -
  have "ef_send_hello no_effects = False" "ef_admitted no_effects = False" "ef_detach no_effects = False"
    "ef_reconnect_in_ms no_effects = None" "ef_stop no_effects = False"
    by (simp_all add: no_effects_def)
  then show ?thesis by (simp add: apply_effects_def Let_def)
qed

lemma connect_inv: "hook_inv h \<Longrightarrow> \<not> h_admitted h \<Longrightarrow> recon (h_timers h) = {} \<Longrightarrow> hook_inv (connect h)"
proof (cases "h_disposed h")
  case False
  assume "hook_inv h" "\<not> h_admitted h" "recon (h_timers h) = {}"
  with False show ?thesis
    by (simp add: connect_def begin_socket_def hook_inv_def hook_ok_def seq_ok_def lifecycle_inv_def isCurrent_def Let_def)
qed (simp add: connect_def hook_inv_def hook_ok_def seq_ok_def Let_def)

lemma reconnect_inv:
  assumes "hook_inv h" "(j, d, ReconnectTimer) \<in> set (h_timers h)"
  shows "hook_inv (connect (clearTimer j h))"
proof (rule connect_inv)
  from assms(2) have "j \<in> recon (h_timers h)" by (auto simp: recon_def)
  moreover from assms(1) have "\<forall>j \<in> recon (h_timers h). h_reconnect_timer h = Some j \<and> lc_current (h_lifecycle h) = None"
    by (simp add: hook_inv_def hook_ok_def)
  ultimately have "recon (h_timers h) \<subseteq> {j} \<and> lc_current (h_lifecycle h) = None"
    by (metis option.inject singletonI subsetI)
  then show "recon (h_timers (clearTimer j h)) = {}" "\<not> h_admitted (clearTimer j h)"
    using assms(1) by (auto simp: clearTimer_def recon_def hook_inv_def hook_ok_def isAdmitted_def isCurrent_def)
qed (rule quiet_inv [OF quiet_basic(3) assms(1)])

lemma mount_inv:
  assumes "hook_inv h" "h_disposed h"
  shows "hook_inv (mount sid token h)"
proof -
  from assms have none: "recon (h_timers h) = {}" "\<not> h_admitted h" by (auto simp: hook_inv_def hook_ok_def)
  let ?g = "h\<lparr>h_session := sid, h_admitted := False, h_mounts := Suc (h_mounts h), h_disposed := False,
      h_lifecycle := newLifecycle, h_token := nullish token []\<rparr>"
  have "hook_inv ?g"
    by (rule offline_inv [OF assms(1)])
      (use assms none in \<open>simp_all add: hook_inv_def newLifecycle_def lifecycle_inv_def isCurrent_def\<close>)
  with none have "hook_inv (connect ?g)" by (intro connect_inv) simp_all
  moreover have "hook_inv (h\<lparr>h_session := sid, h_status := x\<rparr>)"
    "hook_inv (h\<lparr>h_session := sid, h_admitted := False, h_status := x, h_closed_reason := y\<rparr>)" for x y
    using assms none by (simp_all add: hook_inv_def hook_ok_def seq_ok_def)
  ultimately show ?thesis by (cases sid) (simp_all add: mount_def Let_def)
qed

lemma leave_fields [simp]:
  "h_trace (leave_hook h) = h_trace h" "h_pending (leave_hook h) = h_pending h"
  "h_sequence (leave_hook h) = h_sequence h" "h_admitted (leave_hook h) = False"
  "h_replay (leave_hook h) = h_replay h" "h_lifecycle (leave_hook h) = h_lifecycle h"
  "h_disposed (leave_hook h) = h_disposed h" "h_mounts (leave_hook h) = h_mounts h"
  "h_socket (leave_hook h) = h_socket h" "h_session (leave_hook h) = h_session h"
  by (simp_all add: leave_hook_def clearAdmissionTimer_def clearRef_eq clearHeartbeat_eq)

lemma leave_recon [simp]: "recon (h_timers h) = {} \<Longrightarrow> recon (h_timers (leave_hook h)) = {}"
  by (simp add: leave_hook_def clearAdmissionTimer_def clearRef_eq clearHeartbeat_eq)

lemma detach_fields [simp]:
  "h_trace (detach_hook k h) = h_trace h" "h_pending (detach_hook k h) = h_pending h"
  "h_sequence (detach_hook k h) = h_sequence h" "h_admitted (detach_hook k h) = h_admitted h"
  "h_replay (detach_hook k h) = h_replay h" "h_lifecycle (detach_hook k h) = h_lifecycle h"
  "h_disposed (detach_hook k h) = h_disposed h" "h_mounts (detach_hook k h) = h_mounts h"
  "h_timers (detach_hook k h) = h_timers h" "h_session (detach_hook k h) = h_session h"
  by (simp_all add: detach_hook_def close_socket_def set_ready_def Let_def)

lemma reconnect_fields [simp]:
  "h_trace (schedule_reconnect ops e d h) = h_trace h" "h_pending (schedule_reconnect ops e d h) = h_pending h"
  "h_sequence (schedule_reconnect ops e d h) = h_sequence h" "h_admitted (schedule_reconnect ops e d h) = h_admitted h"
  "h_replay (schedule_reconnect ops e d h) = h_replay h" "h_lifecycle (schedule_reconnect ops e d h) = h_lifecycle h"
  "h_disposed (schedule_reconnect ops e d h) = h_disposed h"
  "h_timers (schedule_reconnect ops e d h) = h_timers h @ [(h_next_timer h, d, ReconnectTimer)]"
  "h_reconnect_timer (schedule_reconnect ops e d h) = Some (h_next_timer h)"
  "h_session (schedule_reconnect ops e d h) = h_session h"
  by (simp_all add: schedule_reconnect_def appendLog_def newId_def setTimer_def Let_def)

lemma show_fields [simp]:
  "h_trace (show_effects e h) = h_trace h" "h_pending (show_effects e h) = h_pending h"
  "h_sequence (show_effects e h) = h_sequence h" "h_replay (show_effects e h) = h_replay h"
  "h_lifecycle (show_effects e h) = h_lifecycle h" "h_disposed (show_effects e h) = h_disposed h"
  "h_timers (show_effects e h) = h_timers h" "h_session (show_effects e h) = h_session h"
  by (simp_all add: show_effects_def)

lemma recon_filter_member:"j \<in> recon (filter P ts) \<Longrightarrow> \<exists>d. (j, d, ReconnectTimer) \<in> set ts \<and> P (j, d, ReconnectTimer)"
  by (auto simp: recon_def)

lemma unmount_inv:
  assumes inv: "hook_inv h"
  shows "hook_inv (unmount h)"
proof -
  let ?h1 = "h\<lparr>h_disposed := True, h_lifecycle := dispose (h_lifecycle h), h_admitted := False, h_admit := None\<rparr>"
  obtain h2 where h2: "h2 = clearAdmissionTimer (clearHeartbeat ?h1)" by blast
  then have q: "quiet ?h1 h2" using quiet_trans [OF quiet_basic(5,6)] by blast
  obtain h3 where h3: "h3 = (clearRef (h_reconnect_timer h2) h2)\<lparr>h_reconnect_timer := None\<rparr>" by blast
  obtain h4 where h4: "h4 = (fold clearTimer (h_clock_timers h3) h3)\<lparr>h_clock_timers := []\<rparr>" by blast
  have r2: "recon (h_timers h2) \<subseteq> recon (h_timers h)" "h_reconnect_timer h2 = h_reconnect_timer h"
    "core h2 = core ?h1" "h_pending h2 = h_pending h" "h_trace h2 = h_trace h"
    using q quiet_fields [OF q]
    by (simp_all add: quiet_def h2 clearAdmissionTimer_def clearRef_eq clearHeartbeat_eq)
  have "recon (h_timers h3) \<subseteq> {j \<in> recon (h_timers h2). h_reconnect_timer h2 \<noteq> Some j}"
    by (auto simp: h3 clearRef_eq recon_def)
  then have "recon (h_timers h3) = {}" using r2(1,2) inv by (fastforce simp: hook_inv_def hook_ok_def)
  then have "recon (h_timers h4) = {}" by (simp add: h4 fold_clearTimer)
  moreover have "core h4 = core (?h1\<lparr>h_reconnect_timer := None\<rparr>)" "h_trace h4 = h_trace h" "h_pending h4 = h_pending h"
    using r2(3-5) by (simp_all add: h4 h3 fold_clearTimer clearRef_eq core_def)
  ultimately have g: "hook_inv h4" "hook_inv (h4\<lparr>h_socket := None\<rparr>)"
    using inv by (auto simp: hook_inv_def hook_ok_def seq_ok_def core_def lifecycle_inv_def isCurrent_def dispose_def)
  moreover have "(close_socket k h4)\<lparr>h_socket := None\<rparr> = close_socket k (h4\<lparr>h_socket := None\<rparr>)" for k
    by (simp add: close_socket_def set_ready_def)
  moreover have "unmount h = (case h_socket h4 of None \<Rightarrow> h4 | Some k \<Rightarrow> (close_socket k h4)\<lparr>h_socket := None\<rparr>)"
    unfolding unmount_def Let_def h2 [symmetric] h3 [symmetric] h4 [symmetric] ..
  ultimately show ?thesis by (simp split: option.splits)
qed

lemma appendLog_fields [simp]:
  "h_trace (appendLog n l t h) = h_trace h" "h_pending (appendLog n l t h) = h_pending h"
  "h_status (appendLog n l t h) = h_status h" "h_timers (appendLog n l t h) = h_timers h"
  "h_next_timer (appendLog n l t h) = h_next_timer h" "h_revision (appendLog n l t h) = h_revision h"
  "h_missed (appendLog n l t h) = h_missed h" "h_detached (appendLog n l t h) = h_detached h"
  "h_ping_timer (appendLog n l t h) = h_ping_timer h" "h_pong_timers (appendLog n l t h) = h_pong_timers h"
  "h_admitted (appendLog n l t h) = h_admitted h" "h_socket (appendLog n l t h) = h_socket h"
  "h_sockets (appendLog n l t h) = h_sockets h" "h_session (appendLog n l t h) = h_session h"
  "h_lifecycle (appendLog n l t h) = h_lifecycle h" "h_sequence (appendLog n l t h) = h_sequence h"
  "h_mounts (appendLog n l t h) = h_mounts h" "h_disposed (appendLog n l t h) = h_disposed h"
  "h_replay (appendLog n l t h) = h_replay h" "h_now (appendLog n l t h) = h_now h"
  by (simp_all add: appendLog_def newId_def Let_def)

lemma startHeartbeat_fields [simp]:
  "h_trace (startHeartbeat k h) = h_trace h" "h_pending (startHeartbeat k h) = h_pending h"
  by (simp_all add: startHeartbeat_def clearHeartbeat_eq setTimer_def)

lemma startProbes_fields [simp]: "h_trace (startProbes h) = h_trace h" "h_pending (startProbes h) = h_pending h"
proof -
  have "h_trace (fold probe_timer ids g) = h_trace g \<and> h_pending (fold probe_timer ids g) = h_pending g"
    for ids and g :: "'a hook_scheme"
    by (induction ids arbitrary: g) (simp_all add: probe_timer_def setTimer_def)
  then show "h_trace (startProbes h) = h_trace h" "h_pending (startProbes h) = h_pending h"
    by (simp_all add: startProbes_def fold_clearTimer Let_def)
qed

lemma send_all_trace:
  "h_socket h = Some k \<Longrightarrow> map_of (h_sockets h) k = Some ReadyOpen \<Longrightarrow>
   send_all fs h = h\<lparr>h_trace := rev (map (Sent k) fs) @ h_trace h\<rparr>"
  by (induction fs arbitrary: h) (simp_all add: rawSend_def)

lemma replay_trace:
  assumes "h_replay h" "h_socket h = Some k" "map_of (h_sockets h) k = Some ReadyOpen"
  shows "h_trace (replayPending n h) = rev (map (\<lambda>e. Sent k (pf_frame (snd e))) (h_pending h)) @ h_trace h"
    and "h_pending (replayPending n h) = h_pending h"
    and "h_admitted (replayPending n h) = h_admitted h"
    and "h_revision (replayPending n h) = h_revision h"
  using assms send_all_trace [of "h\<lparr>h_replay := False\<rparr>" k] by (simp_all add: replayPending_def Let_def o_def)

text \<open>A hook that is over: its lifecycle has stopped and it opens no further socket.\<close>

fun dials :: "wire \<Rightarrow> bool" where
  "dials (Dialed k sid t) = True"
| "dials w = False"

definition calm :: "'m hook_scheme \<Rightarrow> 'm hook_scheme \<Rightarrow> bool" where
  "calm h h' \<longleftrightarrow> lc_stopped (h_lifecycle h') \<and> filter dials (h_trace h') = filter dials (h_trace h)"

lemma calm_refl [simp]: "calm h h = lc_stopped (h_lifecycle h)"
  by (simp add: calm_def)

lemma quiet_calm: "quiet h h' \<Longrightarrow> lc_stopped (h_lifecycle h) \<Longrightarrow> calm h h'"
proof -
  assume q: "quiet h h'" and s: "lc_stopped (h_lifecycle h)"
  from q obtain ws where "h_trace h' = ws @ h_trace h" "list_all chatter ws" by (auto simp: quiet_def)
  moreover have "list_all chatter ws \<Longrightarrow> filter dials ws = []"
    by (induction ws) (auto elim: chatter.elims dials.elims)
  ultimately show ?thesis using quiet_fields [OF q] s by (simp add: calm_def)
qed

lemma calm_trans: "calm h h' \<Longrightarrow> calm h' h'' \<Longrightarrow> calm h h''"
  by (simp add: calm_def)

lemma speech_ok_split: "speech_ok (ws @ Sent k f # us) \<Longrightarrow> interview_frame f \<Longrightarrow> AdmittedOn k \<in> set us"
  by (induction ws) (auto elim: speech_ok.elims)

text \<open>What the invariant says of a run: who was spoken to, and that no number is used twice.\<close>

lemma speech_facts:
  assumes inv: "hook_inv h" and "h_trace h = ws @ Sent k f # us" and "interview_frame f"
  shows "AdmittedOn k \<in> set us"
    and "h_admitted h \<longrightarrow> (\<exists>i. h_socket h = Some (h_mounts h, i) \<and> isAdmitted (h_lifecycle h) i)"
    and "Sent k' g \<in> set (h_trace h) \<Longrightarrow> interview_frame g \<Longrightarrow> frame_seq g = frame_seq f \<Longrightarrow> g = f"
proof -
  from inv have "speech_ok (ws @ Sent k f # us)" using assms(2) by (simp add: hook_inv_def hook_ok_def)
  from speech_ok_split [OF this assms(3)] show "AdmittedOn k \<in> set us" .
  have "Sent k f \<in> set (h_trace h)" using assms(2) by simp
  with assms(3) have "f \<in> spoken (h_trace h)" unfolding spoken_def by blast
  moreover assume "Sent k' g \<in> set (h_trace h)" "interview_frame g" "frame_seq g = frame_seq f"
  moreover from this have "g \<in> spoken (h_trace h)" unfolding spoken_def by blast
  ultimately show "g = f" using inv unfolding hook_inv_def hook_ok_def seq_ok_def inj_on_def by blast
next
  show "h_admitted h \<longrightarrow> (\<exists>i. h_socket h = Some (h_mounts h, i) \<and> isAdmitted (h_lifecycle h) i)"
    using inv unfolding hook_inv_def hook_ok_def by blast
qed

lemma stopped_facts:
  assumes "hook_inv h" "lc_stopped (h_lifecycle h)"
  shows "\<not> h_admitted h" "recon (h_timers h) = {}" "\<not> closure_current k h"
  using assms by (auto simp: hook_inv_def hook_ok_def isAdmitted_def isCurrent_def closure_current_def)

lemma unmount_calm: "calm h (unmount h)"
proof -
  have "h_lifecycle (unmount h) = dispose (h_lifecycle h) \<and> h_trace (unmount h) = h_trace h"
    by (simp add: unmount_def clearAdmissionTimer_def clearRef_eq clearHeartbeat_eq fold_clearTimer close_socket_def
        set_ready_def Let_def split: option.splits)
  then show ?thesis by (simp add: calm_def dispose_def)
qed

text \<open>What goes over the wire is accepted there.\<close>

fun accepted_on_wire :: "wire \<Rightarrow> bool" where
  "accepted_on_wire (Sent k f) = (isEventEnvelope f \<or> isWebSocketControlMessage f)"
| "accepted_on_wire w = True"

lemma trace_accepted: "hook_inv h \<Longrightarrow> list_all accepted_on_wire (h_trace h)"
proof -
  have "speech_ok ws \<Longrightarrow> list_all accepted_on_wire ws" for ws
    by (induction ws rule: speech_ok.induct) (auto simp: valid_frame_def)
  then show "hook_inv h \<Longrightarrow> list_all accepted_on_wire (h_trace h)" by (simp add: hook_inv_def hook_ok_def)
qed

section \<open>The interface to the apps\<close>

text \<open>
  What the shared part asks of an app: its request for a snapshot, its clock sync and what it
  does on a final close do not touch the connection and send nothing of the interview. What
  follows holds for any such app.
\<close>

locale socket_app =
  fixes ops :: "'m hook_scheme hook_ops"
  assumes request_quiet: "quiet h (op_request_snapshot ops h)"
    and sync_quiet: "quiet h (op_clock_sync ops h)"
    and sync_silent: "h_trace (op_clock_sync ops h) = h_trace h \<and> h_pending (op_clock_sync ops h) = h_pending h"
    and stop_quiet: "quiet h (op_stop ops e h)"
begin

lemma opened_exact: "isCurrent (h_lifecycle h) i \<Longrightarrow> apply_call ops k (opened i) h = op_request_snapshot ops h"
  by (cases h) (simp add: apply_call_def opened_def apply_effects_def show_effects_def no_effects_def Let_def)

lemma opened_inv:"hook_inv h \<Longrightarrow> hook_inv (apply_call ops k (opened i) h)"
  by (auto simp: apply_call_def opened_def apply_effects_def no_effects_def show_effects_def Let_def
      intro: quiet_inv [OF request_quiet])

lemma lost_inv:
  assumes "hook_inv h" "lifecycle_inv l" "lc_current l = None" "\<not> lc_stopped l" "recon (h_timers h) = {}" "\<not> h_disposed h"
    and "ef_send_hello e = False" "ef_admitted e = False"
    and "ef_detach e \<or> ef_reconnect_in_ms e \<noteq> None \<or> ef_stop e"
  shows "hook_inv (apply_effects ops k e (h\<lparr>h_lifecycle := l\<rparr>))"
proof -
  let ?h4 = "leave_hook (show_effects e (h\<lparr>h_lifecycle := l\<rparr>))"
  let ?h5 = "if ef_detach e then detach_hook k ?h4 else ?h4"
  let ?h6 = "case ef_reconnect_in_ms e of None \<Rightarrow> ?h5 | Some d \<Rightarrow> schedule_reconnect ops e d ?h5"
  have "hook_inv ?h6"
    by (rule offline_inv [OF assms(1)])
      (use assms in \<open>simp_all add: hook_inv_def isCurrent_def split: option.splits\<close>)
  moreover have "apply_effects ops k e (h\<lparr>h_lifecycle := l\<rparr>) = (if ef_stop e then op_stop ops e ?h6 else ?h6)"
    using assms(7-9) by (simp add: apply_effects_def Let_def)
  ultimately show ?thesis using quiet_inv [OF stop_quiet] by simp
qed

text \<open>A connection that is given up, by a close or a timeout: up to a quiet step the trace and the
  pending frames stay.\<close>

lemma lost_exact:
  assumes "f (h_lifecycle h) = (e, l)" "ef_send_hello e = False" "ef_admitted e = False"
    and "ef_detach e \<or> ef_reconnect_in_ms e \<noteq> None \<or> ef_stop e"
  obtains g where "quiet g (apply_call ops k f h)" "h_trace g = h_trace h" "h_pending g = h_pending h"
    "h_lifecycle g = l" "h_session g = h_session h" "h_disposed g = h_disposed h"
proof -
  let ?h4 = "leave_hook (show_effects e (h\<lparr>h_lifecycle := l\<rparr>))"
  let ?h5 = "if ef_detach e then detach_hook k ?h4 else ?h4"
  let ?h6 = "case ef_reconnect_in_ms e of None \<Rightarrow> ?h5 | Some d \<Rightarrow> schedule_reconnect ops e d ?h5"
  have "apply_call ops k f h = (if ef_stop e then op_stop ops e ?h6 else ?h6)"
    using assms by (simp add: apply_call_def apply_effects_def Let_def)
  then have "quiet ?h6 (apply_call ops k f h)" using stop_quiet by simp
  then show ?thesis by (rule that) (simp_all split: option.splits)
qed

lemma no_retry_while_current: "hook_inv h \<Longrightarrow> isCurrent (h_lifecycle h) i \<Longrightarrow> recon (h_timers h) = {}"
  by (auto simp: hook_inv_def hook_ok_def isCurrent_def)

lemma timedOut_inv:
  assumes "hook_inv h"
  shows "hook_inv (apply_call ops k (timedOut i) h)"
proof (cases "isCurrent (h_lifecycle h) i")
  case True
  obtain e l where f: "timedOut i (h_lifecycle h) = (e, l)" by fastforce
  with True have "lifecycle_inv l" "lc_current l = None" "\<not> lc_stopped l" "ef_send_hello e = False" "ef_admitted e = False"
      "ef_detach e"
    by (auto simp: timedOut_def retry_socket_def no_effects_def lifecycle_inv_def isCurrent_def Let_def)
  moreover from True assms have "\<not> h_disposed h" by (auto simp: hook_inv_def hook_ok_def)
  ultimately show ?thesis using lost_inv [OF assms _ _ _ no_retry_while_current [OF assms True]] f
    by (simp add: apply_call_def)
next
  case False
  with assms show ?thesis by (simp add: apply_call_def timedOut_def)
qed

lemma onopen_inv: "hook_inv h \<Longrightarrow> hook_inv (socket_onopen ops k h)"
proof -
  assume "hook_inv h"
  then have "hook_inv (appendLog (op_log ops) LogInfo OpenWaiting (set_ready k ReadyOpen h))"
    by (intro quiet_inv [OF quiet_basic(2)]) simp
  from quiet_inv [OF quiet_setTimer this] have
    "hook_inv ((snd (setTimer (AdmissionTimer k) ADMISSION_TIMEOUT_MS
        (appendLog (op_log ops) LogInfo OpenWaiting (set_ready k ReadyOpen h))))\<lparr>h_admission_timer := t\<rparr>)" for t
    by simp
  from opened_inv [OF this] \<open>hook_inv h\<close> show ?thesis
    by (simp add: socket_onopen_def Let_def split_def)
qed

lemma onclose_inv: "hook_inv h \<Longrightarrow> hook_inv (socket_onclose ops k code reason h)"
proof (cases "closure_current k (set_ready k ReadyClosed h)")
  case True
  let ?h = "set_ready k ReadyClosed h"
  assume inv: "hook_inv h"
  let ?f = "closed (snd k) code reason"
  obtain e l where f: "?f (h_lifecycle h) = (e, l)" by fastforce
  from True have cur: "isCurrent (h_lifecycle h) (snd k)" "\<not> h_disposed h" "fst k = h_mounts h"
    by (simp_all add: closure_current_def set_ready_def)
  with inv have s: "h_socket h = Some k" by (cases k) (simp add: hook_inv_def hook_ok_def)
  have l: "lc_current l = None" "lifecycle_inv l" "ef_send_hello e = False" "ef_admitted e = False"
    "ef_detach e \<or> ef_reconnect_in_ms e \<noteq> None \<or> ef_stop e" "ef_reconnect_in_ms e \<noteq> None \<Longrightarrow> \<not> lc_stopped l"
    using f cur by (auto simp: closed_def retry_socket_def no_effects_def lifecycle_inv_def isCurrent_def Let_def split: if_splits)
  let ?h4 = "leave_hook (show_effects e (?h\<lparr>h_socket := None, h_lifecycle := l\<rparr>))"
  let ?h6 = "case ef_reconnect_in_ms e of None \<Rightarrow> ?h4 | Some d \<Rightarrow> schedule_reconnect ops e d ?h4"
  have "ef_detach e = False"
    using f cur by (auto simp: closed_def retry_socket_def no_effects_def Let_def split: if_splits)
  with l(5) have eq: "apply_call ops k ?f (?h\<lparr>h_socket := None\<rparr>) = (if ef_stop e then op_stop ops e ?h6 else ?h6)"
    using f l(3,4) by (simp add: apply_call_def apply_effects_def Let_def) (simp add: set_ready_def)
  have "hook_inv ?h6"
    by (rule offline_inv [OF inv])
      (use inv l cur no_retry_while_current [OF inv cur(1)] in
        \<open>simp_all add: hook_inv_def set_ready_def isCurrent_def split: option.splits\<close>)
  moreover have "h_socket ?h = Some k" using s by (simp add: set_ready_def)
  ultimately show ?thesis using eq True quiet_inv [OF stop_quiet]
    by (simp add: socket_onclose_def Let_def)
qed (simp add: socket_onclose_def Let_def)

text \<open>An admission: the hook counts as admitted, on the socket whose snapshot arrived, and the
  replay is due; nothing of the interview was sent yet.\<close>

lemma admit_ok:
  assumes "hook_inv h" "closure_current k h"
  shows "hook_ok (admit_socket ops k h)"
    and "admit_socket ops k h = h \<or>
      h_admitted (admit_socket ops k h) \<and> h_replay (admit_socket ops k h) \<and>
      (\<exists>ws. h_trace (admit_socket ops k h) = ws @ AdmittedOn k # h_trace h \<and> list_all chatter ws) \<and>
      set (h_pending (admit_socket ops k h)) \<subseteq> set (h_pending h)"
proof -
  let ?l = "h_lifecycle h" and ?h' = "admit_socket ops k h"
  obtain e l where f: "snapshot (snd k) ?l = (e, l)" by fastforce
  have "?h' = h" if "\<not> (h_admit h = Some (snd k) \<and> lc_admitted_id ?l \<noteq> Some (snd k) \<and> isCurrent ?l (snd k))"
    using that by (simp add: admit_socket_def apply_call_def snapshot_def) blast
  then consider "?h' = h" | "h_admit h = Some (snd k)" "lc_admitted_id ?l \<noteq> Some (snd k)" "isCurrent ?l (snd k)"
    by blast
  then have "hook_ok ?h' \<and> (?h' = h \<or> h_admitted ?h' \<and> h_replay ?h' \<and>
      (\<exists>ws. h_trace ?h' = ws @ AdmittedOn k # h_trace h \<and> list_all chatter ws) \<and>
      set (h_pending ?h') \<subseteq> set (h_pending h))"
  proof cases
    case 1
    with assms show ?thesis by (simp add: hook_inv_def)
  next
    case 2
    let ?g = "show_effects e (h\<lparr>h_lifecycle := l\<rparr>)"
    let ?g1 = "(clearAdmissionTimer ?g)\<lparr>h_admitted := True, h_replay := True\<rparr>"
    let ?g2 = "?g1\<lparr>h_trace := AdmittedOn k # h_trace ?g1\<rparr>"
    have e: "ef_send_hello e = False" "ef_admitted e" "ef_detach e = False" "ef_reconnect_in_ms e = None"
      "ef_stop e = False" and l: "l = ?l\<lparr>lc_admitted_id := Some (snd k), lc_ever_admitted := True, lc_attempt := 0\<rparr>"
      using f 2 by (auto simp: snapshot_def no_effects_def)
    from f 2 e have eq: "?h' = startHeartbeat k (op_clock_sync ops (appendLog (op_log ops) LogInfo AdmittedLog ?g2))"
      by (simp add: admit_socket_def apply_call_def apply_effects_def admit_hook_def Let_def)
    then have q: "quiet ?g2 ?h'"
      using quiet_trans [OF quiet_trans [OF quiet_basic(2) sync_quiet] quiet_startHeartbeat] by simp
    from assms have k: "k = (h_mounts h, snd k)" "\<not> h_disposed h" by (auto simp: closure_current_def prod_eq_iff)
    with assms 2 have s: "h_socket h = Some k" by (auto simp: hook_inv_def hook_ok_def)
    have li: "lifecycle_inv l" using assms 2 by (auto simp: l hook_inv_def hook_ok_def lifecycle_inv_def isCurrent_def)
    have cur: "isCurrent l i \<longleftrightarrow> i = snd k" and adm: "isAdmitted l (snd k)" for i
      using 2(3) by (auto simp: l isCurrent_def isAdmitted_def)
    have "hook_ok ?g2"
      using assms(1) s k li cur adm no_retry_while_current [OF assms(1) 2(3)]
      by (auto simp: hook_inv_def hook_ok_def seq_ok_def clearAdmissionTimer_def clearRef_eq show_effects_def)
    with q have "hook_ok ?h'" by (rule quiet_ok)
    moreover have "h_admitted ?h'" "h_replay ?h'" using quiet_fields [OF q] by simp_all
    moreover have "h_trace ?g2 = AdmittedOn k # h_trace h" "h_pending ?g2 = h_pending h"
      by (simp_all add: clearAdmissionTimer_def clearRef_eq)
    ultimately show ?thesis using q by (auto simp: quiet_def)
  qed
  then show "hook_ok ?h'"
    and "?h' = h \<or> h_admitted ?h' \<and> h_replay ?h' \<and>
      (\<exists>ws. h_trace ?h' = ws @ AdmittedOn k # h_trace h \<and> list_all chatter ws) \<and>
      set (h_pending ?h') \<subseteq> set (h_pending h)" by blast+
qed

lemma admit_exact:
  assumes "closure_current k h" "h_admit h = Some (snd k)" "lc_admitted_id (h_lifecycle h) \<noteq> Some (snd k)"
  defines "h' \<equiv> admit_socket ops k h"
  shows "h_trace h' = AdmittedOn k # h_trace h" "h_pending h' = h_pending h" "h_admitted h'" "h_replay h'"
    "h_socket h' = h_socket h" "h_sockets h' = h_sockets h" "h_session h' = h_session h"
proof -
  let ?l = "h_lifecycle h"
  obtain e l where f: "snapshot (snd k) ?l = (e, l)" by fastforce
  let ?g = "show_effects e (h\<lparr>h_lifecycle := l\<rparr>)"
  let ?g1 = "(clearAdmissionTimer ?g)\<lparr>h_admitted := True, h_replay := True\<rparr>"
  let ?g2 = "?g1\<lparr>h_trace := AdmittedOn k # h_trace ?g1\<rparr>"
  from assms(1) have cur: "isCurrent ?l (snd k)" by (simp add: closure_current_def)
  have e: "ef_send_hello e = False" "ef_admitted e" "ef_detach e = False" "ef_reconnect_in_ms e = None" "ef_stop e = False"
    using f cur assms(3) by (auto simp: snapshot_def no_effects_def)
  from f e assms(2) have eq: "h' = startHeartbeat k (op_clock_sync ops (appendLog (op_log ops) LogInfo AdmittedLog ?g2))"
    by (simp add: h'_def admit_socket_def apply_call_def apply_effects_def admit_hook_def Let_def)
  then have "quiet ?g2 h'"
    using quiet_trans [OF quiet_trans [OF quiet_basic(2) sync_quiet] quiet_startHeartbeat] by simp
  from quiet_fields [OF this] show "h_admitted h'" "h_replay h'" "h_socket h' = h_socket h" "h_sockets h' = h_sockets h"
    "h_session h' = h_session h"
    by (simp_all add: show_effects_def clearAdmissionTimer_def clearRef_eq)
  show "h_trace h' = AdmittedOn k # h_trace h" "h_pending h' = h_pending h"
    unfolding eq using sync_silent by (simp_all add: clearAdmissionTimer_def clearRef_eq)
qed

text \<open>A lost connection: the socket is dropped at once and the reconnect is due after the backoff.\<close>

lemma timedOut_exact:
  assumes "isCurrent (h_lifecycle h) (snd k)" "h_socket h = Some k"
  defines "h' \<equiv> apply_call ops k (timedOut (snd k)) h"
  shows "h_socket h' = None" "k \<in> set (h_detached h')" "\<not> h_admitted h'" "h_status h' = CsReconnecting"
    "h_ping_timer h' = None" "h_pong_timers h' = []" "h_trace h' = h_trace h" "h_pending h' = h_pending h"
    "\<exists>t. h_reconnect_timer h' = Some t \<and> (t, backoff (lc_attempt (h_lifecycle h)), ReconnectTimer) \<in> set (h_timers h')"
proof -
  let ?l = "h_lifecycle h"
  obtain e l where f: "timedOut (snd k) ?l = (e, l)" by fastforce
  let ?g = "leave_hook (show_effects e (h\<lparr>h_lifecycle := l\<rparr>))"
  have e: "ef_send_hello e = False" "ef_admitted e = False" "ef_detach e" "ef_stop e = False"
    "ef_reconnect_in_ms e = Some (backoff (lc_attempt ?l))" "ef_status e = Some LsReconnecting"
    using f assms(1) by (auto simp: timedOut_def retry_socket_def no_effects_def Let_def)
  from f e have eq: "h' = schedule_reconnect ops e (backoff (lc_attempt ?l)) (detach_hook k ?g)"
    by (simp add: h'_def apply_call_def apply_effects_def Let_def)
  have d: "h_socket (detach_hook k ?g) = None" "k \<in> set (h_detached (detach_hook k ?g))"
    "h_status (detach_hook k ?g) = CsReconnecting" "h_ping_timer (detach_hook k ?g) = None"
    "h_pong_timers (detach_hook k ?g) = []"
    using assms(2) e
    by (simp_all add: detach_hook_def close_socket_def set_ready_def leave_hook_def clearAdmissionTimer_def clearRef_eq
        clearHeartbeat_eq show_effects_def Let_def)
  show "h_socket h' = None" "k \<in> set (h_detached h')" "h_status h' = CsReconnecting" "h_ping_timer h' = None"
    "h_pong_timers h' = []"
    using d unfolding eq schedule_reconnect_def Let_def
    by (simp_all add: setTimer_def split_def appendLog_def newId_def)
  show "\<not> h_admitted h'" "h_trace h' = h_trace h" "h_pending h' = h_pending h"
    "\<exists>t. h_reconnect_timer h' = Some t \<and> (t, backoff (lc_attempt ?l), ReconnectTimer) \<in> set (h_timers h')"
    by (simp_all add: eq)
qed

lemma pong_expires_inv: "hook_inv h \<Longrightarrow> hook_inv (pong_expires ops k p h)"
proof -
  let ?h1 = "h\<lparr>h_pong_timers := map_delete p (h_pong_timers h), h_missed := Suc (h_missed h)\<rparr>"
  assume "hook_inv h"
  then have "hook_inv ?h1" "hook_inv (?h1\<lparr>h_status := CsDegraded\<rparr>)"
    by (simp_all add: hook_inv_def hook_ok_def seq_ok_def)
  then show ?thesis
    by (auto simp: pong_expires_def Let_def intro: timedOut_inv quiet_inv [OF quiet_basic(2)])
qed

text \<open>After a final close nothing happens on the sockets any more.\<close>

lemma stopped_handlers:
  assumes "lc_stopped (h_lifecycle h)"
  shows "calm h (socket_onopen ops k h)" "calm h (socket_onclose ops k code reason h)"
    "calm h (admission_expires ops k h)" "calm h (pong_expires ops k p h)"
proof -
  have stale: "\<not> isCurrent (h_lifecycle h) i" for i using assms by (simp add: isCurrent_def)
  then have "calm h (apply_call ops k (timedOut i) g)" if "h_lifecycle g = h_lifecycle h" "h_trace g = h_trace h" for i g
    using that assms by (simp add: apply_call_def timedOut_def calm_def)
  then show "calm h (admission_expires ops k h)" "calm h (pong_expires ops k p h)"
    using assms by (simp_all add: admission_expires_def pong_expires_def Let_def) (simp_all add: calm_def)
  show "calm h (socket_onopen ops k h)" "calm h (socket_onclose ops k code reason h)"
    using stale assms
    by (simp_all add: socket_onopen_def socket_onclose_def closure_current_def set_ready_def close_socket_def
        calm_def Let_def)
qed

lemma admission_expires_inv: "hook_inv h \<Longrightarrow> hook_inv (admission_expires ops k h)"
  by (simp add: admission_expires_def timedOut_inv Let_def)

end

text \<open>An app together with all its steps: what holds of every run.\<close>

locale socket_machine = socket_app ops for ops :: "'m hook_scheme hook_ops" +
  fixes step :: "'c socket_event \<Rightarrow> 'm hook_scheme \<Rightarrow> 'm hook_scheme"
  assumes step_inv: "hook_inv h \<Longrightarrow> can_happen ev h \<Longrightarrow> hook_inv (step ev h)"
    and step_calm: "hook_inv h \<Longrightarrow> lc_stopped (h_lifecycle h) \<Longrightarrow> can_happen ev h \<Longrightarrow> \<not> remounts ev \<Longrightarrow>
      calm h (step ev h)"
begin

lemma run_inv: "hook_inv h \<Longrightarrow> hook_inv (hook_run step evs h)"
  by (induction evs arbitrary: h) (simp_all add: step_inv)

lemma stopped_run:
  "hook_inv h \<Longrightarrow> lc_stopped (h_lifecycle h) \<Longrightarrow> list_all (\<lambda>ev. \<not> remounts ev) evs \<Longrightarrow>
   calm h (hook_run step evs h)"
proof (induction evs arbitrary: h)
  case (Cons ev evs)
  let ?h = "if can_happen ev h then step ev h else h"
  from step_calm [OF Cons.prems(1,2)] Cons.prems(2,3) have c: "calm h ?h" by (simp add: calm_def)
  moreover have "hook_inv ?h" using step_inv Cons.prems(1) by simp
  ultimately have "calm ?h (hook_run step evs ?h)" using Cons.IH Cons.prems(3) by (simp add: calm_def)
  with c show ?case by (simp add: calm_def)
qed (simp add: calm_def)

lemma final_close_run:
  assumes inv: "hook_inv h" and "closure_current k h" "final_close code" "list_all (\<lambda>ev. \<not> remounts ev) later"
    and h'_def: "h' = hook_run step later (socket_onclose ops k code reason h)"
  shows "filter dials (h_trace h') = filter dials (h_trace h)" "\<not> h_admitted h'"
proof -
  let ?g = "socket_onclose ops k code reason h" and ?r = "set_ready k ReadyClosed h"
  have g: "hook_inv ?g" using inv by (rule onclose_inv)
  have cur: "closure_current k ?r" "isCurrent (h_lifecycle h) (snd k)"
    using assms(2) by (simp_all add: closure_current_def set_ready_def)
  obtain e l where f: "closed (snd k) code reason (h_lifecycle h) = (e, l)" by fastforce
  with cur(2) assms(3) retryable_iff [of code reason] have e: "ef_send_hello e = False" "ef_admitted e = False"
      "ef_reconnect_in_ms e = None" "ef_stop e" "ef_detach e = False" "lc_stopped l"
    by (auto simp: closed_def no_effects_def Let_def)
  let ?s = "if h_socket ?r = Some k then ?r\<lparr>h_socket := None\<rparr> else ?r"
  let ?x = "leave_hook (show_effects e (?s\<lparr>h_lifecycle := l\<rparr>))"
  have "?g = op_stop ops e ?x"
    using cur(1) f e by (simp add: socket_onclose_def apply_call_def apply_effects_def Let_def)
      (simp add: set_ready_def)
  with quiet_calm [OF stop_quiet [of ?x e]] e(6) have "calm ?x ?g" by simp
  moreover have "h_trace ?x = h_trace h" by (simp add: set_ready_def)
  ultimately have c: "lc_stopped (h_lifecycle ?g)" "filter dials (h_trace ?g) = filter dials (h_trace h)"
    by (simp_all add: calm_def)
  from stopped_run [OF g c(1) assms(4)] have "calm ?g h'" by (simp add: h'_def)
  moreover have "hook_inv h'" unfolding h'_def by (rule run_inv [OF g])
  ultimately show "filter dials (h_trace h') = filter dials (h_trace h)" "\<not> h_admitted h'"
    using c(2) stopped_facts(1) by (auto simp: calm_def)
qed

end

end
