(* ===== verification/ClockSync.thy ===== *)
theory ClockSync
  imports SocketHook
begin

text \<open>
  How good the clock offset of the two hooks is (ADR-0003, \<open>docs/adr/0003-time-sync.md\<close>): the
  sampling, the choice of the samples with the shortest round trips, and the rounded median.
\<close>

lemma median_between:
  assumes "vs \<noteq> []" "\<forall>v \<in> set vs. a \<le> v \<and> v \<le> b"
  shows "a \<le> median vs \<and> median vs \<le> b"
proof -
  let ?s = "sort vs" and ?mid = "length (sort vs) div 2"
  have inside: "a \<le> ?s ! i \<and> ?s ! i \<le> b" if "i < length vs" for i
    using assms(2) nth_mem [of i ?s] that by simp
  from assms(1) have "?mid < length vs" "?mid - 1 < length vs" by ((cases vs; simp)+)
  from inside [OF this(1)] inside [OF this(2)] show ?thesis by (simp add: median_def Let_def)
qed

lemma sort_key_nth_mono: "i \<le> j \<Longrightarrow> j < length xs \<Longrightarrow> f (sort_key f xs ! i) \<le> f (sort_key f xs ! j)"
  using sorted_nth_mono [of "map f (sort_key f xs)" i j] by simp

lemma best_have_short_round_trips:
  assumes "CLOCK_SYNC_KEEP_LOWEST \<le> length (filter (\<lambda>c. rtt_ms c \<le> r) samples)" "c \<in> set (best_samples samples)"
  shows "rtt_ms c \<le> r"
proof (rule ccontr)
  let ?s = "sort_key rtt_ms samples" and ?k = CLOCK_SYNC_KEEP_LOWEST
  assume c: "\<not> rtt_ms c \<le> r"
  from assms(2) obtain i where i: "i < ?k" "i < length samples" "?s ! i = c"
    by (auto simp: best_samples_def in_set_conv_nth)
  have "filter (\<lambda>c. rtt_ms c \<le> r) (drop i ?s) = []"
  proof -
    have "\<not> rtt_ms x \<le> r" if "x \<in> set (drop i ?s)" for x
    proof -
      from that obtain j where "j < length (drop i ?s)" "drop i ?s ! j = x" by (auto simp: in_set_conv_nth)
      moreover from this have "i + j < length samples" by simp
      ultimately show ?thesis using sort_key_nth_mono [of i "i + j" samples rtt_ms] i c by auto
    qed
    then show ?thesis by (simp add: filter_empty_conv)
  qed
  then have "length (filter (\<lambda>c. rtt_ms c \<le> r) ?s) = length (filter (\<lambda>c. rtt_ms c \<le> r) (take i ?s))"
    by (metis append_Nil2 append_take_drop_id filter_append)
  also have "\<dots> \<le> i" using length_filter_le [of "\<lambda>c. rtt_ms c \<le> r" "take i ?s"] by simp
  finally have "length (filter (\<lambda>c. rtt_ms c \<le> r) ?s) < ?k" using i(1) by simp
  with assms(1) show False by (simp add: filter_sort)
qed

text \<open>A sample is honest about the server's offset when the request and the answer took some
  time, each at least none.\<close>

definition honest :: "rat \<Rightarrow> clock_sample \<Rightarrow> bool" where
  "honest theta c \<longleftrightarrow>
     (\<exists>t0 s1 s2 t3. c = clock_sample_of t0 s1 s2 t3 \<and> t0 + theta \<le> s1 \<and> s2 \<le> t3 + theta)"

lemma honest_error: "honest theta c \<Longrightarrow> theta - rtt_ms c / 2 \<le> offset_ms c \<and> offset_ms c \<le> theta + rtt_ms c / 2"
  by (auto simp: honest_def clock_sample_of_def field_simps)

text \<open>
  C26: the clock offset is good although some probes were slow. If every sample is of a probe
  that left after it was sent and arrived before it was answered, and at least five of them had a
  round trip of at most \<open>r\<close>, then the offset the hook uses and reports differs from the server's
  true offset by at most half of \<open>r\<close> and the rounding, however slow the other probes were; and
  the reported round trip is at most \<open>r\<close> and the rounding.
\<close>

theorem clock_offset_error:
  assumes "\<forall>c \<in> set samples. honest theta c"
    and "CLOCK_SYNC_KEEP_LOWEST \<le> length (filter (\<lambda>c. rtt_ms c \<le> r) samples)"
  shows "(case clock_estimate samples of (off, rtt) \<Rightarrow>
    \<bar>of_int off - theta\<bar> \<le> r / 2 + 1 / 2 \<and> of_int rtt \<le> r + 1 / 2)"
proof -
  let ?best = "best_samples samples"
  have "samples \<noteq> []" using assms(2) by (auto simp: CLOCK_SYNC_KEEP_LOWEST_def)
  then have "0 < length ?best" by (simp add: best_samples_def CLOCK_SYNC_KEEP_LOWEST_def)
  then have ne: "?best \<noteq> []" by blast
  have sub: "set ?best \<subseteq> set samples" by (auto simp: best_samples_def dest: in_set_takeD)
  have c: "theta - r / 2 \<le> offset_ms c \<and> offset_ms c \<le> theta + r / 2 \<and> rtt_ms c \<le> r" if "c \<in> set ?best" for c
    using honest_error [of theta c] best_have_short_round_trips [OF assms(2) that] assms(1) sub that
    by (auto intro: order_trans)
  from c have o: "theta - r / 2 \<le> median (map offset_ms ?best) \<and> median (map offset_ms ?best) \<le> theta + r / 2"
    by (intro median_between) (use ne in auto)
  obtain m where m: "\<forall>v \<in> set (map rtt_ms ?best). m \<le> v"
    using finite_set [of "map rtt_ms ?best"] by (meson Min_le)
  with c ne have t: "median (map rtt_ms ?best) \<le> r" by (intro median_between [THEN conjunct2, of _ m]) auto
  have near: "of_int (js_round x) \<le> x + 1 / 2" "x - 1 / 2 \<le> of_int (js_round x)" for x
    using js_round_near [of x] by (simp_all only: abs_le_iff) linarith+
  from o t near [of "median (map offset_ms ?best)"] near [of "median (map rtt_ms ?best)"]
  have "of_int (js_round (median (map offset_ms ?best))) - theta \<le> r / 2 + 1 / 2"
    "theta - of_int (js_round (median (map offset_ms ?best))) \<le> r / 2 + 1 / 2"
    "of_int (js_round (median (map rtt_ms ?best))) \<le> r + 1 / 2" by linarith+
  then show ?thesis by (simp add: clock_estimate_def Let_def abs_le_iff)
qed

definition example_samples :: "clock_sample list" where
  "example_samples = map (\<lambda>d. clock_sample_of 1000 (1500 + d) (1501 + d) (1001 + 2 * d)) [5, 6, 7, 400, 5, 6, 900, 800, 700]"

theorem clock_offset_error_witness:
  "(case clock_estimate example_samples of (off, rtt) \<Rightarrow>
    \<bar>of_int off - 500\<bar> \<le> (14 :: rat) / 2 + 1 / 2 \<and> of_int rtt \<le> (14 :: rat) + 1 / 2)"
proof (rule clock_offset_error)
  show "\<forall>c \<in> set example_samples. honest 500 c"
    by (fastforce simp: example_samples_def honest_def)
  show "CLOCK_SYNC_KEEP_LOWEST \<le> length (filter (\<lambda>c. rtt_ms c \<le> 14) example_samples)"
    by (simp add: example_samples_def clock_sample_of_def CLOCK_SYNC_KEEP_LOWEST_def)
qed

end
