(* ===== verification/StudentSocket.thy ===== *)
theory StudentSocket
  imports SocketHook
begin

text \<open>
  \<open>apps/student/src/useStudentSocket.ts\<close>: the socket hook of the student, on top of what it
  shares with the wizard's (\<open>SocketHook\<close>). Every handler of the hook is a function of the hook's
  state, and \<open>student_event\<close> is everything that can happen to it.
\<close>

section \<open>State\<close>

definition STUDENT_ROLE :: string where "STUDENT_ROLE = ''student''"
definition STUDENT_LOG_ENTRIES :: nat where "STUDENT_LOG_ENTRIES = 80"

record session_view =
  sv_snapshot_revision :: rat
  sv_session_state :: session_state
  sv_playback_state :: playback_state
  sv_active_clip :: "string option"
  sv_character_state :: string
  sv_cooperation_level :: rat
  sv_revealed_facts :: "string list"
  sv_consecutive_fallbacks :: rat
  sv_start_at_server_ms :: "rat option"
  sv_pause_reason :: "string option"

definition INITIAL_SESSION_VIEW :: session_view where
  "INITIAL_SESSION_VIEW =
     \<lparr>sv_snapshot_revision = 0, sv_session_state = StCreated, sv_playback_state = PbIdle,
      sv_active_clip = None, sv_character_state = ''neutral'', sv_cooperation_level = 0,
      sv_revealed_facts = [], sv_consecutive_fallbacks = 0, sv_start_at_server_ms = None,
      sv_pause_reason = None\<rparr>"

record student = hook +
  st_view :: session_view
  st_current_clip :: "string option"
  st_report_sent :: bool
  st_start_timer :: "nat option"

text \<open>The hook as it is first rendered, in a browser with this clock and these random ids.\<close>

definition initial_student :: "ms \<Rightarrow> rat \<Rightarrow> (nat \<Rightarrow> string) \<Rightarrow> student" where
  "initial_student now performance uuid =
     \<lparr>h_session = None, h_now = now, h_performance = performance, h_uuid = uuid, h_drawn = 0,
      h_sockets = [], h_detached = [], h_timers = [], h_next_timer = 0, h_trace = [],
      h_mounts = 0, h_disposed = True, h_lifecycle = newLifecycle, h_token = [],
      h_status = CsIdle, h_closed_reason = None, h_notice = None,
      h_clock = \<lparr>ck_offset_ms = None, ck_rtt_ms = None, ck_sample_count = 0\<rparr>,
      h_last_ack = None, h_pending_count = 0, h_log = [],
      h_socket = None, h_reconnect_timer = None, h_admission_timer = None, h_admitted = False,
      h_admit = None, h_ping_timer = None, h_pong_timers = [], h_missed = 0,
      h_samples = [], h_probe_sent = [], h_clock_offset = None, h_clock_timers = [],
      h_sequence = 0, h_last_acked = -1, h_pending = [], h_revision = 0, h_replay = False,
      st_view = INITIAL_SESSION_VIEW, st_current_clip = None, st_report_sent = False,
      st_start_timer = None\<rparr>"

abbreviation slog :: "log_level \<Rightarrow> log_text \<Rightarrow> student \<Rightarrow> student" where
  "slog \<equiv> appendLog STUDENT_LOG_ENTRIES"

definition set_view :: "(session_view \<Rightarrow> session_view) \<Rightarrow> student \<Rightarrow> student" where
  "set_view f h = h\<lparr>st_view := f (st_view h)\<rparr>"

section \<open>Sending\<close>

definition payloadString :: "json \<Rightarrow> string \<Rightarrow> string option" where
  "payloadString payload key = text_of (field payload key)"

definition payloadNumber :: "json \<Rightarrow> string \<Rightarrow> rat option" where
  "payloadNumber payload key = number_of (field payload key)"

definition requestSnapshot :: "student \<Rightarrow> student" where
  "requestSnapshot h =
     (case h_session h of
        None \<Rightarrow> h
      | Some sid \<Rightarrow> snd (rawSend (reconnect_hello sid STUDENT_ROLE h) h))"

text \<open>The key the server deduplicates by is the event's id, which the hook draws itself.\<close>

definition sendEnvelope :: "event_type \<Rightarrow> (string \<times> json) list \<Rightarrow> student \<Rightarrow> student" where
  "sendEnvelope e payload h =
     (case h_session h of
        None \<Rightarrow> h
      | Some sid \<Rightarrow>
          let sequence = h_sequence h;
              (eventId, h1) = newId ''evt'' h;
              frame = envelope sid STUDENT_ROLE sequence (h_now h1) e ((''event_id'', JStr eventId) # payload);
              (ok, h2) = (if h_admitted h1 then rawSend frame h1 else (False, h1))
          in if \<not> ok then slog LogWarn (NotSent (Some e)) h2
             else trackPending
               \<lparr>pf_dedup_key = eventId, pf_event_type = Some e, pf_sequence = sequence, pf_frame = frame,
                pf_short_lived = False\<rparr>
               (h2\<lparr>h_sequence := sequence + 1\<rparr>))"

definition sendClipStarted :: "string \<Rightarrow> student \<Rightarrow> student" where
  "sendClipStarted clipId = sendEnvelope ClipStarted [(''clip_id'', JStr clipId)]"

definition sendClipEnded :: "string \<Rightarrow> student \<Rightarrow> student" where
  "sendClipEnded clipId h =
     set_view (\<lambda>v. v\<lparr>sv_playback_state := PbIdle, sv_active_clip := None\<rparr>)
       ((sendEnvelope ClipEnded [(''clip_id'', JStr clipId)] h)\<lparr>st_current_clip := None\<rparr>)"

definition sendRecordingStarted :: "student \<Rightarrow> student" where
  "sendRecordingStarted = sendEnvelope RecordingStarted []"

definition sendRecordingStopped :: "string option \<Rightarrow> student \<Rightarrow> student" where
  "sendRecordingStopped reason =
     sendEnvelope RecordingStopped
       (if truthy reason then [(''reason'', JStr (nullish reason []))] else [])"

definition sendChunkUploaded :: "int \<Rightarrow> ms \<Rightarrow> student \<Rightarrow> student" where
  "sendChunkUploaded chunkIndex timestampMs =
     sendEnvelope ChunkUploadedEvent
       [(''chunk_index'', JNum (of_int chunkIndex)), (''timestamp_ms'', JNum (of_int timestampMs))]"

section \<open>The scheduled start\<close>

definition clearScheduledStart :: "student \<Rightarrow> student" where
  "clearScheduledStart h = (clearRef (st_start_timer h) h)\<lparr>st_start_timer := None\<rparr>"

definition start_delay :: "rat \<Rightarrow> ms \<Rightarrow> int option \<Rightarrow> ms" where
  "start_delay startAtServerMs now off = max 0 (js_round (startAtServerMs - of_int (now + nullish off 0)))"

definition scheduleLocalStart :: "rat \<Rightarrow> student \<Rightarrow> student" where
  "scheduleLocalStart startAtServerMs h =
     (let h1 = set_view (\<lambda>v. v\<lparr>sv_session_state := StStarting, sv_start_at_server_ms := Some startAtServerMs\<rparr>)
            (clearScheduledStart h);
          delay = start_delay startAtServerMs (h_now h1) (h_clock_offset h1);
          (t, h2) = setTimer StartTimer delay h1
      in slog LogInfo (ScheduledIn delay) (h2\<lparr>st_start_timer := Some t\<rparr>))"

definition start_fires :: "student \<Rightarrow> student" where
  "start_fires h =
     (set_view (\<lambda>v. v\<lparr>sv_session_state := StActive, sv_start_at_server_ms := None\<rparr>) h)\<lparr>st_start_timer := None\<rparr>"

section \<open>Snapshots and broadcasts\<close>

definition view_snapshot :: "session_snapshot_message \<Rightarrow> bool \<Rightarrow> session_view \<Rightarrow> session_view" where
  "view_snapshot m shouldSchedule v = v\<lparr>
     sv_snapshot_revision := sn_snapshot_revision m,
     sv_session_state := sn_session_state m,
     sv_playback_state := sn_playback_state m,
     sv_active_clip := sn_active_clip m,
     sv_character_state := sn_character_state m,
     sv_cooperation_level := sn_cooperation_level m,
     sv_revealed_facts := sn_revealed_facts m,
     sv_consecutive_fallbacks := sn_consecutive_fallbacks m,
     sv_start_at_server_ms := (if shouldSchedule then sn_start_at_server_ms m else None),
     sv_pause_reason := (if sn_session_state m = StPaused then sv_pause_reason v else None)\<rparr>"

definition applySnapshot :: "session_snapshot_message \<Rightarrow> student \<Rightarrow> student" where
  "applySnapshot m h =
     (let h1 = h\<lparr>h_revision := sn_snapshot_revision m\<rparr>;
          shouldSchedule = (sn_session_state m = StStarting \<and> sn_start_at_server_ms m \<noteq> None);
          h2 = (case sn_start_at_server_ms m of
                  Some t \<Rightarrow> if shouldSchedule then scheduleLocalStart t h1 else clearScheduledStart h1
                | None \<Rightarrow> clearScheduledStart h1);
          h3 = (set_view (view_snapshot m shouldSchedule) h2)
                 \<lparr>st_current_clip := (if sn_playback_state m = PbPlaying then sn_active_clip m else None)\<rparr>
      in replayPending STUDENT_LOG_ENTRIES h3)"

definition view_broadcast :: "event_type \<Rightarrow> json \<Rightarrow> session_view \<Rightarrow> session_view" where
  "view_broadcast e payload v =
     (if e = SessionStarted then v\<lparr>sv_session_state := StStarting\<rparr>
      else if e = SessionPaused then
        v\<lparr>sv_session_state := StPaused, sv_pause_reason := payloadString payload ''reason''\<rparr>
      else if e = SessionResumed then
        v\<lparr>sv_session_state := StActive, sv_pause_reason := None, sv_start_at_server_ms := None\<rparr>
      else if e = SessionEnded then v\<lparr>sv_session_state := StEnded\<rparr>
      else if e \<in> {ClipCommand, ClipStarted} then
        v\<lparr>sv_playback_state := PbPlaying, sv_active_clip := payloadString payload ''clip_id''\<rparr>
      else if e = FallbackUsed then
        v\<lparr>sv_playback_state := PbPlaying, sv_active_clip := payloadString payload ''resolved_clip_id'',
          sv_consecutive_fallbacks :=
            nullish (payloadNumber payload ''consecutive_fallbacks'') (sv_consecutive_fallbacks v)\<rparr>
      else if e \<in> {ClipEnded, ClipInterrupted, ReturnToIdle} then
        v\<lparr>sv_playback_state := PbIdle, sv_active_clip := None\<rparr>
      else v)"

definition applyBroadcastEnvelope :: "event_type \<Rightarrow> json \<Rightarrow> student \<Rightarrow> student" where
  "applyBroadcastEnvelope e payload h =
     (let h1 = set_view (view_broadcast e payload) h
      in if e \<in> {ClipCommand, ClipStarted} then h1\<lparr>st_current_clip := payloadString payload ''clip_id''\<rparr>
         else if e = FallbackUsed then h1\<lparr>st_current_clip := payloadString payload ''resolved_clip_id''\<rparr>
         else if e \<in> {ClipEnded, ClipInterrupted, ReturnToIdle} then h1\<lparr>st_current_clip := None\<rparr>
         else h1)"

section \<open>Acknowledgements\<close>

definition handleAck :: "event_ack_message \<Rightarrow> student \<Rightarrow> student" where
  "handleAck m h =
     (let (pending, h1) = ack_pending m h
      in case pending of
           Some p \<Rightarrow>
             if ak_status m = Accepted then
               (if bumps_revision (pf_event_type p) then requestSnapshot h1 else h1)
             else if ak_status m = Rejected then slog LogWarn (RejectedLog (nullish (ak_reason m) ''unknown'')) h1
             else h1
         | None \<Rightarrow>
             if ak_status m = Rejected then slog LogWarn (RejectedLog (nullish (ak_reason m) ''unknown'')) h1
             else h1)"

section \<open>Clock sync\<close>

definition startClockSync :: "student \<Rightarrow> student" where
  "startClockSync h = startProbes (h\<lparr>st_report_sent := False\<rparr>)"

definition handleClockSyncResponse :: "clock_sync_response_message \<Rightarrow> student \<Rightarrow> student" where
  "handleClockSyncResponse m h =
     (case probe_t0 m h of
        None \<Rightarrow> h
      | Some t0 \<Rightarrow>
          if st_report_sent h \<or> length (h_samples h) \<ge> CLOCK_SYNC_SAMPLES then h
          else
            let h1 = take_sample m t0 h
            in if length (h_samples h1) < CLOCK_SYNC_SAMPLES then h1
               else
                 let (off, rtt) = clock_estimate (h_samples h1);
                     h2 = h1\<lparr>h_clock_offset := Some off, st_report_sent := True,
                       h_clock := \<lparr>ck_offset_ms = Some off, ck_rtt_ms = Some rtt,
                         ck_sample_count = int CLOCK_SYNC_SAMPLES\<rparr>\<rparr>
                 in slog LogInfo (ClockSynced off rtt)
                      (snd (rawSend (offset_report off CLOCK_SYNC_SAMPLES rtt) h2)))"

section \<open>The hook\<close>

definition student_stop :: "socket_effects \<Rightarrow> student \<Rightarrow> student" where
  "student_stop e = slog LogError (ClosedLog (nullish (nullish (ef_closed_reason e) None) ''unknown''))"

definition student_ops :: "student hook_ops" where
  "student_ops = \<lparr>op_request_snapshot = requestSnapshot, op_clock_sync = startClockSync,
     op_stop = student_stop, op_log = STUDENT_LOG_ENTRIES\<rparr>"

definition student_control :: "sock \<Rightarrow> json \<Rightarrow> string \<Rightarrow> student \<Rightarrow> student" where
  "student_control k m t h =
     (if t = ''pong'' then handlePong (text_of (field m ''ping_id'')) h
      else if t = ''event_ack'' then handleAck (as_event_ack m) h
      else if t = ''session_snapshot'' then
        applySnapshot (as_session_snapshot m) (admit_socket student_ops k h)
      else if t = ''clock_sync_response'' then handleClockSyncResponse (as_clock_sync_response m) h
      else if t = ''session_start_scheduled'' then scheduleLocalStart (number_at m ''start_at_server_ms'') h
      else if t = ''role_connection_replaced'' then slog LogWarn (RoleReplacedLog (text_at m ''role'')) h
      else if t = ''fallback_threshold_reached'' then
        (let streak = (case field m ''payload'' of None \<Rightarrow> 0 | Some p \<Rightarrow> number_at p ''consecutive_fallbacks'')
         in slog LogWarn (ThresholdLog streak)
              (set_view (\<lambda>v. v\<lparr>sv_consecutive_fallbacks := streak\<rparr>) h))
      else h)"

definition handleMessage :: "sock \<Rightarrow> json option \<Rightarrow> student \<Rightarrow> student" where
  "handleMessage k raw h =
     (case raw of
        None \<Rightarrow> slog LogWarn Unparsable h
      | Some m \<Rightarrow>
          if isWebSocketControlMessage m then student_control k m (nullish (text_of (controlMessageType m)) []) h
          else if isEventEnvelope m then
            let e = as_event_envelope m; t = nullish (ev_event_type e) SessionCreated;
                h1 = applyBroadcastEnvelope t (ev_payload e) h;
                h2 = (if t \<in> set REVISION_BUMPING_EVENTS then requestSnapshot h1 else h1)
            in slog LogInfo (ReceivedLog t) h2
          else h)"

definition student_unmount :: "student \<Rightarrow> student" where
  "student_unmount h = clearScheduledStart (unmount h)"

definition timer_fires :: "nat \<times> ms \<times> timer \<Rightarrow> student \<Rightarrow> student" where
  "timer_fires e h =
     (case e of (i, delay, t) \<Rightarrow>
        (case t of
           PingTimer k \<Rightarrow> ping_fires k h
         | ReconnectTimer \<Rightarrow> connect (clearTimer i h)
         | AdmissionTimer k \<Rightarrow> admission_expires student_ops k (clearTimer i h)
         | PongTimer k p \<Rightarrow> pong_expires student_ops k p (clearTimer i h)
         | ProbeTimer \<Rightarrow> probe_fires (clearTimer i h)
         | StartTimer \<Rightarrow> start_fires (clearTimer i h)
         | _ \<Rightarrow> clearTimer i h))"

text \<open>The calls of the app, and everything that can happen to the hook.\<close>

datatype student_call =
    SendClipStarted string | SendClipEnded string | SendRecordingStarted
  | SendRecordingStopped "string option" | SendChunkUploaded int ms

fun call_student :: "student_call \<Rightarrow> student \<Rightarrow> student" where
  "call_student (SendClipStarted c) = sendClipStarted c"
| "call_student (SendClipEnded c) = sendClipEnded c"
| "call_student SendRecordingStarted = sendRecordingStarted"
| "call_student (SendRecordingStopped r) = sendRecordingStopped r"
| "call_student (SendChunkUploaded i t) = sendChunkUploaded i t"

definition student_event :: "student_call socket_event \<Rightarrow> student \<Rightarrow> student" where
  "student_event ev h =
     (case ev of
        Mount sid token \<Rightarrow> mount sid token h
      | Unmount \<Rightarrow> student_unmount h
      | SocketOpens k \<Rightarrow> socket_onopen student_ops k h
      | Receives k m \<Rightarrow> if closure_current k h then handleMessage k m h else h
      | SocketErrs k \<Rightarrow> socket_onerror STUDENT_LOG_ENTRIES h
      | SocketCloses k code reason \<Rightarrow> socket_onclose student_ops k code reason h
      | TimerFires e \<Rightarrow> timer_fires e h
      | TimePasses d p \<Rightarrow> pass_time d p h
      | App c \<Rightarrow> call_student c h)"

abbreviation student_run :: "student_call socket_event list \<Rightarrow> student \<Rightarrow> student" where
  "student_run \<equiv> hook_run student_event"

text \<open>\<open>admitted\<close> in the value that the hook returns.\<close>

definition shown_admitted :: "student \<Rightarrow> bool" where
  "shown_admitted h \<longleftrightarrow> h_status h \<in> {CsOpen, CsDegraded}"

section \<open>The student is such an app\<close>

lemma quiet_requestSnapshot: "quiet h (requestSnapshot h)"
  by (simp add: requestSnapshot_def quiet_send STUDENT_ROLE_def ROLE_VALUES_def split: option.splits)

lemma quiet_startClockSync: "quiet h (startClockSync h)"
  unfolding startClockSync_def
  by (rule quiet_trans [OF _ quiet_startProbes]) (simp add: quiet_silent core_def)

lemma startClockSync_silent: "h_trace (startClockSync h) = h_trace h" "h_pending (startClockSync h) = h_pending h"
  by (simp_all add: startClockSync_def)

interpretation student_app: socket_app student_ops
  by unfold_locales
    (simp_all add: student_ops_def student_stop_def quiet_requestSnapshot quiet_startClockSync quiet_basic
      startClockSync_silent)

lemma quiet_set_view: "quiet h (set_view f h)"
  by (simp add: set_view_def quiet_silent core_def)

lemma quiet_clearScheduledStart: "quiet h (clearScheduledStart h)"
  by (rule quiet_silent) (simp_all add: clearScheduledStart_def clearRef_eq core_def recon_filter)

lemma quiet_scheduleLocalStart: "quiet h (scheduleLocalStart t h)"
proof -
  let ?h1 = "set_view (\<lambda>v. v\<lparr>sv_session_state := StStarting, sv_start_at_server_ms := Some t\<rparr>) (clearScheduledStart h)"
  have q: "quiet h ?h1" by (rule quiet_trans [OF quiet_clearScheduledStart quiet_set_view])
  let ?d = "start_delay t (h_now ?h1) (h_clock_offset ?h1)"
  obtain i h2 where h2: "setTimer StartTimer ?d ?h1 = (i, h2)" by fastforce
  with quiet_setTimer [where t = StartTimer and d = ?d and h = ?h1] have "quiet ?h1 h2" by simp
  from quiet_trans [OF q this] have "quiet h (h2\<lparr>st_start_timer := Some i\<rparr>)"
    by (rule quiet_update) (simp_all add: core_def)
  from quiet_trans [OF this quiet_basic(2)] show ?thesis
    unfolding scheduleLocalStart_def Let_def h2 prod.case .
qed

lemma quiet_start_fires: "quiet h (start_fires h)"
  by (simp add: start_fires_def set_view_def quiet_silent core_def)

lemma quiet_handleAck: "quiet h (handleAck m h)"
  unfolding handleAck_def Let_def split_def
  by (auto split: option.splits
      intro: quiet_trans [OF quiet_ack quiet_requestSnapshot] quiet_trans [OF quiet_ack quiet_basic(2)] quiet_ack)

lemma quiet_clock: "quiet h (handleClockSyncResponse m h)"
proof (cases "probe_t0 m h")
  case (Some t0)
  have t: "quiet h (take_sample m t0 h)" by (simp add: take_sample_def quiet_silent core_def)
  have "quiet h (snd (rawSend (offset_report a n b) ((take_sample m t0 h)\<lparr>h_clock_offset := x, st_report_sent := True, h_clock := c\<rparr>)))"
    for a n b c x
    by (rule quiet_trans [OF _ quiet_send]) (simp_all add: quiet_silent core_def take_sample_def)
  from quiet_trans [OF this quiet_basic(2)] t Some show ?thesis
    by (auto simp: handleClockSyncResponse_def Let_def split_def)
qed (simp add: handleClockSyncResponse_def)

lemma quiet_broadcast: "quiet h (applyBroadcastEnvelope e p h)"
  by (rule quiet_silent) (simp_all add: applyBroadcastEnvelope_def set_view_def core_def Let_def)

lemma applySnapshot_inv: "hook_ok h \<Longrightarrow> hook_inv (applySnapshot m h)"
proof -
  assume ok: "hook_ok h"
  let ?h1 = "h\<lparr>h_revision := sn_snapshot_revision m\<rparr>"
  let ?s = "sn_session_state m = StStarting \<and> sn_start_at_server_ms m \<noteq> None"
  let ?h2 = "case sn_start_at_server_ms m of
      Some t \<Rightarrow> if ?s then scheduleLocalStart t ?h1 else clearScheduledStart ?h1
    | None \<Rightarrow> clearScheduledStart ?h1"
  have "quiet h ?h1" by (simp add: quiet_silent core_def)
  then have "quiet h ?h2"
    by (auto split: option.splits intro: quiet_trans [OF _ quiet_scheduleLocalStart] quiet_trans [OF _ quiet_clearScheduledStart])
  from quiet_trans [OF this quiet_set_view [of _ "view_snapshot m ?s"]] have
    "quiet h ((set_view (view_snapshot m ?s) ?h2)\<lparr>st_current_clip := c\<rparr>)" for c
    by (rule quiet_update) (simp_all add: core_def)
  from replay_inv [OF quiet_ok [OF this ok]] show ?thesis unfolding applySnapshot_def Let_def .
qed

lemma message_inv:
  assumes "hook_inv h" "closure_current k h"
  shows "hook_inv (handleMessage k raw h)"
proof (cases raw)
  case None
  with assms show ?thesis by (simp add: handleMessage_def quiet_inv [OF quiet_basic(2)])
next
  case (Some m)
  have "hook_inv (student_control k m t h)" for t
    unfolding student_control_def Let_def
    by (simp add: quiet_inv [OF quiet_basic(7) assms(1)] quiet_inv [OF quiet_handleAck assms(1)]
        quiet_inv [OF quiet_clock assms(1)] quiet_inv [OF quiet_scheduleLocalStart assms(1)]
        quiet_inv [OF quiet_basic(2) assms(1)] quiet_inv [OF quiet_trans [OF quiet_set_view quiet_basic(2)] assms(1)]
        applySnapshot_inv [OF student_app.admit_ok(1) [OF assms]] assms(1))
  moreover have "quiet h (if b then requestSnapshot (applyBroadcastEnvelope e p h) else applyBroadcastEnvelope e p h)" for b e p
    using quiet_broadcast quiet_trans [OF quiet_broadcast quiet_requestSnapshot] by simp
  from quiet_inv [OF quiet_trans [OF this quiet_basic(2)] assms(1)]
  have "hook_inv (slog l w (if b then requestSnapshot (applyBroadcastEnvelope e p h) else applyBroadcastEnvelope e p h))"
    for b e p l w .
  ultimately show ?thesis using assms Some by (simp add: handleMessage_def Let_def)
qed

lemma student_frame:
  "isEventEnvelope (envelope sid STUDENT_ROLE n t e fs)" "frame_seq (envelope sid STUDENT_ROLE n t e fs) = Some (of_int n)"
  by (simp_all add: envelope_accepted envelope_seq STUDENT_ROLE_def SOURCE_VALUES_def)

lemma sendEnvelope_inv: "hook_inv h \<Longrightarrow> hook_inv (sendEnvelope e fs h)"
proof (cases "h_session h")
  case (Some sid)
  assume inv: "hook_inv h"
  obtain eid h1 where id: "newId ''evt'' h = (eid, h1)" by fastforce
  with quiet_basic(1) [of h "''evt''"] have q: "quiet h h1" by simp
  then have inv1: "hook_inv h1" using inv by (rule quiet_inv)
  from q have s: "h_sequence h1 = h_sequence h" using quiet_fields by blast
  let ?f = "envelope sid STUDENT_ROLE (h_sequence h) (h_now h1) e ((''event_id'', JStr eid) # fs)"
  let ?p = "\<lparr>pf_dedup_key = eid, pf_event_type = Some e, pf_sequence = h_sequence h, pf_frame = ?f, pf_short_lived = False\<rparr>"
  obtain ok h2 where r: "(if h_admitted h1 then rawSend ?f h1 else (False, h1)) = (ok, h2)" by fastforce
  show ?thesis
  proof (cases ok)
    case True
    with r have "h_admitted h1" "rawSend ?f h1 = (True, h2)" by (auto split: if_splits)
    from post_inv [OF inv1 this(1) _ _ this(2), of ?p] s student_frame
    have "hook_inv (trackPending ?p (h2\<lparr>h_sequence := h_sequence h + 1\<rparr>))"
      by (simp add: interview_frame_def valid_frame_def)
    with True r id Some show ?thesis by (simp add: sendEnvelope_def Let_def)
  next
    case False
    with r have "h2 = h1" by (auto simp: rawSend_def split: if_splits option.splits)
    with False r id Some inv1 show ?thesis
      by (simp add: sendEnvelope_def Let_def quiet_inv [OF quiet_basic(2)])
  qed
qed (simp add: sendEnvelope_def)

lemma initial_inv: "hook_inv (initial_student now perf uuid)"
  by (simp add: initial_student_def hook_inv_def hook_ok_def seq_ok_def lifecycle_inv_def newLifecycle_def
      isCurrent_def spoken_def)

lemma timer_inv:
  assumes "hook_inv h" "e \<in> set (h_timers h)"
  shows "hook_inv (timer_fires e h)"
proof -
  obtain j d t where e: "e = (j, d, t)" by (cases e) auto
  have c: "quiet h (clearTimer j h)" by (rule quiet_basic)
  show ?thesis
  proof (cases t)
    case ReconnectTimer
    with e reconnect_inv [OF assms(1)] assms(2) show ?thesis by (auto simp: timer_fires_def)
  qed (simp_all add: timer_fires_def e quiet_inv [OF c assms(1)] quiet_inv [OF quiet_ping assms(1)]
      student_app.admission_expires_inv student_app.pong_expires_inv
      quiet_inv [OF quiet_trans [OF c quiet_probe] assms(1)] quiet_inv [OF quiet_trans [OF c quiet_start_fires] assms(1)])
qed

lemma quiet_clip_gone: "quiet g (set_view f (g\<lparr>st_current_clip := None\<rparr>))"
  by (rule quiet_trans [OF quiet_silent quiet_set_view]) (simp_all add: core_def)

lemma sendClipEnded_inv: "hook_inv h \<Longrightarrow> hook_inv (sendClipEnded c h)"
  unfolding sendClipEnded_def by (blast intro: quiet_inv quiet_clip_gone sendEnvelope_inv)

lemma event_inv: "hook_inv h \<Longrightarrow> can_happen ev h \<Longrightarrow> hook_inv (student_event ev h)"
proof -
  assume inv: "hook_inv h" and can: "can_happen ev h"
  have "hook_inv (call_student c h)" for c
    by (cases c) (simp_all add: inv sendClipEnded_inv sendEnvelope_inv sendClipStarted_def sendRecordingStarted_def
      sendRecordingStopped_def sendChunkUploaded_def)
  with inv can show ?thesis
    by (cases ev) (simp_all add: quiet_inv [OF quiet_pass_time] student_event_def can_happen_def mount_inv
      student_unmount_def unmount_inv quiet_inv [OF quiet_clearScheduledStart] student_app.onopen_inv
      student_app.onclose_inv message_inv socket_onerror_def quiet_inv [OF quiet_basic(2)] timer_inv)
qed

lemma sendEnvelope_refused: "\<not> h_admitted h \<Longrightarrow> quiet h (sendEnvelope e fs h)"
proof (cases "h_session h")
  case (Some sid)
  assume "\<not> h_admitted h"
  then have n: "\<not> h_admitted (snd (newId ''evt'' h))" by (simp add: newId_def)
  have "quiet h (slog LogWarn (NotSent (Some e)) (snd (newId ''evt'' h)))"
    by (rule quiet_trans [OF quiet_basic(1,2)])
  with n show ?thesis by (simp add: sendEnvelope_def Some Let_def split_def)
qed (simp add: sendEnvelope_def)

lemma stopped_event:
  assumes "hook_inv h" "lc_stopped (h_lifecycle h)" "can_happen ev h" "\<not> remounts ev"
  shows "calm h (student_event ev h)"
proof -
  note q = quiet_calm [OF _ assms(2)] and f = stopped_facts [OF assms(1,2)]
  have c: "calm h (clearTimer i h)" "lc_stopped (h_lifecycle (clearTimer i h))" for i
    using q [OF quiet_basic(3)] assms(2) by (simp_all add: clearTimer_def)
  note s = calm_trans [OF c(1) student_app.stopped_handlers(3) [OF c(2)]]
    calm_trans [OF c(1) student_app.stopped_handlers(4) [OF c(2)]]
  have clip: "quiet h (sendClipEnded x h)" for x
    unfolding sendClipEnded_def by (rule quiet_trans [OF sendEnvelope_refused [OF f(1)] quiet_clip_gone])
  have timer: "calm h (timer_fires e h)" if "e \<in> set (h_timers h)" for e
  proof -
    obtain i d t where e: "e = (i, d, t)" by (cases e) auto
    with that f(2) have "t \<noteq> ReconnectTimer" by (auto simp: recon_def)
    then show ?thesis
      by (cases t) (simp_all add: e timer_fires_def s c q [OF quiet_ping]
        q [OF quiet_trans [OF quiet_basic(3) quiet_probe]] q [OF quiet_trans [OF quiet_basic(3) quiet_start_fires]])
  qed
  have app: "quiet h (call_student x h)" for x
    by (cases x) (simp_all add: clip sendEnvelope_refused [OF f(1)] sendClipStarted_def sendRecordingStarted_def
      sendRecordingStopped_def sendChunkUploaded_def)
  have "calm h (clearScheduledStart (unmount h))"
    using unmount_calm [of h] by (simp add: calm_def clearScheduledStart_def clearRef_eq)
  with assms(2-4) show ?thesis
    by (cases ev) (simp_all add: student_event_def student_unmount_def can_happen_def timer f(3) q [OF app]
      student_app.stopped_handlers socket_onerror_def q [OF quiet_basic(2)] q [OF quiet_pass_time])
qed

interpretation student_machine: socket_machine student_ops student_event
  by unfold_locales (simp_all add: event_inv stopped_event)

section \<open>Properties\<close>

text \<open>
  C6: the student speaks only when admitted, and never twice under one number. In every run of
  the hook, whatever sockets open, close, time out or answer late, and whatever the app sends:
  an event is only ever sent on a socket whose snapshot had admitted the student before; the
  server has admitted the current socket while the hook counts as admitted; and two events sent
  with the same sequence number are the same frame, so that a resent event is recognised as the
  one the server has.
\<close>

theorem student_speaks_only_when_admitted:
  assumes "h = student_run evs (initial_student now perf uuid)"
    and "h_trace h = ws @ Sent k f # us" and "isEventEnvelope f"
  shows "AdmittedOn k \<in> set us \<and>
    (h_admitted h \<longrightarrow> (\<exists>i. h_socket h = Some (h_mounts h, i) \<and> isAdmitted (h_lifecycle h) i)) \<and>
    (\<forall>k' g. Sent k' g \<in> set (h_trace h) \<and> isEventEnvelope g \<and> frame_seq g = frame_seq f \<longrightarrow> g = f)"
proof -
  have "hook_inv h" using student_machine.run_inv [OF initial_inv] by (simp add: assms(1))
  moreover have "interview_frame f" using assms(3) by (simp add: interview_frame_def)
  ultimately show ?thesis
    using speech_facts [of h ws k f us] assms(2) by (auto simp: interview_frame_def)
qed

definition example_script :: "student_call socket_event list" where
  "example_script =
     [Mount (Some ''S1'') (Some ''tok''), SocketOpens (1, 1), Receives (1, 1) (Some example_snapshot),
      App (SendClipStarted ''C01'')]"

definition example_student :: student where
  "example_student = initial_student 1000 0 decimal"

definition example_frame :: json where
  "example_frame = envelope ''S1'' ''student'' 0 1000 ClipStarted
     [(''event_id'', JStr ''evt-2''), (''clip_id'', JStr ''C01'')]"

lemma example_trace:
  "h_trace (student_run example_script example_student) =
     [] @ Sent (1, 1) example_frame #
     [AdmittedOn (1, 1), Sent (1, 1) (reconnect_hello ''S1'' ''student'' example_student), Dialed (1, 1) ''S1'' ''tok'']"
  by code_simp

theorem student_speaks_only_when_admitted_witness:
  "AdmittedOn (1, 1) \<in> set [AdmittedOn (1, 1), Sent (1, 1) (reconnect_hello ''S1'' ''student'' example_student),
     Dialed (1, 1) ''S1'' ''tok'']"
proof -
  have "isEventEnvelope example_frame" by code_simp
  from student_speaks_only_when_admitted [OF _ example_trace this, of example_script 1000 0 decimal]
  show ?thesis by (simp add: example_student_def)
qed

text \<open>
  The other end understands the student. In every run, whatever arrives and whatever is sent,
  each frame the hook puts on a socket passes the guards of the shared package: it is an event
  envelope with the fields that the envelope must have, or a control message with those of its
  type.
\<close>

theorem student_frames_accepted:
  "list_all accepted_on_wire (h_trace (student_run evs (initial_student now perf uuid)))"
  by (rule trace_accepted [OF student_machine.run_inv [OF initial_inv]])

lemma applySnapshot_replays:
  assumes "h_replay h" "h_socket h = Some k" "map_of (h_sockets h) k = Some ReadyOpen" "h_admitted h"
  shows "h_trace (applySnapshot m h) = rev (map (\<lambda>e. Sent k (pf_frame (snd e))) (h_pending h)) @ h_trace h \<and>
    h_pending (applySnapshot m h) = h_pending h \<and> h_admitted (applySnapshot m h) \<and>
    h_revision (applySnapshot m h) = sn_snapshot_revision m"
proof -
  let ?same = "\<lambda>g g' :: student. h_trace g' = h_trace g \<and> h_pending g' = h_pending g \<and> h_replay g' = h_replay g \<and>
      h_socket g' = h_socket g \<and> h_sockets g' = h_sockets g \<and> h_revision g' = h_revision g \<and> h_admitted g' = h_admitted g"
  have c: "?same g (clearScheduledStart g)" for g by (simp add: clearScheduledStart_def clearRef_eq)
  have v: "?same g (set_view f g)" for f g by (simp add: set_view_def)
  have t: "?same g (snd (setTimer x d g))" for x d g by (simp add: setTimer_def)
  have l: "?same g (scheduleLocalStart a g)" for a g
    unfolding scheduleLocalStart_def Let_def split_def using c [of g] v t by simp
  obtain h3 where h3: "applySnapshot m h = replayPending STUDENT_LOG_ENTRIES h3" "?same (h\<lparr>h_revision := sn_snapshot_revision m\<rparr>) h3"
  proof (rule that)
    let ?h1 = "h\<lparr>h_revision := sn_snapshot_revision m\<rparr>"
    let ?s = "sn_session_state m = StStarting \<and> sn_start_at_server_ms m \<noteq> None"
    let ?h2 = "case sn_start_at_server_ms m of
        Some t \<Rightarrow> if ?s then scheduleLocalStart t ?h1 else clearScheduledStart ?h1
      | None \<Rightarrow> clearScheduledStart ?h1"
    show "applySnapshot m h = replayPending STUDENT_LOG_ENTRIES ((set_view (view_snapshot m ?s) ?h2)
        \<lparr>st_current_clip := (if sn_playback_state m = PbPlaying then sn_active_clip m else None)\<rparr>)"
      unfolding applySnapshot_def Let_def ..
    show "?same ?h1 ((set_view (view_snapshot m ?s) ?h2)
        \<lparr>st_current_clip := (if sn_playback_state m = PbPlaying then sn_active_clip m else None)\<rparr>)"
      using c [of ?h1] l [of _ ?h1] v by (simp split: option.splits)
  qed
  with assms replay_trace [of h3 k STUDENT_LOG_ENTRIES] show ?thesis by simp
qed

text \<open>
  Snapshot first, then the replay. When the first snapshot of a socket arrives, the student is
  admitted on it; the snapshot's revision is taken over; and only then every frame that was not
  acknowledged goes out again on this socket, each once, unchanged and in the order it was sent
  before. The frames stay pending until they are acknowledged.
\<close>

theorem first_snapshot_replays_pending:
  assumes "h = student_run evs (initial_student now perf uuid)"
    and "closure_current k h" "h_admit h = Some (snd k)" "lc_admitted_id (h_lifecycle h) \<noteq> Some (snd k)"
    and "map_of (h_sockets h) k = Some ReadyOpen"
    and "isWebSocketControlMessage m" "controlMessageType m = Some (JStr ''session_snapshot'')"
  shows "let h' = handleMessage k (Some m) h in
     h_trace h' = rev (map (\<lambda>e. Sent k (pf_frame (snd e))) (h_pending h)) @ AdmittedOn k # h_trace h \<and>
     h_pending h' = h_pending h \<and> h_admitted h' \<and>
     h_revision h' = sn_snapshot_revision (as_session_snapshot m)"
proof -
  have "hook_inv h" using student_machine.run_inv [OF initial_inv] by (simp add: assms(1))
  with assms(2) have s: "h_socket h = Some k"
    by (cases k) (simp add: hook_inv_def hook_ok_def closure_current_def)
  note a = student_app.admit_exact [OF assms(2-4)]
  have "handleMessage k (Some m) h = applySnapshot (as_session_snapshot m) (admit_socket student_ops k h)"
    using assms(6,7) by (simp add: handleMessage_def student_control_def)
  with applySnapshot_replays [of "admit_socket student_ops k h" k "as_session_snapshot m"] a s assms(5)
  show ?thesis by (simp add: Let_def)
qed

text \<open>The connection is lost with a frame pending, and comes back.\<close>

definition reconnect_script :: "student_call socket_event list" where
  "reconnect_script = example_script @
     [SocketCloses (1, 1) 1006 [], TimerFires (11, 1000, ReconnectTimer), SocketOpens (1, 2)]"

lemma reconnected:
  "(let h = student_run reconnect_script example_student in
    (closure_current (1, 2) h, h_admit h, lc_admitted_id (h_lifecycle h), map_of (h_sockets h) (1, 2),
     map (\<lambda>e. pf_frame (snd e)) (h_pending h))) =
   (True, Some 2, None, Some ReadyOpen, [example_frame])"
  by code_simp

theorem first_snapshot_replays_pending_witness:
  "let h = student_run reconnect_script example_student;
       h' = handleMessage (1, 2) (Some example_snapshot) h in
     h_trace h' = Sent (1, 2) example_frame # AdmittedOn (1, 2) # h_trace h \<and> h_admitted h'"
proof -
  let ?h = "student_run reconnect_script example_student"
  have m: "controlMessageType example_snapshot = Some (JStr ''session_snapshot'')" by code_simp
  have r: "closure_current (1, 2) ?h" "h_admit ?h = Some (snd (1, 2))" "lc_admitted_id (h_lifecycle ?h) \<noteq> Some (snd (1, 2))"
    "map_of (h_sockets ?h) (1, 2) = Some ReadyOpen" "map (\<lambda>e. pf_frame (snd e)) (h_pending ?h) = [example_frame]"
    using reconnected by (simp_all add: Let_def)
  then have "rev (map (\<lambda>e. Sent (1, 2) (pf_frame (snd e))) (h_pending ?h)) = [Sent (1, 2) example_frame]"
    by (cases "h_pending ?h") simp_all
  with first_snapshot_replays_pending [OF refl, of "(1, 2)" reconnect_script 1000 0 decimal example_snapshot,
      folded example_student_def, OF r(1-4) example_snapshot_accepted m]
  show ?thesis by (simp add: Let_def)
qed

text \<open>
  The heartbeat. On an admitted connection, a ping whose answer does not come in time counts
  as missed: the first and the second leave the connection as it is and show it as degraded; the
  third in a row drops the socket at once, without waiting for its close event, takes the
  admission and the heartbeat with it, and asks for a new connection in one second.
\<close>

theorem third_missed_pong_reconnects:
  assumes "h = student_run evs (initial_student now perf uuid)"
    and "closure_current k h" "isAdmitted (h_lifecycle h) (snd k)"
  shows "let h' = timer_fires (i, d, PongTimer k p) h in
     (if h_missed h < 2
      then h_status h' = CsDegraded \<and> h_missed h' = Suc (h_missed h) \<and> h_socket h' = Some k \<and>
        h_admitted h' = h_admitted h
      else h_socket h' = None \<and> k \<in> set (h_detached h') \<and> \<not> h_admitted h' \<and> h_status h' = CsReconnecting \<and>
        h_ping_timer h' = None \<and> h_pong_timers h' = [] \<and> h_pending h' = h_pending h \<and>
        (\<exists>t. h_reconnect_timer h' = Some t \<and> (t, 1000, ReconnectTimer) \<in> set (h_timers h')))"
proof -
  have inv: "hook_inv h" using student_machine.run_inv [OF initial_inv] by (simp add: assms(1))
  with assms(2) have s: "h_socket h = Some k" "fst k = h_mounts h"
    by (cases k; simp add: hook_inv_def hook_ok_def closure_current_def)+
  from inv assms(3) have a: "lc_attempt (h_lifecycle h) = 0"
    by (auto simp: hook_inv_def hook_ok_def lifecycle_inv_def isAdmitted_def isCurrent_def)
  let ?c = "clearTimer i h"
  let ?h1 = "?c\<lparr>h_pong_timers := map_delete p (h_pong_timers ?c), h_missed := Suc (h_missed ?c)\<rparr>"
  let ?h2 = "appendLog STUDENT_LOG_ENTRIES LogError HeartbeatLost ?h1"
  have b: "backoff 0 = 1000" by (simp add: backoff_def SOCKET_BACKOFF_MS_def)
  have eq: "timer_fires (i, d, PongTimer k p) h =
      (if h_missed h < 2 then ?h1\<lparr>h_status := CsDegraded\<rparr> else apply_call student_ops k (timedOut (snd k)) ?h2)"
    using s(2) by (auto simp: timer_fires_def pong_expires_def MAX_MISSED_HEARTBEATS_def student_ops_def clearTimer_def Let_def)
  have "isCurrent (h_lifecycle ?h2) (snd k)" "h_socket ?h2 = Some k" "lc_attempt (h_lifecycle ?h2) = 0"
    "h_pending ?h2 = h_pending h"
    using assms(2) s a by (simp_all add: closure_current_def clearTimer_def)
  with student_app.timedOut_exact [of ?h2 k] show ?thesis
    unfolding Let_def eq by (simp add: b clearTimer_def s)
qed

lemma example_admitted:
  "(let h = student_run example_script example_student in
    (closure_current (1, 1) h, isAdmitted (h_lifecycle h) 1, h_missed h)) = (True, True, 0)"
  by code_simp

theorem third_missed_pong_reconnects_witness:
  "h_status (timer_fires (11, 5000, PongTimer (1, 1) ''ping-7'') (student_run example_script example_student)) = CsDegraded"
proof -
  let ?h = "student_run example_script example_student"
  have "closure_current (1, 1) ?h" "isAdmitted (h_lifecycle ?h) (snd (1, 1))" "h_missed ?h = 0"
    using example_admitted by (simp_all add: Let_def)
  with third_missed_pong_reconnects [OF refl, of "(1, 1)" example_script 1000 0 decimal 11 5000 "''ping-7''",
      folded example_student_def]
  show ?thesis by (simp add: Let_def)
qed



end
