(* ===== verification/SessionStart.thy ===== *)
theory SessionStart
  imports Messages
begin

text \<open>
  \<open>apps/wizard/src/sessionStart.ts\<close>: when the wizard may start a session, what the start button
  shows, and when the console reads the snapshot again after a start was scheduled. The texts
  shown to the user are constructors.
\<close>

section \<open>The start control\<close>

datatype start_label = StartLabel | StartingLabel

datatype start_title = TitleEnded | TitleBlocked | TitlePaused | TitleActive | TitleScheduled | TitleNotNow
  | TitleOffline | TitleWaiting | TitleStart

record start_control_input =
  si_connected :: bool
  si_session_state :: session_state
  si_session_ended :: bool
  si_start_in_flight :: bool
  si_blocked :: "bool option"

record start_control =
  sc_enabled :: bool
  sc_pending :: bool
  sc_label :: start_label
  sc_title :: start_title

definition canDispatchSessionStart :: "session_state \<Rightarrow> bool \<Rightarrow> bool \<Rightarrow> bool" where
  "canDispatchSessionStart sessionState sessionEnded startInFlight \<longleftrightarrow>
     \<not> sessionEnded \<and> sessionState = StCreated \<and> \<not> startInFlight"

definition disabled :: "start_label \<Rightarrow> start_title \<Rightarrow> start_control" where
  "disabled l t = \<lparr>sc_enabled = False, sc_pending = False, sc_label = l, sc_title = t\<rparr>"

definition startControl :: "start_control_input \<Rightarrow> start_control" where
  "startControl i =
     (if si_session_ended i \<or> si_session_state i = StEnded then disabled StartLabel TitleEnded
      else if nullish (si_blocked i) False then disabled StartLabel TitleBlocked
      else if si_session_state i = StPaused then disabled StartLabel TitlePaused
      else if si_session_state i = StActive then disabled StartLabel TitleActive
      else if si_session_state i = StStarting then disabled StartLabel TitleScheduled
      else if si_session_state i \<noteq> StCreated then disabled StartLabel TitleNotNow
      else if \<not> si_connected i then disabled StartLabel TitleOffline
      else if si_start_in_flight i then
        \<lparr>sc_enabled = False, sc_pending = True, sc_label = StartingLabel, sc_title = TitleWaiting\<rparr>
      else \<lparr>sc_enabled = True, sc_pending = False, sc_label = StartLabel, sc_title = TitleStart\<rparr>)"

section \<open>Messages and delays\<close>

datatype start_message = StartOffline | InvalidTransition | RequiresWizard | SessionNotFound
  | PersistenceUnavailable | ReadOnlyRole | OtherRefusal "string option"

definition startRejectionMessage :: "string option \<Rightarrow> start_message" where
  "startRejectionMessage reason =
     (if reason = Some ''invalid_lifecycle_transition'' then InvalidTransition
      else if reason = Some ''session_start_requires_wizard'' then RequiresWizard
      else if reason = Some ''session_not_found'' then SessionNotFound
      else if reason = Some ''persistence_unavailable'' then PersistenceUnavailable
      else if reason = Some ''read_only_role_cannot_emit_events'' then ReadOnlyRole
      else OtherRefusal reason)"

definition authoritativeStartCheckDelayMs :: "rat \<Rightarrow> ms \<Rightarrow> int option \<Rightarrow> ms \<Rightarrow> ms" where
  "authoritativeStartCheckDelayMs startAtServerMs clientNowMs clockOffsetMs leadMs =
     (case clockOffsetMs of
        None \<Rightarrow> leadMs
      | Some off \<Rightarrow> max 0 (js_round (startAtServerMs - of_int (clientNowMs + off))))"

section \<open>Properties\<close>

text \<open>
  The button and the send agree. The start button can be pressed exactly when the console is
  connected, no other dialog owns it, and a start envelope is legal; while the button shows that
  a start is pending, none is legal; and a button that can be pressed is never pending. So a
  second click cannot send a second start, and no legal start is withheld from a connected user.
\<close>

theorem start_button_agrees:
  "let c = startControl i;
       legal = canDispatchSessionStart (si_session_state i) (si_session_ended i) (si_start_in_flight i) in
     sc_enabled c = (si_connected i \<and> si_blocked i \<noteq> Some True \<and> legal) \<and>
     \<not> (sc_pending c \<and> legal) \<and> \<not> (sc_pending c \<and> sc_enabled c) \<and>
     (sc_title c = TitleStart) = sc_enabled c"
proof -
  have "nullish b False = (b = Some True)" for b by (cases b) auto
  then show ?thesis
    by (cases "si_session_state i") (auto simp: startControl_def canDispatchSessionStart_def disabled_def Let_def)
qed

text \<open>
  The snapshot is not read before the start is due. When the offset of the clocks is known to
  within an error, the instant at which the console reads the snapshot again, on the server's
  clock, is not earlier than the scheduled start by more than the error and half a millisecond,
  and not later by more than that unless the start was already past.
\<close>

theorem start_check_is_due:
  assumes "\<bar>of_int off - trueOffset\<bar> \<le> (err :: rat)"
  shows "let at_server = of_int (now + authoritativeStartCheckDelayMs startAt now (Some off) lead) + trueOffset in
    startAt - (err + 1 / 2) \<le> at_server \<and>
    at_server \<le> max (startAt + (err + 1 / 2)) (of_int now + trueOffset)"
proof -
  define at_server where
    "at_server = of_int (now + authoritativeStartCheckDelayMs startAt now (Some off) lead) + trueOffset"
  let ?d = "js_round (startAt - of_int (now + off))"
  have r: "\<bar>of_int ?d - (startAt - of_int (now + off))\<bar> \<le> 1 / 2" by (rule js_round_near)
  have eq: "at_server = of_int now + of_int (max 0 ?d) + trueOffset"
    by (simp add: at_server_def authoritativeStartCheckDelayMs_def)
  have "startAt - (err + 1 / 2) \<le> at_server \<and> at_server \<le> max (startAt + (err + 1 / 2)) (of_int now + trueOffset)"
  proof (cases "0 \<le> ?d")
    case True
    then have "at_server = of_int now + of_int ?d + trueOffset" by (simp add: eq)
    moreover have "of_int (now + off) = (of_int now + of_int off :: rat)" by simp
    ultimately have "startAt - (err + 1 / 2) \<le> at_server" "at_server \<le> startAt + (err + 1 / 2)"
      using r assms(1) by linarith+
    then show ?thesis by (simp add: le_max_iff_disj)
  next
    case False
    then have m: "at_server = of_int now + trueOffset" "of_int ?d \<le> (0 :: rat)" by (simp_all add: eq)
    moreover have "of_int (now + off) = (of_int now + of_int off :: rat)" by simp
    ultimately have "startAt - (err + 1 / 2) \<le> at_server" using r assms(1) by linarith
    with m(1) show ?thesis by (simp add: le_max_iff_disj)
  qed
  then show ?thesis by (simp add: Let_def at_server_def)
qed

theorem start_check_is_due_witness:
  "4000 - 21 / 2 \<le> of_int (1000 + authoritativeStartCheckDelayMs 4000 1000 (Some 500) 2000) + (510 :: rat)"
  using start_check_is_due [of 500 510 10 1000 4000 2000] by (simp add: Let_def)

end
