(* ===== verification/WizardSocket.thy ===== *)
theory WizardSocket
  imports SocketHook SessionStart
begin

text \<open>
  \<open>apps/wizard/src/useSessionSocket.ts\<close>: the socket hook of the wizard's console, on top of what it
  shares with the student's (\<open>SocketHook\<close>): commands with a deadline, the local mirror of the
  snapshot revision, the start of a session, and the re-reading of the snapshot. A name that the
  student's hook has too ends in \<open>W\<close> here.
\<close>

section \<open>State\<close>

definition WIZARD_ROLE :: string where "WIZARD_ROLE = ''wizard''"
definition COMMAND_TTL_MS :: ms where "COMMAND_TTL_MS = 5000"
definition SNAPSHOT_RESYNC_DEBOUNCE_MS :: ms where "SNAPSHOT_RESYNC_DEBOUNCE_MS = 150"
definition WIZARD_LOG_ENTRIES :: nat where "WIZARD_LOG_ENTRIES = 120"
definition START_CHECK_RETRY_FLOOR_MS :: ms where "START_CHECK_RETRY_FLOOR_MS = 200"
definition START_CHECK_LEAD_MS :: ms where "START_CHECK_LEAD_MS = 2000"
definition FALLBACK_THRESHOLD :: rat where "FALLBACK_THRESHOLD = 3"

record wizard_view =
  wv_snapshot_revision :: rat
  wv_session_state :: session_state
  wv_playback_state :: playback_state
  wv_active_clip :: "string option"
  wv_character_state :: string
  wv_cooperation_level :: rat
  wv_revealed_facts :: "string list"
  wv_consecutive_fallbacks :: rat
  wv_start_at_server_ms :: "rat option"

definition INITIAL_SESSION_VIEW_W :: wizard_view where
  "INITIAL_SESSION_VIEW_W =
     \<lparr>wv_snapshot_revision = 0, wv_session_state = StCreated, wv_playback_state = PbIdle,
      wv_active_clip = None, wv_character_state = ''neutral'', wv_cooperation_level = 0,
      wv_revealed_facts = [], wv_consecutive_fallbacks = 0, wv_start_at_server_ms = None\<rparr>"

text \<open>\<open>wz_effect_state\<close> is the session state that the last run of the start effect saw.\<close>

record wizard = hook +
  wz_view :: wizard_view
  wz_threshold_alert :: "rat option"
  wz_start_in_flight_shown :: bool
  wz_start_error :: "start_message option"
  wz_resync_timer :: "nat option"
  wz_start_check_timer :: "nat option"
  wz_start_in_flight :: bool
  wz_active_clip :: "string option"
  wz_clip_started_at :: "ms option"
  wz_clip_started_shown :: "ms option"
  wz_effect_state :: session_state

definition initial_wizard :: "ms \<Rightarrow> rat \<Rightarrow> (nat \<Rightarrow> string) \<Rightarrow> wizard" where
  "initial_wizard now performance uuid =
     \<lparr>h_session = None, h_now = now, h_performance = performance, h_uuid = uuid, h_drawn = 0,
      h_sockets = [], h_detached = [], h_timers = [], h_next_timer = 0, h_trace = [],
      h_mounts = 0, h_disposed = True, h_lifecycle = newLifecycle, h_token = [],
      h_status = CsIdle, h_closed_reason = None, h_notice = None,
      h_clock = \<lparr>ck_offset_ms = None, ck_rtt_ms = None, ck_sample_count = 0\<rparr>,
      h_last_ack = None, h_pending_count = 0, h_log = [],
      h_socket = None, h_reconnect_timer = None, h_admission_timer = None, h_admitted = False,
      h_admit = None, h_ping_timer = None, h_pong_timers = [], h_missed = 0,
      h_samples = [], h_probe_sent = [], h_clock_offset = None, h_clock_timers = [],
      h_sequence = 0, h_last_acked = -1, h_pending = [], h_revision = 0, h_replay = False,
      wz_view = INITIAL_SESSION_VIEW_W, wz_threshold_alert = None, wz_start_in_flight_shown = False,
      wz_start_error = None, wz_resync_timer = None, wz_start_check_timer = None,
      wz_start_in_flight = False, wz_active_clip = None, wz_clip_started_at = None,
      wz_clip_started_shown = None, wz_effect_state = StCreated\<rparr>"

abbreviation wlog :: "log_level \<Rightarrow> log_text \<Rightarrow> wizard \<Rightarrow> wizard" where
  "wlog \<equiv> appendLog WIZARD_LOG_ENTRIES"

definition set_view_w :: "(wizard_view \<Rightarrow> wizard_view) \<Rightarrow> wizard \<Rightarrow> wizard" where
  "set_view_w f h = h\<lparr>wz_view := f (wz_view h)\<rparr>"

definition setActiveClip :: "string option \<Rightarrow> ms option \<Rightarrow> wizard \<Rightarrow> wizard" where
  "setActiveClip clipId startedAtMs h =
     h\<lparr>wz_active_clip := clipId, wz_clip_started_at := startedAtMs, wz_clip_started_shown := startedAtMs\<rparr>"

section \<open>The snapshot\<close>

definition serverMonotonicNow :: "wizard \<Rightarrow> int" where
  "serverMonotonicNow h = (case h_clock_offset h of None \<Rightarrow> h_now h | Some off \<Rightarrow> h_now h + off)"

definition forget_short_lived :: "wizard \<Rightarrow> wizard" where
  "forget_short_lived h =
     (let kept = filter (\<lambda>e. \<not> pf_short_lived (snd e)) (h_pending h)
      in h\<lparr>h_pending := kept, h_pending_count := length kept\<rparr>)"

definition requestSnapshotW :: "wizard \<Rightarrow> wizard" where
  "requestSnapshotW h =
     (case h_session h of
        None \<Rightarrow> h
      | Some sid \<Rightarrow>
          let h1 = forget_short_lived h
          in snd (rawSend (reconnect_hello sid WIZARD_ROLE h1) h1))"

definition scheduleSnapshotResync :: "wizard \<Rightarrow> wizard" where
  "scheduleSnapshotResync h =
     (if wz_resync_timer h \<noteq> None then h
      else let (t, h1) = setTimer ResyncTimer SNAPSHOT_RESYNC_DEBOUNCE_MS h
        in h1\<lparr>wz_resync_timer := Some t\<rparr>)"

definition resync_fires :: "wizard \<Rightarrow> wizard" where
  "resync_fires h = requestSnapshotW (h\<lparr>wz_resync_timer := None\<rparr>)"

definition bumpLocalRevision :: "event_type option \<Rightarrow> wizard \<Rightarrow> wizard" where
  "bumpLocalRevision e h =
     (if \<not> bumps_revision e then h
      else let h1 = h\<lparr>h_revision := h_revision h + 1\<rparr>
        in set_view_w (\<lambda>v. v\<lparr>wv_snapshot_revision := h_revision h1\<rparr>) h1)"

section \<open>Sending\<close>

definition shortLivedPayload :: "wizard \<Rightarrow> (string \<times> json) list \<times> wizard" where
  "shortLivedPayload h =
     (let (commandId, h1) = newId ''cmd'' h
      in ([(''command_id'', JStr commandId),
           (''expires_at_ms'', JNum (of_int (serverMonotonicNow h1 + COMMAND_TTL_MS))),
           (''snapshot_revision'', JNum (h_revision h1))], h1))"

definition dedup_key :: "string \<Rightarrow> seqno \<Rightarrow> (string \<times> json) list \<Rightarrow> string" where
  "dedup_key sid sequence payload =
     nullish (or_else (text_of (map_of payload ''event_id'')) (text_of (map_of payload ''command_id'')))
       (sid @ '':wizard:'' @ string_of_int sequence)"

definition sendEnvelopeW :: "event_type \<Rightarrow> (string \<times> json) list \<Rightarrow> bool \<Rightarrow> wizard \<Rightarrow> bool \<times> wizard" where
  "sendEnvelopeW e payload shortLived h =
     (case h_session h of
        None \<Rightarrow> (False, h)
      | Some sid \<Rightarrow>
          let sequence = h_sequence h;
              frame = envelope sid WIZARD_ROLE sequence (h_now h) e payload;
              (ok, h1) = (if h_admitted h then rawSend frame h else (False, h))
          in if \<not> ok then (False, wlog LogError (NotSent (Some e)) h1)
             else (True, wlog LogInfo (SentLog (Some e)) (trackPending
               \<lparr>pf_dedup_key = dedup_key sid sequence payload, pf_event_type = Some e, pf_sequence = sequence,
                pf_frame = frame, pf_short_lived = shortLived\<rparr>
               (h1\<lparr>h_sequence := sequence + 1\<rparr>))))"

definition sendClipCommand :: "string \<Rightarrow> wizard \<Rightarrow> wizard" where
  "sendClipCommand clipId h =
     (let (p, h1) = shortLivedPayload h;
          h2 = snd (sendEnvelopeW ClipCommand (p @ [(''clip_id'', JStr clipId)]) True h1)
      in setActiveClip (Some clipId) (Some (h_now h2)) h2)"

definition sendReturnToIdle :: "wizard \<Rightarrow> wizard" where
  "sendReturnToIdle h =
     (let (p, h1) = shortLivedPayload h
      in setActiveClip None None (snd (sendEnvelopeW ReturnToIdle p True h1)))"

definition sendClipInterrupted :: "string \<Rightarrow> wizard \<Rightarrow> wizard" where
  "sendClipInterrupted reason h =
     (case wz_active_clip h of
        None \<Rightarrow> wlog LogWarn NoActiveClip h
      | Some clipId \<Rightarrow>
          let (eventId, h1) = newId ''evt'' h;
              played = (case wz_clip_started_at h1 of None \<Rightarrow> 0 | Some t \<Rightarrow> max 0 (h_now h1 - t))
          in setActiveClip None None (snd (sendEnvelopeW ClipInterrupted
               [(''event_id'', JStr eventId), (''clip_id'', JStr clipId),
                (''played_duration_ms'', JNum (of_int played)), (''reason'', JStr reason)] False h1)))"

definition sendSessionPaused :: "pause_reason \<Rightarrow> wizard \<Rightarrow> wizard" where
  "sendSessionPaused reason h =
     (let (p, h1) = shortLivedPayload h
      in snd (sendEnvelopeW SessionPaused (p @ [(''reason'', JStr (pause_reason_name reason))]) True h1))"

definition sendSessionResumed :: "wizard \<Rightarrow> wizard" where
  "sendSessionResumed h =
     (let (eventId, h1) = newId ''evt'' h
      in snd (sendEnvelopeW SessionResumed [(''event_id'', JStr eventId)] False h1))"

definition sendSessionStarted :: "wizard \<Rightarrow> wizard" where
  "sendSessionStarted h =
     (let s = wv_session_state (wz_view h)
      in if \<not> canDispatchSessionStart s (s = StEnded) (wz_start_in_flight h) then h
         else
           let (eventId, h1) = newId ''evt'' h;
               (sent, h2) = sendEnvelopeW SessionStarted [(''event_id'', JStr eventId)] False h1
           in if \<not> sent then h2\<lparr>wz_start_error := Some StartOffline\<rparr>
              else h2\<lparr>wz_start_in_flight := True, wz_start_in_flight_shown := True, wz_start_error := None\<rparr>)"

definition fallback_frame :: "seqno \<Rightarrow> ms \<Rightarrow> (string \<times> json) list \<Rightarrow> json" where
  "fallback_frame sequence now payload = JObj
     [(''type'', JStr ''request_fallback''), (''sequence'', JNum (of_int sequence)),
      (''client_timestamp_ms'', JNum (of_int now)), (''payload'', JObj payload)]"

definition sendRequestFallback :: "fallback_category \<Rightarrow> string option \<Rightarrow> wizard \<Rightarrow> wizard" where
  "sendRequestFallback category reason h =
     (let (p, h1) = shortLivedPayload h;
          payload = p @ [(''fallback_category'', JStr (fallback_category_name category))] @
            (if truthy reason then [(''reason'', JStr (nullish reason []))] else []);
          sequence = h_sequence h1;
          frame = fallback_frame sequence (h_now h1) payload;
          (ok, h2) = (if h_admitted h1 then rawSend frame h1 else (False, h1))
      in if \<not> ok then wlog LogError (NotSent None) h2
         else wlog LogInfo (SentLog None) (trackPending
           \<lparr>pf_dedup_key = nullish (text_of (map_of payload ''command_id'')) [], pf_event_type = None,
            pf_sequence = sequence, pf_frame = frame, pf_short_lived = True\<rparr>
           (h2\<lparr>h_sequence := sequence + 1\<rparr>)))"

text \<open>The spread of an object into a literal: later fields replace earlier ones.\<close>

definition spread :: "(string \<times> json) list \<Rightarrow> (string \<times> json) list \<Rightarrow> (string \<times> json) list" where
  "spread base given = fold (\<lambda>e. map_set (fst e) (snd e)) given base"

definition sendUncoveredQuestion :: "(string \<times> json) list \<Rightarrow> wizard \<Rightarrow> wizard" where
  "sendUncoveredQuestion payload h =
     (let (eventId, h1) = newId ''evt'' h
      in snd (sendEnvelopeW UncoveredQuestion (spread [(''event_id'', JStr eventId)] payload) False h1))"

section \<open>The scheduled start\<close>

definition clearStartCheck :: "wizard \<Rightarrow> wizard" where
  "clearStartCheck h = (clearRef (wz_start_check_timer h) h)\<lparr>wz_start_check_timer := None\<rparr>"

definition scheduleAuthoritativeStartCheck :: "rat \<Rightarrow> ms \<Rightarrow> wizard \<Rightarrow> wizard" where
  "scheduleAuthoritativeStartCheck startAtServerMs floorMs h =
     (let h1 = clearStartCheck h;
          delay = max floorMs
            (authoritativeStartCheckDelayMs startAtServerMs (h_now h1) (h_clock_offset h1) START_CHECK_LEAD_MS);
          (t, h2) = setTimer StartCheckTimer delay h1
      in h2\<lparr>wz_start_check_timer := Some t\<rparr>)"

definition start_check_fires :: "wizard \<Rightarrow> wizard" where
  "start_check_fires h = requestSnapshotW (h\<lparr>wz_start_check_timer := None\<rparr>)"

section \<open>Snapshots and broadcasts\<close>

definition view_snapshot_w :: "session_snapshot_message \<Rightarrow> wizard_view" where
  "view_snapshot_w m =
     \<lparr>wv_snapshot_revision = sn_snapshot_revision m,
      wv_session_state = sn_session_state m,
      wv_playback_state = sn_playback_state m,
      wv_active_clip = sn_active_clip m,
      wv_character_state = sn_character_state m,
      wv_cooperation_level = sn_cooperation_level m,
      wv_revealed_facts = sn_revealed_facts m,
      wv_consecutive_fallbacks = sn_consecutive_fallbacks m,
      wv_start_at_server_ms = sn_start_at_server_ms m\<rparr>"

definition snapshot_start_check :: "session_snapshot_message \<Rightarrow> wizard \<Rightarrow> wizard" where
  "snapshot_start_check m h =
     (case sn_start_at_server_ms m of
        Some t \<Rightarrow> if sn_session_state m = StStarting
          then scheduleAuthoritativeStartCheck t START_CHECK_RETRY_FLOOR_MS h else clearStartCheck h
      | None \<Rightarrow> clearStartCheck h)"

definition applySnapshotW :: "session_snapshot_message \<Rightarrow> wizard \<Rightarrow> wizard" where
  "applySnapshotW m h =
     (let h1 = set_view_w (\<lambda>_. view_snapshot_w m) (h\<lparr>h_revision := sn_snapshot_revision m\<rparr>);
          h2 = snapshot_start_check m h1;
          h3 = (if sn_playback_state m = PbPlaying
                then setActiveClip (sn_active_clip m) (Some (nullish (wz_clip_started_at h2) (h_now h2))) h2
                else setActiveClip None None h2);
          h4 = (if sn_consecutive_fallbacks m < FALLBACK_THRESHOLD then h3\<lparr>wz_threshold_alert := None\<rparr> else h3)
      in replayPending WIZARD_LOG_ENTRIES h4)"

definition view_broadcast_w :: "event_type \<Rightarrow> json \<Rightarrow> wizard_view \<Rightarrow> wizard_view" where
  "view_broadcast_w e payload v =
     (if e = SessionStarted then v\<lparr>wv_session_state := StStarting\<rparr>
      else if e = SessionPaused then v\<lparr>wv_session_state := StPaused\<rparr>
      else if e = SessionResumed then v\<lparr>wv_session_state := StActive, wv_start_at_server_ms := None\<rparr>
      else if e = SessionEnded then v\<lparr>wv_session_state := StEnded\<rparr>
      else if e = FallbackUsed then v\<lparr>wv_playback_state := PbPlaying,
        wv_active_clip := or_else (text_of (field payload ''resolved_clip_id'')) (wv_active_clip v),
        wv_consecutive_fallbacks :=
          nullish (number_of (field payload ''consecutive_fallbacks'')) (wv_consecutive_fallbacks v)\<rparr>
      else if e \<in> {ClipCommand, ClipStarted} then v\<lparr>wv_playback_state := PbPlaying,
        wv_active_clip := or_else (text_of (field payload ''clip_id'')) (wv_active_clip v)\<rparr>
      else if e \<in> {ClipEnded, ClipInterrupted, ReturnToIdle} then
        v\<lparr>wv_playback_state := PbIdle, wv_active_clip := None\<rparr>
      else v)"

text \<open>The clip starts now, when the payload names one.\<close>

definition clip_begins :: "json option \<Rightarrow> wizard \<Rightarrow> wizard" where
  "clip_begins v h =
     (case text_of v of None \<Rightarrow> h | Some clipId \<Rightarrow> setActiveClip (Some clipId) (Some (h_now h)) h)"

definition applyBroadcastEnvelopeW :: "event_type \<Rightarrow> json \<Rightarrow> wizard \<Rightarrow> wizard" where
  "applyBroadcastEnvelopeW e payload h =
     (let h1 = set_view_w (view_broadcast_w e payload) h
      in if e \<in> {ClipCommand, ClipStarted} then clip_begins (field payload ''clip_id'') h1
         else if e = FallbackUsed then clip_begins (field payload ''resolved_clip_id'') h1
         else if e \<in> {ClipEnded, ClipInterrupted, ReturnToIdle} then setActiveClip None None h1
         else h1)"

section \<open>Acknowledgements\<close>

definition is_start :: "pending_frame option \<Rightarrow> bool" where
  "is_start pending \<longleftrightarrow> (case pending of None \<Rightarrow> False | Some p \<Rightarrow> pf_event_type p = Some SessionStarted)"

definition start_refused :: "string option \<Rightarrow> wizard \<Rightarrow> wizard" where
  "start_refused reason h =
     h\<lparr>wz_start_in_flight := False, wz_start_in_flight_shown := False,
       wz_start_error := Some (startRejectionMessage reason)\<rparr>"

definition ack_rejected :: "pending_frame option \<Rightarrow> event_ack_message \<Rightarrow> wizard \<Rightarrow> wizard" where
  "ack_rejected pending m h =
     (let h1 = (if is_start pending then start_refused (ak_reason m) h else h);
          h2 = wlog LogWarn (RejectedLog (nullish (ak_reason m) ''unknown'')) h1
      in if ak_reason m = Some ''stale_snapshot_revision'' then requestSnapshotW h2 else h2)"

definition ack_settled :: "pending_frame option \<Rightarrow> event_ack_message \<Rightarrow> wizard \<Rightarrow> wizard" where
  "ack_settled pending m h =
     (let h1 = (if ak_status m = Duplicate \<and> is_start pending then scheduleSnapshotResync h else h)
      in if ak_status m = Accepted
         then scheduleSnapshotResync (case pending of None \<Rightarrow> h1 | Some p \<Rightarrow> bumpLocalRevision (pf_event_type p) h1)
         else h1)"

definition handleAckW :: "event_ack_message \<Rightarrow> wizard \<Rightarrow> wizard" where
  "handleAckW m h =
     (let (pending, h1) = ack_pending m h
      in if ak_status m = Rejected then ack_rejected pending m h1 else ack_settled pending m h1)"

section \<open>Clock sync\<close>

definition startClockSyncW :: "wizard \<Rightarrow> wizard" where
  "startClockSyncW h = startProbes h"

definition handleClockSyncResponseW :: "clock_sync_response_message \<Rightarrow> wizard \<Rightarrow> wizard" where
  "handleClockSyncResponseW m h =
     (case probe_t0 m h of
        None \<Rightarrow> h
      | Some t0 \<Rightarrow>
          let h1 = take_sample m t0 h
          in if length (h_samples h1) < CLOCK_SYNC_SAMPLES then h1
             else
               let (off, rtt) = clock_estimate (h_samples h1);
                   count = length (best_samples (h_samples h1));
                   h2 = h1\<lparr>h_clock_offset := Some off,
                     h_clock := \<lparr>ck_offset_ms = Some off, ck_rtt_ms = Some rtt, ck_sample_count = int count\<rparr>\<rparr>
               in wlog LogInfo (ClockSynced off rtt) (snd (rawSend (offset_report off count rtt) h2)))"

section \<open>The hook\<close>

definition wizard_stop :: "socket_effects \<Rightarrow> wizard \<Rightarrow> wizard" where
  "wizard_stop e h =
     (if ef_notice e = Some (Some CkEnded)
      then wlog LogInfo EndedLog (set_view_w (\<lambda>v. v\<lparr>wv_session_state := StEnded\<rparr>) h)
      else wlog LogError (ClosedLog (nullish (nullish (ef_closed_reason e) None) ''unknown'')) h)"

definition wizard_ops :: "wizard hook_ops" where
  "wizard_ops = \<lparr>op_request_snapshot = requestSnapshotW, op_clock_sync = startClockSyncW,
     op_stop = wizard_stop, op_log = WIZARD_LOG_ENTRIES\<rparr>"

definition start_scheduled :: "rat \<Rightarrow> wizard \<Rightarrow> wizard" where
  "start_scheduled startAt h =
     wlog LogInfo StartScheduledLog (scheduleAuthoritativeStartCheck startAt 0
       (set_view_w (\<lambda>v. v\<lparr>wv_session_state := StStarting, wv_start_at_server_ms := Some startAt\<rparr>) h))"

definition threshold_reached :: "rat \<Rightarrow> wizard \<Rightarrow> wizard" where
  "threshold_reached streak h =
     wlog LogWarn (ThresholdLog streak)
       (set_view_w (\<lambda>v. v\<lparr>wv_consecutive_fallbacks := streak\<rparr>) (h\<lparr>wz_threshold_alert := Some streak\<rparr>))"

definition wizard_control :: "sock \<Rightarrow> json \<Rightarrow> string \<Rightarrow> wizard \<Rightarrow> wizard" where
  "wizard_control k m t h =
     (if t = ''pong'' then handlePong (text_of (field m ''ping_id'')) h
      else if t = ''event_ack'' then handleAckW (as_event_ack m) h
      else if t = ''session_snapshot'' then
        applySnapshotW (as_session_snapshot m) (admit_socket wizard_ops k h)
      else if t = ''clock_sync_response'' then handleClockSyncResponseW (as_clock_sync_response m) h
      else if t = ''session_start_scheduled'' then start_scheduled (number_at m ''start_at_server_ms'') h
      else if t = ''role_connection_replaced'' then wlog LogWarn (RoleReplacedLog (text_at m ''role'')) h
      else if t = ''fallback_threshold_reached'' then
        threshold_reached (case field m ''payload'' of None \<Rightarrow> 0 | Some p \<Rightarrow> number_at p ''consecutive_fallbacks'') h
      else h)"

text \<open>The router switches on \<open>type\<close> alone, although the guard accepts \<open>command_type\<close> as well.\<close>

definition handleMessageW :: "sock \<Rightarrow> json option \<Rightarrow> wizard \<Rightarrow> wizard" where
  "handleMessageW k raw h =
     (case raw of
        None \<Rightarrow> wlog LogWarn Unparsable h
      | Some m \<Rightarrow>
          if isWebSocketControlMessage m then wizard_control k m (text_at m ''type'') h
          else if isEventEnvelope m then
            let e = as_event_envelope m; t = nullish (ev_event_type e) SessionCreated;
                h1 = applyBroadcastEnvelopeW t (ev_payload e) h;
                h2 = (if t \<in> set REVISION_BUMPING_EVENTS then scheduleSnapshotResync h1 else h1)
            in wlog LogInfo
                 (if t = FallbackUsed then FallbackResolved (text_of (field (ev_payload e) ''resolved_clip_id''))
                  else ReceivedLog t) h2
          else h)"

definition wizard_unmount :: "wizard \<Rightarrow> wizard" where
  "wizard_unmount h =
     (let h1 = unmount h
      in clearStartCheck ((clearRef (wz_resync_timer h1) h1)\<lparr>wz_resync_timer := None\<rparr>))"

text \<open>The effect on \<open>session_state\<close>, which runs after a render that changed it.\<close>

definition start_effect :: "wizard \<Rightarrow> wizard" where
  "start_effect h =
     (let s = wv_session_state (wz_view h)
      in if s = wz_effect_state h then h
         else
           let h1 = h\<lparr>wz_effect_state := s\<rparr>
           in if s = StCreated then h1
              else
                let h2 = h1\<lparr>wz_start_in_flight := False, wz_start_in_flight_shown := False, wz_start_error := None\<rparr>
                in if s \<noteq> StStarting then clearStartCheck h2 else h2)"

definition dismissThresholdAlert :: "wizard \<Rightarrow> wizard" where
  "dismissThresholdAlert h = h\<lparr>wz_threshold_alert := None\<rparr>"

definition wizard_timer_fires :: "nat \<times> ms \<times> timer \<Rightarrow> wizard \<Rightarrow> wizard" where
  "wizard_timer_fires e h =
     (case e of (i, delay, t) \<Rightarrow>
        (case t of
           PingTimer k \<Rightarrow> ping_fires k h
         | ReconnectTimer \<Rightarrow> connect (clearTimer i h)
         | AdmissionTimer k \<Rightarrow> admission_expires wizard_ops k (clearTimer i h)
         | PongTimer k p \<Rightarrow> pong_expires wizard_ops k p (clearTimer i h)
         | ProbeTimer \<Rightarrow> probe_fires (clearTimer i h)
         | ResyncTimer \<Rightarrow> resync_fires (clearTimer i h)
         | StartCheckTimer \<Rightarrow> start_check_fires (clearTimer i h)
         | _ \<Rightarrow> clearTimer i h))"

datatype wizard_call =
    SendClipCommand string | SendReturnToIdle | SendClipInterrupted string | SendSessionPaused pause_reason
  | SendSessionResumed | SendSessionStarted | SendRequestFallback fallback_category "string option"
  | SendUncoveredQuestion "(string \<times> json) list" | DismissThresholdAlert

fun call_wizard :: "wizard_call \<Rightarrow> wizard \<Rightarrow> wizard" where
  "call_wizard (SendClipCommand c) = sendClipCommand c"
| "call_wizard SendReturnToIdle = sendReturnToIdle"
| "call_wizard (SendClipInterrupted r) = sendClipInterrupted r"
| "call_wizard (SendSessionPaused r) = sendSessionPaused r"
| "call_wizard SendSessionResumed = sendSessionResumed"
| "call_wizard SendSessionStarted = sendSessionStarted"
| "call_wizard (SendRequestFallback c r) = sendRequestFallback c r"
| "call_wizard (SendUncoveredQuestion p) = sendUncoveredQuestion p"
| "call_wizard DismissThresholdAlert = dismissThresholdAlert"

definition wizard_handles :: "wizard_call socket_event \<Rightarrow> wizard \<Rightarrow> wizard" where
  "wizard_handles ev h =
     (case ev of
        Mount sid token \<Rightarrow> mount sid token h
      | Unmount \<Rightarrow> wizard_unmount h
      | SocketOpens k \<Rightarrow> socket_onopen wizard_ops k h
      | Receives k m \<Rightarrow> if closure_current k h then handleMessageW k m h else h
      | SocketErrs k \<Rightarrow> socket_onerror WIZARD_LOG_ENTRIES h
      | SocketCloses k code reason \<Rightarrow> socket_onclose wizard_ops k code reason h
      | TimerFires e \<Rightarrow> wizard_timer_fires e h
      | TimePasses d p \<Rightarrow> pass_time d p h
      | App c \<Rightarrow> call_wizard c h)"

definition wizard_event :: "wizard_call socket_event \<Rightarrow> wizard \<Rightarrow> wizard" where
  "wizard_event ev h = start_effect (wizard_handles ev h)"

abbreviation wizard_run :: "wizard_call socket_event list \<Rightarrow> wizard \<Rightarrow> wizard" where
  "wizard_run \<equiv> hook_run wizard_event"

section \<open>The wizard is such an app\<close>

lemma quiet_forget: "quiet h (forget_short_lived h)"
  by (auto simp: forget_short_lived_def quiet_def core_def Let_def)

lemma quiet_requestSnapshotW: "quiet h (requestSnapshotW h)"
proof (cases "h_session h")
  case (Some sid)
  have "quiet h (snd (rawSend (reconnect_hello sid WIZARD_ROLE (forget_short_lived h)) (forget_short_lived h)))"
    by (rule quiet_trans [OF quiet_forget quiet_send]) (simp_all add: WIZARD_ROLE_def ROLE_VALUES_def)
  with Some show ?thesis by (simp add: requestSnapshotW_def Let_def)
qed (simp add: requestSnapshotW_def)

lemma quiet_view_w: "quiet h (set_view_w f h)"
  by (simp add: set_view_w_def quiet_silent core_def)

lemma quiet_clip: "quiet h (setActiveClip c t h)"
  by (simp add: setActiveClip_def quiet_silent core_def)



lemma quiet_wizard_stop: "quiet h (wizard_stop e h)"
  by (simp add: wizard_stop_def quiet_trans [OF quiet_view_w quiet_basic(2)] quiet_basic)

interpretation wizard_app: socket_app wizard_ops
  by unfold_locales
    (simp_all add: wizard_ops_def quiet_wizard_stop quiet_requestSnapshotW startClockSyncW_def quiet_startProbes)

text \<open>A timer of the wizard's own is set: nothing that matters to the connection.\<close>

lemma quiet_arm: "t \<noteq> ReconnectTimer \<Longrightarrow> quiet h (f (snd (setTimer t d h)))"
  if "\<And>g. core (f g) = core g \<and> h_trace (f g) = h_trace g \<and> h_pending (f g) = h_pending g \<and> h_timers (f g) = h_timers g"
  by (rule quiet_update [OF quiet_setTimer [of t h d]]) (simp_all add: that)

lemma quiet_resync: "quiet h (scheduleSnapshotResync h)"
  unfolding scheduleSnapshotResync_def Let_def split_def
  by (auto intro!: quiet_arm simp: core_def)

lemma quiet_clearStartCheck: "quiet h (clearStartCheck h)"
  by (rule quiet_silent) (simp_all add: clearStartCheck_def clearRef_eq core_def recon_filter)

lemma quiet_start_check: "quiet h (scheduleAuthoritativeStartCheck t d h)"
  unfolding scheduleAuthoritativeStartCheck_def Let_def split_def
  by (rule quiet_trans [OF quiet_clearStartCheck]) (auto intro!: quiet_arm simp: core_def)

lemma quiet_bump: "quiet h (bumpLocalRevision e h)"
  by (auto intro!: quiet_silent simp: bumpLocalRevision_def set_view_w_def core_def Let_def)

lemma quiet_ack_w: "quiet h (handleAckW m h)"
proof -
  obtain p h1 where a: "ack_pending m h = (p, h1)" by fastforce
  with quiet_ack [of h m] have q: "quiet h h1" by simp
  have refused: "quiet g (start_refused r g)" for r g by (simp add: start_refused_def quiet_silent core_def)
  have "quiet h1 (if is_start p then start_refused r h1 else h1)" for r using refused by simp
  from quiet_trans [OF this quiet_basic(2)] quiet_trans [OF quiet_trans [OF this quiet_basic(2)] quiet_requestSnapshotW]
  have "quiet h1 (ack_rejected p m h1)" by (simp add: ack_rejected_def Let_def)
  moreover have s: "quiet h1 (if b then scheduleSnapshotResync h1 else h1)" for b by (simp add: quiet_resync)
  then have "quiet h1 (case p of None \<Rightarrow> if b then scheduleSnapshotResync h1 else h1
      | Some q \<Rightarrow> bumpLocalRevision (pf_event_type q) (if b then scheduleSnapshotResync h1 else h1))" for b
    by (cases p) (simp_all add: quiet_trans [OF _ quiet_bump] del: if_split)
  from quiet_trans [OF this quiet_resync] s have "quiet h1 (ack_settled p m h1)"
    by (simp add: ack_settled_def Let_def)
  ultimately show ?thesis using a quiet_trans [OF q] by (simp add: handleAckW_def)
qed

lemma quiet_sample: "quiet h (take_sample m t0 h)"
  by (simp add: take_sample_def quiet_silent core_def)

lemma quiet_clock_w: "quiet h (handleClockSyncResponseW m h)"
proof (cases "probe_t0 m h")
  case (Some t0)
  have "quiet h (snd (rawSend (offset_report a n b) ((take_sample m t0 h)\<lparr>h_clock_offset := x, h_clock := c\<rparr>)))"
    for a n b c x
    by (rule quiet_trans [OF _ quiet_send]) (simp_all add: quiet_silent core_def take_sample_def)
  from quiet_trans [OF this quiet_basic(2)] quiet_sample Some show ?thesis
    by (auto simp: handleClockSyncResponseW_def Let_def split_def)
qed (simp add: handleClockSyncResponseW_def)

lemma quiet_clip_begins: "quiet h (clip_begins v h)"
  by (simp add: clip_begins_def quiet_clip split: option.splits)

lemma quiet_broadcast_w: "quiet h (applyBroadcastEnvelopeW e p h)"
  unfolding applyBroadcastEnvelopeW_def Let_def
  by (simp add: quiet_view_w quiet_trans [OF quiet_view_w quiet_clip_begins] quiet_trans [OF quiet_view_w quiet_clip])

lemma quiet_start_scheduled: "quiet h (start_scheduled t h)"
  unfolding start_scheduled_def
  by (rule quiet_trans [OF quiet_trans [OF quiet_view_w quiet_start_check] quiet_basic(2)])

lemma quiet_threshold: "quiet h (threshold_reached n h)"
proof -
  have "quiet h (h\<lparr>wz_threshold_alert := Some n\<rparr>)" by (simp add: quiet_silent core_def)
  from quiet_trans [OF quiet_trans [OF this quiet_view_w] quiet_basic(2)] show ?thesis
    by (simp add: threshold_reached_def)
qed

lemma quiet_snapshot_check: "quiet h (snapshot_start_check m h)"
  by (simp add: snapshot_start_check_def quiet_start_check quiet_clearStartCheck split: option.splits)

lemma quiet_start_effect: "quiet h (start_effect h)"
proof -
  let ?h2 = "\<lambda>s. h\<lparr>wz_effect_state := s, wz_start_in_flight := False, wz_start_in_flight_shown := False,
      wz_start_error := None\<rparr>"
  have "quiet h (h\<lparr>wz_effect_state := s\<rparr>)" "quiet h (?h2 s)" for s by (simp_all add: quiet_silent core_def)
  with quiet_trans [OF this(2) quiet_clearStartCheck] show ?thesis by (simp add: start_effect_def Let_def)
qed

text \<open>What precedes the replay of a snapshot.\<close>

definition before_replay :: "session_snapshot_message \<Rightarrow> wizard \<Rightarrow> wizard" where
  "before_replay m h =
     (let h1 = set_view_w (\<lambda>_. view_snapshot_w m) (h\<lparr>h_revision := sn_snapshot_revision m\<rparr>);
          h2 = snapshot_start_check m h1;
          h3 = (if sn_playback_state m = PbPlaying
                then setActiveClip (sn_active_clip m) (Some (nullish (wz_clip_started_at h2) (h_now h2))) h2
                else setActiveClip None None h2)
      in if sn_consecutive_fallbacks m < FALLBACK_THRESHOLD then h3\<lparr>wz_threshold_alert := None\<rparr> else h3)"

lemma applySnapshotW_eq: "applySnapshotW m h = replayPending WIZARD_LOG_ENTRIES (before_replay m h)"
  by (simp only: applySnapshotW_def before_replay_def Let_def)

lemma quiet_before_replay: "quiet h (before_replay m h)"
proof -
  let ?h1 = "set_view_w (\<lambda>_. view_snapshot_w m) (h\<lparr>h_revision := sn_snapshot_revision m\<rparr>)"
  have "quiet h (h\<lparr>h_revision := sn_snapshot_revision m\<rparr>)" by (simp add: quiet_silent core_def)
  then have "quiet h ?h1" by (rule quiet_trans [OF _ quiet_view_w])
  then have q: "quiet h (setActiveClip c t (snapshot_start_check m ?h1))" for c t
    by (rule quiet_trans [OF quiet_trans [OF _ quiet_snapshot_check] quiet_clip])
  moreover have "quiet g (g\<lparr>wz_threshold_alert := None\<rparr>)" for g by (simp add: quiet_silent core_def)
  with q have "quiet h ((setActiveClip c t (snapshot_start_check m ?h1))\<lparr>wz_threshold_alert := None\<rparr>)" for c t
    by (blast intro: quiet_trans)
  ultimately show ?thesis by (simp add: before_replay_def Let_def)
qed

lemma applySnapshotW_inv: "hook_ok h \<Longrightarrow> hook_inv (applySnapshotW m h)"
  unfolding applySnapshotW_eq by (rule replay_inv [OF quiet_ok [OF quiet_before_replay]])

lemma message_w_inv:
  assumes "hook_inv h" "closure_current k h"
  shows "hook_inv (handleMessageW k raw h)"
proof (cases raw)
  case None
  with assms show ?thesis by (simp add: handleMessageW_def quiet_inv [OF quiet_basic(2)])
next
  case (Some m)
  have "hook_inv (wizard_control k m t h)" for t
    unfolding wizard_control_def
    by (simp add: quiet_inv [OF quiet_basic(7) assms(1)] quiet_inv [OF quiet_ack_w assms(1)]
        quiet_inv [OF quiet_clock_w assms(1)] quiet_inv [OF quiet_start_scheduled assms(1)]
        quiet_inv [OF quiet_basic(2) assms(1)] quiet_inv [OF quiet_threshold assms(1)]
        applySnapshotW_inv [OF wizard_app.admit_ok(1) [OF assms]] assms(1))
  moreover have "quiet h (if b then scheduleSnapshotResync (applyBroadcastEnvelopeW e p h) else applyBroadcastEnvelopeW e p h)"
    for b e p
    using quiet_broadcast_w quiet_trans [OF quiet_broadcast_w quiet_resync] by simp
  from quiet_inv [OF quiet_trans [OF this quiet_basic(2)] assms(1)]
  have "hook_inv (wlog l w (if b then scheduleSnapshotResync (applyBroadcastEnvelopeW e p h) else applyBroadcastEnvelopeW e p h))"
    for b e p l w .
  ultimately show ?thesis using assms Some by (simp add: handleMessageW_def Let_def)
qed

section \<open>Every step of the wizard\<close>

lemma wizard_frame:
  "isEventEnvelope (envelope sid WIZARD_ROLE n t e fs)" "frame_seq (envelope sid WIZARD_ROLE n t e fs) = Some (of_int n)"
  by (simp_all add: envelope_accepted envelope_seq WIZARD_ROLE_def SOURCE_VALUES_def)

text \<open>Sending a frame of the interview and tracking it, or leaving a note that it was not sent.\<close>

lemma post_or_note_inv:
  assumes "hook_inv h" "(if h_admitted h then rawSend f h else (False, h)) = (ok, g)"
    and "interview_frame f" "frame_seq f = Some (of_int (h_sequence h))" "pf_frame p = f" "valid_frame f"
  shows "ok \<Longrightarrow> hook_inv (trackPending p (g\<lparr>h_sequence := h_sequence h + 1\<rparr>))"
    and "\<not> ok \<Longrightarrow> g = h" and "ok \<Longrightarrow> h_admitted h"
proof -
  show "\<not> ok \<Longrightarrow> g = h" using assms(2) by (auto simp: rawSend_def split: if_splits option.splits)
  show "ok \<Longrightarrow> h_admitted h" using assms(2) by (auto split: if_splits)
  assume ok
  with assms(2) have "h_admitted h" "rawSend f h = (True, g)" by (auto split: if_splits)
  from post_inv [OF assms(1) this(1) assms(3,4) this(2) assms(5,6)]
  show "hook_inv (trackPending p (g\<lparr>h_sequence := h_sequence h + 1\<rparr>))" .
qed

lemma sendEnvelopeW_inv: "hook_inv h \<Longrightarrow> hook_inv (snd (sendEnvelopeW e fs sl h))"
proof (cases "h_session h")
  case (Some sid)
  assume inv: "hook_inv h"
  let ?f = "envelope sid WIZARD_ROLE (h_sequence h) (h_now h) e fs"
  let ?p = "\<lparr>pf_dedup_key = dedup_key sid (h_sequence h) fs, pf_event_type = Some e, pf_sequence = h_sequence h,
      pf_frame = ?f, pf_short_lived = sl\<rparr>"
  obtain ok g where r: "(if h_admitted h then rawSend ?f h else (False, h)) = (ok, g)" by fastforce
  have "interview_frame ?f" "valid_frame ?f" "frame_seq ?f = Some (of_int (h_sequence h))"
    by (simp_all add: interview_frame_def valid_frame_def wizard_frame)
  note p = post_or_note_inv [OF inv r this(1,3) _ this(2), of ?p, simplified]
  show ?thesis
    using r Some quiet_inv [OF quiet_basic(2) p(1)] quiet_inv [OF quiet_basic(2) inv] p(2)
    by (cases ok) (simp_all add: sendEnvelopeW_def Let_def)
qed (simp add: sendEnvelopeW_def)

lemma fallback_category_known: "fallback_category_name c \<in> fallback_category_name ` set FALLBACK_CATEGORIES"
  by (cases c) (simp_all add: FALLBACK_CATEGORIES_def)

lemma fallback_frame_ok:
  assumes "map_of payload ''command_id'' = Some (JStr i)" "map_of payload ''expires_at_ms'' = Some (JNum x)"
    and "map_of payload ''snapshot_revision'' = Some (JNum r)"
    and "map_of payload ''fallback_category'' = Some (JStr (fallback_category_name c))"
  shows "valid_frame (fallback_frame n t payload)" "interview_frame (fallback_frame n t payload)"
    "frame_seq (fallback_frame n t payload) = Some (of_int n)"
proof -
  have "isWebSocketControlMessage (fallback_frame n t payload)"
    using assms fallback_category_known [of c]
    by (simp add: isWebSocketControlMessage_def control_fields_def controlMessageType_def json_guards fallback_frame_def)
  then show "valid_frame (fallback_frame n t payload)" by (simp add: valid_frame_def)
qed (simp_all add: interview_frame_def frame_seq_def fallback_frame_def)

lemma quiet_short_lived: "quiet h (snd (shortLivedPayload h))"
  by (simp add: shortLivedPayload_def split_def Let_def quiet_basic)

lemma short_lived_fields:
  "\<exists>i x r. fst (shortLivedPayload h) =
     [(''command_id'', JStr i), (''expires_at_ms'', JNum x), (''snapshot_revision'', JNum r)]"
  by (simp add: shortLivedPayload_def split_def Let_def)

lemma sendRequestFallback_inv: "hook_inv h \<Longrightarrow> hook_inv (sendRequestFallback c r h)"
proof -
  assume inv: "hook_inv h"
  obtain q h1 where s: "shortLivedPayload h = (q, h1)" by fastforce
  with quiet_inv [OF quiet_short_lived inv] have inv1: "hook_inv h1" by (metis snd_conv)
  let ?pl = "q @ [(''fallback_category'', JStr (fallback_category_name c))] @
      (if truthy r then [(''reason'', JStr (nullish r []))] else [])"
  let ?f = "fallback_frame (h_sequence h1) (h_now h1) ?pl"
  let ?p = "\<lparr>pf_dedup_key = nullish (text_of (map_of ?pl ''command_id'')) [], pf_event_type = None,
      pf_sequence = h_sequence h1, pf_frame = ?f, pf_short_lived = True\<rparr>"
  from short_lived_fields [of h] s obtain i x y where
    "q = [(''command_id'', JStr i), (''expires_at_ms'', JNum x), (''snapshot_revision'', JNum y)]" by auto
  then have f: "interview_frame ?f" "frame_seq ?f = Some (of_int (h_sequence h1))" "valid_frame ?f"
    by (auto intro!: fallback_frame_ok)
  obtain ok g where a: "(if h_admitted h1 then rawSend ?f h1 else (False, h1)) = (ok, g)" by fastforce
  note p = post_or_note_inv [OF inv1 a f(1,2) _ f(3), of ?p, simplified]
  have "sendRequestFallback c r h = (if \<not> ok then wlog LogError (NotSent None) g
      else wlog LogInfo (SentLog None) (trackPending ?p (g\<lparr>h_sequence := h_sequence h1 + 1\<rparr>)))"
    by (simp only: sendRequestFallback_def Let_def s prod.case a)
  with quiet_inv [OF quiet_basic(2) p(1)] quiet_inv [OF quiet_basic(2) inv1] p(2) show ?thesis by (cases ok) simp_all
qed

lemma wizard_call_inv: "hook_inv h \<Longrightarrow> hook_inv (call_wizard c h)"
proof -
  assume inv: "hook_inv h"
  have s: "hook_inv (snd (sendEnvelopeW e fs sl (snd (shortLivedPayload h))))" for e fs sl
    by (rule sendEnvelopeW_inv [OF quiet_inv [OF quiet_short_lived inv]])
  have n: "hook_inv (snd (sendEnvelopeW e fs sl (snd (newId p h))))" for e fs sl p
    by (rule sendEnvelopeW_inv [OF quiet_inv [OF quiet_basic(1) inv]])
  have d: "quiet h (h\<lparr>wz_threshold_alert := None\<rparr>)" by (simp add: quiet_silent core_def)
  have u: "quiet g (g\<lparr>wz_start_error := x\<rparr>)"
    "quiet g (g\<lparr>wz_start_in_flight := True, wz_start_in_flight_shown := True, wz_start_error := x\<rparr>)" for g x
    by (simp_all add: quiet_silent core_def)
  show ?thesis
    by (cases c)
      (simp_all add: sendClipCommand_def sendReturnToIdle_def sendClipInterrupted_def sendSessionPaused_def
        sendSessionResumed_def sendSessionStarted_def sendUncoveredQuestion_def dismissThresholdAlert_def
        split_def Let_def s n quiet_inv [OF quiet_clip s] quiet_inv [OF quiet_clip n] quiet_inv [OF d inv]
        quiet_inv [OF u(1) n] quiet_inv [OF u(2) n] sendRequestFallback_inv inv quiet_inv [OF quiet_basic(2) inv]
        split: option.split)
qed

lemma quiet_again: "quiet h (resync_fires h)" "quiet h (start_check_fires h)"
proof -
  have "quiet h (h\<lparr>wz_resync_timer := None\<rparr>)" "quiet h (h\<lparr>wz_start_check_timer := None\<rparr>)"
    by (simp_all add: quiet_silent core_def)
  from quiet_trans [OF this(1) quiet_requestSnapshotW] quiet_trans [OF this(2) quiet_requestSnapshotW]
  show "quiet h (resync_fires h)" "quiet h (start_check_fires h)"
    by (simp_all add: resync_fires_def start_check_fires_def)
qed

lemma wizard_timer_inv:
  assumes "hook_inv h" "e \<in> set (h_timers h)"
  shows "hook_inv (wizard_timer_fires e h)"
proof -
  obtain j d t where e: "e = (j, d, t)" by (cases e) auto
  have c: "quiet h (clearTimer j h)" by (rule quiet_basic)
  show ?thesis
  proof (cases t)
    case ReconnectTimer
    with e reconnect_inv [OF assms(1)] assms(2) show ?thesis by (auto simp: wizard_timer_fires_def)
  qed (simp_all add: wizard_timer_fires_def e quiet_inv [OF c assms(1)] quiet_inv [OF quiet_ping assms(1)]
      wizard_app.admission_expires_inv wizard_app.pong_expires_inv
      quiet_inv [OF quiet_trans [OF c quiet_probe] assms(1)]
      quiet_inv [OF quiet_trans [OF c quiet_again(1)] assms(1)] quiet_inv [OF quiet_trans [OF c quiet_again(2)] assms(1)])
qed

lemma quiet_forget_timers: "quiet h (clearStartCheck ((clearRef (wz_resync_timer h) h)\<lparr>wz_resync_timer := None\<rparr>))"
  by (rule quiet_trans [OF quiet_silent quiet_clearStartCheck]) (simp_all add: clearRef_eq core_def recon_filter)

lemma wizard_event_inv: "hook_inv h \<Longrightarrow> can_happen ev h \<Longrightarrow> hook_inv (wizard_event ev h)"
proof -
  assume inv: "hook_inv h" and can: "can_happen ev h"
  have "hook_inv (wizard_handles ev h)"
    using inv can
    by (cases ev) (simp_all add: quiet_inv [OF quiet_pass_time] wizard_handles_def can_happen_def mount_inv
      wizard_unmount_def Let_def quiet_inv [OF quiet_forget_timers unmount_inv] wizard_app.onopen_inv
      wizard_app.onclose_inv message_w_inv socket_onerror_def quiet_inv [OF quiet_basic(2)] wizard_timer_inv wizard_call_inv)
  then show ?thesis unfolding wizard_event_def by (rule quiet_inv [OF quiet_start_effect])
qed

lemma sendEnvelopeW_refused: "\<not> h_admitted h \<Longrightarrow> quiet h (snd (sendEnvelopeW e fs sl h))"
  by (simp add: sendEnvelopeW_def quiet_basic Let_def split: option.split)

lemma wizard_call_refused:
  assumes "\<not> h_admitted h"
  shows "quiet h (call_wizard c h)"
proof -
  have a: "\<not> h_admitted (snd (shortLivedPayload h))" "\<not> h_admitted (snd (newId p h))" for p
    using assms quiet_fields [OF quiet_short_lived [of h]] by (simp_all add: newId_def)
  have s: "quiet h (snd (sendEnvelopeW e fs sl (snd (shortLivedPayload h))))" for e fs sl
    by (rule quiet_trans [OF quiet_short_lived sendEnvelopeW_refused [OF a(1)]])
  have n: "quiet h (snd (sendEnvelopeW e fs sl (snd (newId p h))))" for e fs sl p
    by (rule quiet_trans [OF quiet_basic(1) sendEnvelopeW_refused [OF a(2)]])
  have d: "quiet h (h\<lparr>wz_threshold_alert := None\<rparr>)" by (simp add: quiet_silent core_def)
  have u: "quiet g (g\<lparr>wz_start_error := x\<rparr>)"
    "quiet g (g\<lparr>wz_start_in_flight := True, wz_start_in_flight_shown := True, wz_start_error := x\<rparr>)" for g x
    by (simp_all add: quiet_silent core_def)
  show ?thesis
    by (cases c)
      (simp_all add: sendClipCommand_def sendReturnToIdle_def sendClipInterrupted_def sendSessionPaused_def
        sendSessionResumed_def sendSessionStarted_def sendUncoveredQuestion_def dismissThresholdAlert_def
        sendRequestFallback_def a split_def Let_def s n quiet_trans [OF s quiet_clip] quiet_trans [OF n quiet_clip] d
        quiet_trans [OF n u(1)] quiet_trans [OF n u(2)] quiet_trans [OF quiet_short_lived quiet_basic(2)]
        quiet_basic(2) split: option.split)
qed

lemma wizard_stopped_event:
  assumes "hook_inv h" "lc_stopped (h_lifecycle h)" "can_happen ev h" "\<not> remounts ev"
  shows "calm h (wizard_event ev h)"
proof -
  note q = quiet_calm [OF _ assms(2)] and f = stopped_facts [OF assms(1,2)]
  have c: "calm h (clearTimer i h)" "lc_stopped (h_lifecycle (clearTimer i h))" for i
    using q [OF quiet_basic(3)] assms(2) by (simp_all add: clearTimer_def)
  note s = calm_trans [OF c(1) wizard_app.stopped_handlers(3) [OF c(2)]]
    calm_trans [OF c(1) wizard_app.stopped_handlers(4) [OF c(2)]]
  have timer: "calm h (wizard_timer_fires e h)" if "e \<in> set (h_timers h)" for e
  proof -
    obtain i d t where e: "e = (i, d, t)" by (cases e) auto
    with that f(2) have "t \<noteq> ReconnectTimer" by (auto simp: recon_def)
    then show ?thesis
      by (cases t) (simp_all add: e wizard_timer_fires_def s c q [OF quiet_ping]
        q [OF quiet_trans [OF quiet_basic(3) quiet_probe]] q [OF quiet_trans [OF quiet_basic(3) quiet_again(1)]]
        q [OF quiet_trans [OF quiet_basic(3) quiet_again(2)]])
  qed
  have "lc_stopped (h_lifecycle (unmount h))" using unmount_calm [of h] by (simp add: calm_def)
  from calm_trans [OF unmount_calm quiet_calm [OF quiet_forget_timers this]] have "calm h (wizard_unmount h)"
    by (simp add: wizard_unmount_def Let_def)
  with assms(2-4) have "calm h (wizard_handles ev h)"
    by (cases ev) (simp_all add: wizard_handles_def can_happen_def timer f(3) q [OF wizard_call_refused [OF f(1)]]
      wizard_app.stopped_handlers socket_onerror_def q [OF quiet_basic(2)] q [OF quiet_pass_time])
  moreover from this have "calm (wizard_handles ev h) (wizard_event ev h)"
    unfolding wizard_event_def by (intro quiet_calm [OF quiet_start_effect]) (simp add: calm_def)
  ultimately show ?thesis by (rule calm_trans)
qed

interpretation wizard_machine: socket_machine wizard_ops wizard_event
  by unfold_locales (simp_all add: wizard_event_inv wizard_stopped_event)

lemma initial_wizard_inv: "hook_inv (initial_wizard now perf uuid)"
  by (simp add: initial_wizard_def hook_inv_def hook_ok_def seq_ok_def lifecycle_inv_def newLifecycle_def
      isCurrent_def spoken_def)

section \<open>Commands with a deadline\<close>

text \<open>The commands that the server drops after their deadline: the short-lived events and the
  requests for a fallback.\<close>

definition command :: "json \<Rightarrow> bool" where
  "command f \<longleftrightarrow> interview_frame f \<and>
     (field f ''type'' = Some (JStr ''request_fallback'') \<or>
      text_of (field f ''event_type'') \<in> Some ` event_name ` set SHORT_LIVED_COMMAND_EVENT_TYPES)"

fun commands_sent :: "wire list \<Rightarrow> json list" where
  "commands_sent [] = []"
| "commands_sent (Sent k f # ws) = (if command f then f # commands_sent ws else commands_sent ws)"
| "commands_sent (w # ws) = commands_sent ws"

lemma commands_append [simp]: "commands_sent (ws @ us) = commands_sent ws @ commands_sent us"
  by (induction ws rule: commands_sent.induct) simp_all

lemma commands_chatter: "list_all chatter ws \<Longrightarrow> commands_sent ws = []"
  by (induction ws rule: commands_sent.induct) (simp_all add: command_def)

lemma commands_spoken: "set (commands_sent ws) \<subseteq> spoken ws"
proof
  fix f assume "f \<in> set (commands_sent ws)"
  then have "\<exists>k. Sent k f \<in> set ws \<and> command f"
    by (induction ws rule: commands_sent.induct) (auto split: if_splits)
  then show "f \<in> spoken ws" unfolding spoken_def command_def by blast
qed

text \<open>Waiting for the snapshot on an open socket.\<close>

definition awaiting :: "wizard \<Rightarrow> bool" where
  "awaiting h \<longleftrightarrow> \<not> h_admitted h \<and> \<not> h_disposed h \<and>
     (\<exists>i. isCurrent (h_lifecycle h) i \<and> map_of (h_sockets h) (h_mounts h, i) = Some ReadyOpen)"

definition durable :: "wizard \<Rightarrow> bool" where
  "durable h \<longleftrightarrow> list_all (\<lambda>e. \<not> command (pf_frame (snd e))) (h_pending h)"

text \<open>No command was sent twice, the pending frames are marked as what they are, and while the
  console waits for a snapshot only durable frames are pending.\<close>

definition marked :: "wizard \<Rightarrow> bool" where
  "marked h \<longleftrightarrow> distinct (commands_sent (h_trace h)) \<and>
     list_all (\<lambda>e. pf_short_lived (snd e) = command (pf_frame (snd e))) (h_pending h) \<and>
     (\<not> h_disposed h \<longrightarrow> h_session h \<noteq> None)"

definition commands_ok :: "wizard \<Rightarrow> bool" where
  "commands_ok h \<longleftrightarrow> marked h \<and> (awaiting h \<longrightarrow> durable h)"

lemma quiet_marked: "quiet h h' \<Longrightarrow> marked h \<Longrightarrow> marked h'"
proof -
  assume q: "quiet h h'" and ok: "marked h"
  from q obtain ws where ws: "h_trace h' = ws @ h_trace h" "list_all chatter ws"
    and p: "set (h_pending h') \<subseteq> set (h_pending h)" by (auto simp: quiet_def)
  have "commands_sent (h_trace h') = commands_sent (h_trace h)" using ws by (simp add: commands_chatter)
  then show ?thesis using ok p quiet_fields [OF q]
    by (auto simp: marked_def list_all_iff dest: bspec)
qed

lemma quiet_durable: "quiet h h' \<Longrightarrow> durable h \<Longrightarrow> durable h'"
  by (auto simp: quiet_def durable_def list_all_iff)

lemma quiet_commands: "quiet h h' \<Longrightarrow> commands_ok h \<Longrightarrow> commands_ok h'"
  using quiet_fields [of h h'] quiet_marked [of h h'] quiet_durable [of h h']
  by (simp add: commands_ok_def awaiting_def)

lemma offline_commands:
  assumes "marked h" "commands_sent (h_trace h') = commands_sent (h_trace h)"
    and "h_pending h' = h_pending h" "\<not> h_disposed h' \<longrightarrow> h_session h' \<noteq> None" "\<not> awaiting h'"
  shows "commands_ok h'"
  using assms by (simp add: commands_ok_def marked_def)

lemma requestSnapshotW_durable:
  assumes "marked h" "h_session h \<noteq> None"
  shows "durable (requestSnapshotW h)"
proof -
  from assms(2) obtain sid where sid: "h_session h = Some sid" by blast
  let ?h1 = "forget_short_lived h"
  have "h_pending (snd (rawSend f ?h1)) = h_pending ?h1" for f by (simp add: rawSend_def split: option.splits)
  moreover have "\<not> command (pf_frame (snd e))" if "e \<in> set (h_pending h)" "\<not> pf_short_lived (snd e)" for e
    using assms(1) that by (simp add: marked_def list_all_iff)
  ultimately show ?thesis using sid
    by (auto simp: requestSnapshotW_def Let_def durable_def forget_short_lived_def list_all_iff)
qed

text \<open>A new frame has a number of its own, so it is no command that was sent before.\<close>

lemma post_commands:
  assumes "hook_inv h" "commands_ok h" "h_admitted h" "rawSend f h = (True, g)"
    and "interview_frame f" "frame_seq f = Some (of_int (h_sequence h))"
    and "pf_frame p = f" "pf_short_lived p = command f"
  shows "commands_ok (trackPending p (g\<lparr>h_sequence := n\<rparr>))"
proof -
  from assms(4) obtain k where g: "g = h\<lparr>h_trace := Sent k f # h_trace h\<rparr>"
    by (auto simp: rawSend_def split: option.splits if_splits)
  have "f \<notin> spoken (h_trace h)"
  proof
    assume "f \<in> spoken (h_trace h)"
    with assms(1) have "numbered (h_sequence h) f" by (simp add: hook_inv_def hook_ok_def seq_ok_def)
    with assms(6) show False by (simp add: numbered_def)
  qed
  with commands_spoken have "f \<notin> set (commands_sent (h_trace h))" by blast
  moreover have "set (map_set (pf_dedup_key p) p m) \<subseteq> insert (pf_dedup_key p, p) (set m)" for m
    by (rule set_map_set)
  from this [of "h_pending h"]
  have "list_all (\<lambda>e. pf_short_lived (snd e) = command (pf_frame (snd e))) (map_set (pf_dedup_key p) p (h_pending h))"
    using assms(2,7,8) unfolding commands_ok_def marked_def list_all_iff by fastforce
  ultimately show ?thesis using assms(2,3)
    by (simp add: commands_ok_def marked_def trackPending_def awaiting_def g Let_def)
qed

lemma event_name_inj: "inj event_name"
  by (rule injI) (metis event_type_of_name option.inject)

lemma sendEnvelopeW_commands:
  assumes "hook_inv h" "commands_ok h" "sl \<longleftrightarrow> e \<in> set SHORT_LIVED_COMMAND_EVENT_TYPES"
  shows "commands_ok (snd (sendEnvelopeW e fs sl h))"
proof (cases "h_session h")
  case (Some sid)
  let ?f = "envelope sid WIZARD_ROLE (h_sequence h) (h_now h) e fs"
  let ?p = "\<lparr>pf_dedup_key = dedup_key sid (h_sequence h) fs, pf_event_type = Some e, pf_sequence = h_sequence h,
      pf_frame = ?f, pf_short_lived = sl\<rparr>"
  have f: "interview_frame ?f" "frame_seq ?f = Some (of_int (h_sequence h))"
    by (simp_all add: interview_frame_def wizard_frame)
  have "command ?f = (e \<in> set SHORT_LIVED_COMMAND_EVENT_TYPES)"
    using f(1) by (simp add: command_def envelope_def inj_image_mem_iff event_name_inj)
  with assms(3) have c: "pf_short_lived ?p = command ?f" by simp
  show ?thesis
  proof (cases "h_admitted h \<and> fst (rawSend ?f h)")
    case True
    then obtain g where r: "rawSend ?f h = (True, g)" by (cases "rawSend ?f h") auto
    from post_commands [OF assms(1,2) _ r f _ c] True have "commands_ok (trackPending ?p (g\<lparr>h_sequence := n\<rparr>))" for n
      by simp
    from quiet_commands [OF quiet_basic(2) this] show ?thesis
      using r True Some by (simp add: sendEnvelopeW_def Let_def)
  next
    case False
    then have "(if h_admitted h then rawSend ?f h else (False, h)) = (False, h)"
      by (auto simp: rawSend_def split: option.splits)
    with Some quiet_commands [OF quiet_basic(2) assms(2)] show ?thesis by (simp add: sendEnvelopeW_def Let_def)
  qed
qed (use assms in \<open>simp add: sendEnvelopeW_def\<close>)

lemma sendRequestFallback_commands: "hook_inv h \<Longrightarrow> commands_ok h \<Longrightarrow> commands_ok (sendRequestFallback c r h)"
proof -
  assume inv: "hook_inv h" and ok: "commands_ok h"
  obtain q h1 where s: "shortLivedPayload h = (q, h1)" by fastforce
  with quiet_short_lived [of h] have s1: "quiet h h1" by simp
  note inv1 = quiet_inv [OF s1 inv] and ok1 = quiet_commands [OF s1 ok]
  let ?pl = "q @ [(''fallback_category'', JStr (fallback_category_name c))] @
      (if truthy r then [(''reason'', JStr (nullish r []))] else [])"
  let ?f = "fallback_frame (h_sequence h1) (h_now h1) ?pl"
  let ?p = "\<lparr>pf_dedup_key = nullish (text_of (map_of ?pl ''command_id'')) [], pf_event_type = None,
      pf_sequence = h_sequence h1, pf_frame = ?f, pf_short_lived = True\<rparr>"
  have f: "interview_frame ?f" "frame_seq ?f = Some (of_int (h_sequence h1))" "command ?f"
    by (simp_all add: interview_frame_def frame_seq_def command_def fallback_frame_def)
  obtain b g where a: "(if h_admitted h1 then rawSend ?f h1 else (False, h1)) = (b, g)" by fastforce
  have eq: "sendRequestFallback c r h = (if \<not> b then wlog LogError (NotSent None) g
      else wlog LogInfo (SentLog None) (trackPending ?p (g\<lparr>h_sequence := h_sequence h1 + 1\<rparr>)))"
    by (simp only: sendRequestFallback_def Let_def s prod.case a)
  show ?thesis
  proof (cases b)
    case True
    with a have "h_admitted h1" "rawSend ?f h1 = (True, g)" by (auto split: if_splits)
    from post_commands [OF inv1 ok1 this f(1,2)] f(3) have "commands_ok (trackPending ?p (g\<lparr>h_sequence := n\<rparr>))" for n
      by simp
    from quiet_commands [OF quiet_basic(2) this] True eq show ?thesis by simp
  next
    case False
    with a have "g = h1" by (auto simp: rawSend_def split: if_splits option.splits)
    with False eq quiet_commands [OF quiet_basic(2) ok1] show ?thesis by simp
  qed
qed

lemma wizard_call_commands:
  assumes inv: "hook_inv h" and ok: "commands_ok h"
  shows "commands_ok (call_wizard c h)"
proof -
  note send = sendEnvelopeW_commands
  have s: "commands_ok (snd (sendEnvelopeW e fs sl (snd (shortLivedPayload h))))"
    if "sl \<longleftrightarrow> e \<in> set SHORT_LIVED_COMMAND_EVENT_TYPES" for e fs sl
    by (rule send [OF quiet_inv [OF quiet_short_lived inv] quiet_commands [OF quiet_short_lived ok] that])
  have n: "commands_ok (snd (sendEnvelopeW e fs sl (snd (newId p h))))"
    if "sl \<longleftrightarrow> e \<in> set SHORT_LIVED_COMMAND_EVENT_TYPES" for e fs sl p
    by (rule send [OF quiet_inv [OF quiet_basic(1) inv] quiet_commands [OF quiet_basic(1) ok] that])
  note S = SHORT_LIVED_COMMAND_EVENT_TYPES_def
  have d: "quiet h (h\<lparr>wz_threshold_alert := None\<rparr>)" by (simp add: quiet_silent core_def)
  have u: "quiet g (g\<lparr>wz_start_error := x\<rparr>)"
    "quiet g (g\<lparr>wz_start_in_flight := True, wz_start_in_flight_shown := True, wz_start_error := x\<rparr>)" for g x
    by (simp_all add: quiet_silent core_def)
  show ?thesis
    by (cases c)
      (simp_all add: sendClipCommand_def sendReturnToIdle_def sendClipInterrupted_def sendSessionPaused_def
        sendSessionResumed_def sendSessionStarted_def sendUncoveredQuestion_def dismissThresholdAlert_def
        split_def Let_def s n S quiet_commands [OF quiet_clip s] quiet_commands [OF quiet_clip n] quiet_commands [OF d ok]
        quiet_commands [OF u(1) n] quiet_commands [OF u(2) n] sendRequestFallback_commands inv ok
        quiet_commands [OF quiet_basic(2) ok] split: option.split)
qed

lemma commands_okD: "commands_ok h \<Longrightarrow> marked h" "commands_ok h \<Longrightarrow> awaiting h \<Longrightarrow> durable h"
  "commands_ok h \<Longrightarrow> \<not> h_disposed h \<Longrightarrow> h_session h \<noteq> None"
  by (simp_all add: commands_ok_def marked_def)

lemma lost_commands:
  assumes "commands_ok h" "f (h_lifecycle h) = (e, l)" "ef_send_hello e = False" "ef_admitted e = False"
    and "ef_detach e \<or> ef_reconnect_in_ms e \<noteq> None \<or> ef_stop e" "lc_current l = None"
  shows "commands_ok (apply_call wizard_ops k f h)"
proof -
  obtain g where g: "quiet g (apply_call wizard_ops k f h)" "h_trace g = h_trace h" "h_pending g = h_pending h"
      "h_lifecycle g = l" "h_session g = h_session h" "h_disposed g = h_disposed h"
    by (rule wizard_app.lost_exact [where f = f and h = h and k = k, OF assms(2-5)])
  have "commands_ok g"
    using assms(1,6) g by (intro offline_commands [of h]) (simp_all add: commands_okD awaiting_def isCurrent_def)
  with g(1) show ?thesis by (rule quiet_commands)
qed

lemma timedOut_commands: "commands_ok h \<Longrightarrow> commands_ok (apply_call wizard_ops k (timedOut i) h)"
proof (cases "isCurrent (h_lifecycle h) i")
  case True
  assume ok: "commands_ok h"
  obtain e l where f: "timedOut i (h_lifecycle h) = (e, l)" by fastforce
  with True have "ef_send_hello e = False" "ef_admitted e = False" "ef_detach e" "lc_current l = None"
    by (auto simp: timedOut_def retry_socket_def no_effects_def Let_def)
  with lost_commands [where f = "timedOut i", OF ok f] show ?thesis by simp
qed (simp add: apply_call_def timedOut_def)

lemma timeout_commands:
  assumes "commands_ok h"
  shows "commands_ok (admission_expires wizard_ops k h)" "commands_ok (pong_expires wizard_ops k p h)"
proof -
  have q: "quiet h (h\<lparr>h_admission_timer := None\<rparr>)" "quiet h (h\<lparr>h_pong_timers := x, h_missed := n\<rparr>)"
    "quiet h (h\<lparr>h_pong_timers := x, h_missed := n, h_status := CsDegraded\<rparr>)" for x n
    by (simp_all add: quiet_silent core_def)
  note c = quiet_commands [OF q(1) assms] quiet_commands [OF q(2) assms] quiet_commands [OF q(3) assms]
  show "commands_ok (admission_expires wizard_ops k h)"
    by (simp add: admission_expires_def c(1) timedOut_commands Let_def)
  show "commands_ok (pong_expires wizard_ops k p h)"
    by (simp add: pong_expires_def c(3) timedOut_commands quiet_commands [OF quiet_basic(2) c(2)] Let_def)
qed

lemma onclose_commands: "commands_ok h \<Longrightarrow> commands_ok (socket_onclose wizard_ops k code reason h)"
proof -
  assume ok: "commands_ok h"
  let ?h = "set_ready k ReadyClosed h"
  have "awaiting ?h \<Longrightarrow> awaiting h" by (auto simp: awaiting_def set_ready_def split: if_splits)
  moreover have "marked ?h = marked h" "durable ?h = durable h"
    by (simp_all add: marked_def durable_def set_ready_def)
  ultimately have c1: "commands_ok ?h" using ok by (auto simp: commands_ok_def)
  have "awaiting (?h\<lparr>h_socket := None\<rparr>) = awaiting ?h" "marked (?h\<lparr>h_socket := None\<rparr>) = marked ?h"
    "durable (?h\<lparr>h_socket := None\<rparr>) = durable ?h"
    by (simp_all add: awaiting_def marked_def durable_def)
  with c1 have c: "commands_ok ?h" "commands_ok (?h\<lparr>h_socket := None\<rparr>)" by (simp_all add: commands_ok_def)
  let ?f = "closed (snd k) code reason"
  have a: "commands_ok (apply_call wizard_ops k ?f g)" if "commands_ok g" "isCurrent (h_lifecycle g) (snd k)" for g
  proof -
    obtain e l where f: "?f (h_lifecycle g) = (e, l)" by fastforce
    with that(2) have "ef_send_hello e = False" "ef_admitted e = False" "lc_current l = None"
      "ef_detach e \<or> ef_reconnect_in_ms e \<noteq> None \<or> ef_stop e"
      by (auto simp: closed_def retry_socket_def no_effects_def Let_def split: if_splits)
    with lost_commands [where f = ?f, OF that(1) f] show ?thesis by simp
  qed
  show ?thesis
  proof (cases "closure_current k ?h")
    case True
    then have "isCurrent (h_lifecycle ?h) (snd k)" by (simp add: closure_current_def)
    with a [OF c(1)] a [OF c(2)] have "commands_ok (apply_call wizard_ops k ?f ?h)"
      "commands_ok (apply_call wizard_ops k ?f (?h\<lparr>h_socket := None\<rparr>))" by simp_all
    with True show ?thesis by (simp add: socket_onclose_def Let_def)
  next
    case False
    with c(1) show ?thesis by (simp add: socket_onclose_def Let_def)
  qed
qed

lemma onopen_commands: "commands_ok h \<Longrightarrow> commands_ok (socket_onopen wizard_ops k h)"
proof (cases "closure_current k (set_ready k ReadyOpen h)")
  case False
  assume ok: "commands_ok h"
  have "awaiting (close_socket k (set_ready k ReadyOpen h)) \<Longrightarrow> awaiting h"
    using False by (auto simp: awaiting_def close_socket_def set_ready_def closure_current_def split: if_splits)
  with ok False show ?thesis
    by (simp add: socket_onopen_def Let_def)
      (simp add: commands_ok_def marked_def durable_def close_socket_def set_ready_def)
next
  case True
  assume ok: "commands_ok h"
  let ?h = "set_ready k ReadyOpen h"
  obtain t h1 where t: "setTimer (AdmissionTimer k) ADMISSION_TIMEOUT_MS (wlog LogInfo OpenWaiting ?h) = (t, h1)"
    by fastforce
  let ?g = "h1\<lparr>h_admission_timer := Some t\<rparr>"
  have "quiet ?h (snd (setTimer (AdmissionTimer k) ADMISSION_TIMEOUT_MS (wlog LogInfo OpenWaiting ?h)))"
    by (rule quiet_trans [OF quiet_basic(2) quiet_setTimer]) simp
  with t have "quiet ?h h1" by simp
  then have q: "quiet ?h ?g" by (rule quiet_update) (simp_all add: core_def)
  from True have cur: "isCurrent (h_lifecycle ?h) (snd k)" "\<not> h_disposed ?h" by (simp_all add: closure_current_def)
  with quiet_fields [OF q] wizard_app.opened_exact [of ?g "snd k" k]
  have "apply_call wizard_ops k (opened (snd k)) ?g = requestSnapshotW ?g" by (simp add: wizard_ops_def)
  then have eq: "socket_onopen wizard_ops k h = requestSnapshotW ?g"
    using True t by (simp add: socket_onopen_def wizard_ops_def Let_def)
  have "marked ?h" "h_session ?h \<noteq> None"
    using commands_okD(1,3) [OF ok] cur(2) by (simp_all add: marked_def set_ready_def)
  then have "marked ?g" "h_session ?g \<noteq> None" using quiet_marked [OF q] quiet_fields [OF q] by simp_all
  with requestSnapshotW_durable quiet_marked [OF quiet_requestSnapshotW] show ?thesis
    unfolding eq commands_ok_def by simp
qed

lemma connect_commands: "marked h \<Longrightarrow> \<not> h_admitted h \<Longrightarrow> commands_ok (connect h) \<or> h_disposed h"
  by (auto simp: connect_def begin_socket_def Let_def commands_ok_def marked_def awaiting_def isCurrent_def)

lemma disposed_commands: "marked h \<Longrightarrow> h_disposed h \<Longrightarrow> commands_ok h"
  by (simp add: commands_ok_def awaiting_def)

lemma mount_commands:
  assumes "commands_ok h" "h_disposed h"
  shows "commands_ok (mount sid token h)"
proof -
  have m: "marked (h\<lparr>h_session := sid\<rparr>)" using assms by (simp add: commands_ok_def marked_def)
  show ?thesis
  proof (cases "sid = None \<or> \<not> truthy token")
    case True
    with m assms(2) show ?thesis
      by (intro disposed_commands) (auto simp: mount_def marked_def Let_def split: option.splits)
  next
    case False
    let ?g = "h\<lparr>h_session := sid, h_admitted := False, h_mounts := Suc (h_mounts h), h_disposed := False,
      h_lifecycle := newLifecycle, h_token := nullish token []\<rparr>"
    from m False have "marked ?g" by (simp add: marked_def)
    with connect_commands [of ?g] have "commands_ok (connect ?g)" by simp
    with False show ?thesis by (auto simp: mount_def Let_def split: option.splits)
  qed
qed

lemma unmount_commands: "commands_ok h \<Longrightarrow> commands_ok (wizard_unmount h)"
proof -
  assume ok: "commands_ok h"
  have "h_trace (unmount h) = h_trace h \<and> h_pending (unmount h) = h_pending h \<and> h_disposed (unmount h)"
    by (simp add: unmount_def clearAdmissionTimer_def clearRef_eq clearHeartbeat_eq fold_clearTimer close_socket_def
        set_ready_def Let_def split: option.splits)
  with ok have "commands_ok (unmount h)" by (intro disposed_commands) (simp_all add: commands_ok_def marked_def)
  from quiet_commands [OF quiet_forget_timers this] show ?thesis by (simp add: wizard_unmount_def Let_def)
qed

text \<open>The replay sends durable frames only.\<close>

lemma send_all_shut:
  "h_socket h = Some k \<Longrightarrow> map_of (h_sockets h) k \<noteq> Some ReadyOpen \<Longrightarrow> send_all fs h = h"
  by (induction fs arbitrary: h) (simp_all add: rawSend_def)

lemma replay_commands:
  assumes "marked h" "h_admitted h" "h_replay h \<Longrightarrow> h_socket h = Some k"
    and "h_replay h \<Longrightarrow> map_of (h_sockets h) k = Some ReadyOpen \<Longrightarrow> durable h"
  shows "commands_ok (replayPending n h)"
proof (cases "h_replay h")
  case False
  with assms(1,2) show ?thesis by (simp add: replayPending_def commands_ok_def awaiting_def)
next
  case True
  let ?g = "h\<lparr>h_replay := False\<rparr>" and ?fs = "map (\<lambda>e. pf_frame (snd e)) (h_pending h)"
  have g: "h_socket ?g = Some k" "marked ?g" "h_admitted ?g" using assms(1-3) True by (simp_all add: marked_def)
  have "marked (send_all ?fs ?g) \<and> h_admitted (send_all ?fs ?g)"
  proof (cases "map_of (h_sockets h) k = Some ReadyOpen")
    case ready: True
    have "commands_sent (map (Sent k) fs) = []" if "list_all (\<lambda>f. \<not> command f) fs" for fs
      using that by (induction fs) simp_all
    from this [of "rev ?fs"] assms(4) [OF True ready] have "commands_sent (rev (map (Sent k) ?fs)) = []"
      by (simp add: rev_map durable_def list_all_iff)
    with send_all_trace [OF g(1), of ?fs] ready g show ?thesis by (simp add: marked_def)
  next
    case False
    with send_all_shut [of ?g k ?fs] g show ?thesis by simp
  qed
  then have "commands_ok (send_all ?fs ?g)" by (simp add: commands_ok_def awaiting_def)
  with True quiet_commands [OF quiet_basic(2) this] show ?thesis by (simp add: replayPending_def Let_def)
qed

lemma snapshot_commands:
  assumes inv: "hook_inv h" and ok: "commands_ok h" and cur: "closure_current k h"
  shows "commands_ok (applySnapshotW m (admit_socket wizard_ops k h))"
proof -
  let ?g = "admit_socket wizard_ops k h" and ?b = "before_replay m (admit_socket wizard_ops k h)"
  show ?thesis
  proof (cases "h_admit h = Some (snd k) \<and> lc_admitted_id (h_lifecycle h) \<noteq> Some (snd k)")
    case True
    then have ad: "h_admit h = Some (snd k)" "lc_admitted_id (h_lifecycle h) \<noteq> Some (snd k)" by simp_all
    note a = wizard_app.admit_exact [OF cur ad]
    from inv cur have s: "h_socket h = Some k" by (cases k) (simp add: hook_inv_def hook_ok_def closure_current_def)
    have "quiet ?g ?b" by (rule quiet_before_replay)
    then have b: "h_socket ?b = Some k" "h_sockets ?b = h_sockets h" "h_admitted ?b"
      using quiet_fields [OF \<open>quiet ?g ?b\<close>] a s by simp_all
    have "\<not> h_admitted h"
      using inv ad(2) cur by (auto simp: hook_inv_def hook_ok_def isAdmitted_def isCurrent_def closure_current_def)
    moreover have "isCurrent (h_lifecycle h) (snd k)" "\<not> h_disposed h" "k = (h_mounts h, snd k)"
      using cur by (auto simp: closure_current_def prod_eq_iff)
    ultimately have "map_of (h_sockets h) k = Some ReadyOpen \<Longrightarrow> awaiting h"
      unfolding awaiting_def by metis
    then have d: "map_of (h_sockets h) k = Some ReadyOpen \<Longrightarrow> durable ?b"
      using commands_okD(2) [OF ok] quiet_durable [OF \<open>quiet ?g ?b\<close>] a(2) by (simp add: durable_def)
    have "h_disposed ?g \<or> h_session ?g \<noteq> None"
      using a(7) commands_okD(3) [OF ok] cur by (simp add: closure_current_def)
    then have "marked ?g" using commands_okD(1) [OF ok] a(1,2) by (auto simp: marked_def)
    then have "marked ?b" using quiet_marked [OF \<open>quiet ?g ?b\<close>] by simp
    from replay_commands [OF this b(3)] b d show ?thesis unfolding applySnapshotW_eq by simp
  next
    case False
    then have "?g = h"
      by (auto simp: admit_socket_def apply_call_def snapshot_def)
    moreover have "\<not> h_replay (before_replay m h)"
      using quiet_fields [OF quiet_before_replay [of h m]] inv by (simp add: hook_inv_def)
    ultimately have "applySnapshotW m ?g = before_replay m h" by (simp add: applySnapshotW_eq replayPending_def)
    with quiet_commands [OF quiet_before_replay ok] show ?thesis by simp
  qed
qed

lemma message_commands:
  assumes "hook_inv h" "commands_ok h" "closure_current k h"
  shows "commands_ok (handleMessageW k raw h)"
proof (cases raw)
  case None
  with assms show ?thesis by (simp add: handleMessageW_def quiet_commands [OF quiet_basic(2)])
next
  case (Some m)
  note q = quiet_commands [OF _ assms(2)]
  have "commands_ok (wizard_control k m t h)" for t
    unfolding wizard_control_def
    by (simp add: q [OF quiet_basic(7)] q [OF quiet_ack_w] q [OF quiet_clock_w] q [OF quiet_start_scheduled]
        q [OF quiet_basic(2)] q [OF quiet_threshold] snapshot_commands [OF assms] assms(2))
  moreover have "quiet h (if b then scheduleSnapshotResync (applyBroadcastEnvelopeW e p h) else applyBroadcastEnvelopeW e p h)"
    for b e p
    using quiet_broadcast_w quiet_trans [OF quiet_broadcast_w quiet_resync] by simp
  from q [OF quiet_trans [OF this quiet_basic(2)]]
  have "commands_ok (wlog l w (if b then scheduleSnapshotResync (applyBroadcastEnvelopeW e p h) else applyBroadcastEnvelopeW e p h))"
    for b e p l w .
  ultimately show ?thesis using assms Some by (simp add: handleMessageW_def Let_def)
qed

lemma wizard_timer_commands:
  assumes "hook_inv h" "commands_ok h" "e \<in> set (h_timers h)"
  shows "commands_ok (wizard_timer_fires e h)"
proof -
  obtain j d t where e: "e = (j, d, t)" by (cases e) auto
  have c: "quiet h (clearTimer j h)" by (rule quiet_basic)
  note q = quiet_commands [OF _ assms(2)]
  have ok: "commands_ok (clearTimer j h)" by (rule q [OF c])
  show ?thesis
  proof (cases t)
    case ReconnectTimer
    with e assms(3) have "j \<in> recon (h_timers h)" by (auto simp: recon_def)
    with assms(1) have "\<not> h_disposed h" "\<not> h_admitted h"
      by (auto simp: hook_inv_def hook_ok_def isAdmitted_def isCurrent_def)
    with connect_commands [OF commands_okD(1) [OF ok]] ReconnectTimer e show ?thesis
      by (simp add: wizard_timer_fires_def clearTimer_def)
  qed (simp_all add: wizard_timer_fires_def e ok q [OF quiet_ping] timeout_commands [OF ok]
      q [OF quiet_trans [OF c quiet_probe]] q [OF quiet_trans [OF c quiet_again(1)]] q [OF quiet_trans [OF c quiet_again(2)]])
qed

lemma wizard_event_commands:
  assumes "hook_inv h" "commands_ok h" "can_happen ev h"
  shows "commands_ok (wizard_event ev h)"
proof -
  note q = quiet_commands [OF _ assms(2)]
  have "commands_ok (wizard_handles ev h)"
    using assms
    by (cases ev) (simp_all add: q [OF quiet_pass_time] wizard_handles_def can_happen_def mount_commands unmount_commands
      onopen_commands onclose_commands message_commands socket_onerror_def q [OF quiet_basic(2)] wizard_timer_commands
      wizard_call_commands)
  then show ?thesis unfolding wizard_event_def by (rule quiet_commands [OF quiet_start_effect])
qed

lemma wizard_run_commands: "hook_inv h \<Longrightarrow> commands_ok h \<Longrightarrow> commands_ok (wizard_run evs h)"
  by (induction evs arbitrary: h) (simp_all add: wizard_event_commands wizard_event_inv)

section \<open>Properties\<close>

text \<open>
  C13: a command with a deadline is never sent twice. In every run of the console, whatever is
  sent, whichever acknowledgements are lost and however often the connection breaks, no clip
  command, return to idle, pause or request for a fallback goes out a second time: the replay
  after a reconnect holds the durable events only.
\<close>

theorem commands_are_sent_once: "distinct (commands_sent (h_trace (wizard_run evs (initial_wizard now perf uuid))))"
proof -
  have "commands_ok (initial_wizard now perf uuid)"
    by (simp add: commands_ok_def marked_def awaiting_def initial_wizard_def)
  from wizard_run_commands [OF initial_wizard_inv this] show ?thesis by (simp add: commands_ok_def marked_def)
qed

text \<open>
  The console speaks only when admitted, and is understood. In every run, an event or a
  request for a fallback is only ever sent on a socket whose snapshot had admitted the console
  before; two such frames with the same sequence number are the same frame; and every frame that
  is sent passes the guards of the shared package.
\<close>

theorem wizard_speaks_only_when_admitted:
  assumes "h = wizard_run evs (initial_wizard now perf uuid)"
    and "h_trace h = ws @ Sent k f # us"
    and "isEventEnvelope f \<or> field f ''type'' = Some (JStr ''request_fallback'')"
  shows "AdmittedOn k \<in> set us \<and>
    (\<forall>k' g. Sent k' g \<in> set (h_trace h) \<and> isEventEnvelope g \<and> frame_seq g = frame_seq f \<longrightarrow> g = f) \<and>
    list_all accepted_on_wire (h_trace h)"
proof -
  have inv: "hook_inv h" using wizard_machine.run_inv [OF initial_wizard_inv] by (simp add: assms(1))
  moreover have "interview_frame f" using assms(3) by (simp add: interview_frame_def)
  ultimately show ?thesis
    using speech_facts [of h ws k f us] assms(2) trace_accepted [OF inv] by (auto simp: interview_frame_def)
qed

definition console_script :: "wizard_call socket_event list" where
  "console_script =
     [Mount (Some ''S1'') (Some ''tok''), SocketOpens (1, 1), Receives (1, 1) (Some example_snapshot),
      App (SendClipCommand ''C02'')]"

definition example_console :: wizard where
  "example_console = initial_wizard 1000 0 decimal"

definition console_frame :: json where
  "console_frame = envelope ''S1'' ''wizard'' 0 1000 ClipCommand
     [(''command_id'', JStr ''cmd-2''), (''expires_at_ms'', JNum (of_int 6000)), (''snapshot_revision'', JNum 4),
      (''clip_id'', JStr ''C02'')]"

lemma console_trace:
  "h_trace (wizard_run console_script example_console) =
     [] @ Sent (1, 1) console_frame #
     [AdmittedOn (1, 1), Sent (1, 1) (reconnect_hello ''S1'' ''wizard'' example_console), Dialed (1, 1) ''S1'' ''tok'']"
  by code_simp

theorem wizard_speaks_only_when_admitted_witness:
  "AdmittedOn (1, 1) \<in> set [AdmittedOn (1, 1), Sent (1, 1) (reconnect_hello ''S1'' ''wizard'' example_console),
     Dialed (1, 1) ''S1'' ''tok'']"
proof -
  have "isEventEnvelope console_frame" by code_simp
  from wizard_speaks_only_when_admitted [OF _ console_trace disjI1 [OF this], of console_script 1000 0 decimal]
  show ?thesis by (simp add: example_console_def)
qed

lemma ack_pending_eq:
  "ack_pending m h =
     (Option.bind (ak_event_id m) (map_of (h_pending h)),
      snd (ack_pending m h))"
  by (auto simp: ack_pending_def Let_def split: option.splits)

lemma map_delete_absent: "map_of ps k = None \<Longrightarrow> filter (\<lambda>e. fst e \<noteq> k) ps = ps"
  by (rule filter_True) (auto simp: map_of_eq_None_iff image_iff)

lemma ack_pending_fields:
  fixes m h
  defines "h1 \<equiv> snd (ack_pending m h)" and "p \<equiv> Option.bind (ak_event_id m) (map_of (h_pending h))"
  shows "h_last_ack h1 = Some \<lparr>av_event_id = ak_event_id m, av_status = ak_status m, av_reason = ak_reason m\<rparr>"
    and "h_last_acked h1 = (case p of None \<Rightarrow> h_last_acked h
       | Some q \<Rightarrow> if ak_status m = Rejected then h_last_acked h else max (h_last_acked h) (pf_sequence q))"
    and "h_pending h1 = filter (\<lambda>e. Some (fst e) \<noteq> ak_event_id m) (h_pending h)"
    and "h_revision h1 = h_revision h" "h_session h1 = h_session h"
  by (auto simp: h1_def p_def ack_pending_def map_delete_def Let_def map_delete_absent split: option.splits)

lemma ack_pending_wizard:
  fixes h :: wizard and m :: event_ack_message
  defines "h1 \<equiv> snd (ack_pending m h)"
  shows "wz_start_in_flight h1 = wz_start_in_flight h" "wz_start_error h1 = wz_start_error h"
    "wz_resync_timer h1 = wz_resync_timer h"
  by (simp_all add: h1_def ack_pending_def Let_def split: option.splits)

lemma requestSnapshotW_fields:
  "h_last_ack (requestSnapshotW h) = h_last_ack h" "h_last_acked (requestSnapshotW h) = h_last_acked h"
  "h_revision (requestSnapshotW h) = h_revision h" "wz_start_in_flight (requestSnapshotW h) = wz_start_in_flight h"
  "wz_start_error (requestSnapshotW h) = wz_start_error h"
  "h_pending (requestSnapshotW h) =
     (if h_session h = None then h_pending h else filter (\<lambda>e. \<not> pf_short_lived (snd e)) (h_pending h))"
  by (simp_all add: requestSnapshotW_def forget_short_lived_def rawSend_def Let_def split: option.splits)

lemma appendLog_acks [simp]:
  "h_last_ack (appendLog n l t h) = h_last_ack h" "h_last_acked (appendLog n l t h) = h_last_acked h"
  by (simp_all add: appendLog_def newId_def Let_def)

lemma wlog_fields [simp]:
  "wz_start_in_flight (wlog l t h) = wz_start_in_flight h" "wz_start_error (wlog l t h) = wz_start_error h"
  "wz_resync_timer (wlog l t h) = wz_resync_timer h"
  by (simp_all add: appendLog_def newId_def Let_def)

lemma resync_fields [simp]:
  "h_last_ack (scheduleSnapshotResync h) = h_last_ack h" "h_last_acked (scheduleSnapshotResync h) = h_last_acked h"
  "h_revision (scheduleSnapshotResync h) = h_revision h" "h_pending (scheduleSnapshotResync h) = h_pending h"
  "wz_start_in_flight (scheduleSnapshotResync h) = wz_start_in_flight h"
  "wz_resync_timer (scheduleSnapshotResync h) \<noteq> None"
  by (simp_all add: scheduleSnapshotResync_def setTimer_def)

lemma bump_fields [simp]:
  "h_last_ack (bumpLocalRevision e h) = h_last_ack h" "h_last_acked (bumpLocalRevision e h) = h_last_acked h"
  "h_pending (bumpLocalRevision e h) = h_pending h" "wz_start_in_flight (bumpLocalRevision e h) = wz_start_in_flight h"
  "h_revision (bumpLocalRevision e h) = h_revision h + (if bumps_revision e then 1 else 0)"
  by (simp_all add: bumpLocalRevision_def set_view_w_def Let_def)

text \<open>
  What an acknowledgement does. It is shown; it settles the frame with its id, if that is
  still pending, and no other; an accepted or duplicate one raises the high-water mark to the
  frame's number and never lowers it. The local revision is raised by one exactly when a frame
  was accepted that was still pending and whose event the server counts, so that a rejection
  never lifts it past the server's. A rejected start is no longer in flight, and its reason is
  shown; an acceptance asks for the snapshot within the resync delay; a rejection for a stale
  revision asks for it at once, which also gives up the commands with a deadline.
\<close>

theorem acknowledgement_settles_its_frame:
  "let p = Option.bind (ak_event_id m) (map_of (h_pending h)); h' = handleAckW m h;
       rest = filter (\<lambda>e. Some (fst e) \<noteq> ak_event_id m) (h_pending h);
       rejected = (ak_status m = Rejected); refused_start = (rejected \<and> is_start p);
       stale = (rejected \<and> ak_reason m = Some ''stale_snapshot_revision'' \<and> h_session h \<noteq> None) in
     h_last_ack h' = Some \<lparr>av_event_id = ak_event_id m, av_status = ak_status m, av_reason = ak_reason m\<rparr> \<and>
     h_last_acked h' = (case p of None \<Rightarrow> h_last_acked h
       | Some q \<Rightarrow> if rejected then h_last_acked h else max (h_last_acked h) (pf_sequence q)) \<and>
     h_pending h' = (if stale then filter (\<lambda>e. \<not> pf_short_lived (snd e)) rest else rest) \<and>
     h_revision h' = h_revision h + (case p of None \<Rightarrow> 0
       | Some q \<Rightarrow> if ak_status m = Accepted \<and> bumps_revision (pf_event_type q) then 1 else 0) \<and>
     wz_start_in_flight h' = (wz_start_in_flight h \<and> \<not> refused_start) \<and>
     (if refused_start then wz_start_error h' = Some (startRejectionMessage (ak_reason m)) else True) \<and>
     (if ak_status m = Accepted then wz_resync_timer h' \<noteq> None else True)"
proof -
  let ?p = "Option.bind (ak_event_id m) (map_of (h_pending h))"
  obtain h1 where a: "ack_pending m h = (?p, h1)" using ack_pending_eq [of m h] by simp
  have h1: "h1 = snd (ack_pending m h)" by (simp add: a)
  note f = ack_pending_fields [of m h, folded h1] ack_pending_wizard [of m h, folded h1]
  show ?thesis
  proof (cases "ak_status m = Rejected")
    case True
    then have "handleAckW m h = ack_rejected ?p m h1" by (simp add: handleAckW_def a)
    with True f show ?thesis
      by (cases "is_start ?p") (simp_all add: ack_rejected_def start_refused_def requestSnapshotW_fields Let_def split: option.split)
  next
    case False
    then have "handleAckW m h = ack_settled ?p m h1" by (simp add: handleAckW_def a)
    with False f show ?thesis by (simp add: ack_settled_def Let_def split: option.split)
  qed
qed

text \<open>The finding on the router: a frame that names its type in \<open>command_type\<close> is dropped.\<close>

lemma router_drops_command_type:
  assumes "isWebSocketControlMessage m" "field m ''type'' = None"
  shows "handleMessageW k (Some m) h = h"
  using assms by (simp add: handleMessageW_def wizard_control_def text_at_def)

end
