(* ===== verification/SessionAuth.thy ===== *)
theory SessionAuth
  imports Messages
begin

text \<open>
  \<open>packages/shared/src/sessionAuth.ts\<close>: the bearer tokens of a tab, held in memory and mirrored in
  \<open>sessionStorage\<close>. The theory models the module state together with the storage, and shows that
  the two together implement one plain table of tokens, on which a reload has no effect.
\<close>

section \<open>Session storage\<close>

text \<open>
  \<open>sessionStorage\<close> of a tab. A browser may refuse the writes (private mode), or refuse the object
  altogether, so that every access throws. The keys split into those whose entries are plain texts
  and those whose entries the code writes with \<open>JSON.stringify\<close> and reads with \<open>JSON.parse\<close>; an entry
  of the second kind is the value that parsing it gives, \<open>None\<close> when the text does not parse.
\<close>

record web_storage =
  ws_usable :: bool
  ws_writable :: bool
  ws_texts :: "(string \<times> string) list"
  ws_values :: "(string \<times> json option) list"

record auth =
  au_storage :: web_storage
  au_tokens :: "(string \<times> string) list"
  au_active :: "string option"

definition MINDPROBE_WS_PROTOCOL :: string where
  "MINDPROBE_WS_PROTOCOL = ''mindprobe.v1''"

definition STORAGE_PREFIX :: string where
  "STORAGE_PREFIX = ''mindprobe.access_token.''"

definition ACTIVE_SESSION_KEY :: string where
  "ACTIVE_SESSION_KEY = ''mindprobe.active_session_id''"

definition JOINED_SESSION_KEY :: string where
  "JOINED_SESSION_KEY = ''mindprobe.joined_session''"

record joined_session =
  j_sessionId :: string
  j_role :: string
  j_accessToken :: string

definition storageKey :: "string \<Rightarrow> string" where
  "storageKey session_id = STORAGE_PREFIX @ session_id"

definition writeStorage :: "string \<Rightarrow> string \<Rightarrow> web_storage \<Rightarrow> web_storage" where
  "writeStorage k v s =
     (if ws_usable s \<and> ws_writable s then s\<lparr>ws_texts := map_set k v (ws_texts s)\<rparr> else s)"

definition writeStorageJson :: "string \<Rightarrow> json \<Rightarrow> web_storage \<Rightarrow> web_storage" where
  "writeStorageJson k v s =
     (if ws_usable s \<and> ws_writable s then s\<lparr>ws_values := map_set k (Some v) (ws_values s)\<rparr> else s)"

definition readStorage :: "string \<Rightarrow> web_storage \<Rightarrow> string option" where
  "readStorage k s = (if ws_usable s then map_of (ws_texts s) k else None)"

text \<open>An absent entry and an entry that does not parse are both \<open>None\<close> for a reader.\<close>

definition readStorageJson :: "string \<Rightarrow> web_storage \<Rightarrow> json option" where
  "readStorageJson k s = (if ws_usable s then nullish (map_of (ws_values s) k) None else None)"

definition removeStorage :: "string \<Rightarrow> web_storage \<Rightarrow> web_storage" where
  "removeStorage k s =
     (if ws_usable s then
        s\<lparr>ws_texts := map_delete k (ws_texts s), ws_values := map_delete k (ws_values s)\<rparr>
      else s)"

section \<open>Operations\<close>

text \<open>A read may also fill the memory, so it returns the state beside the value.\<close>

definition in_storage :: "(web_storage \<Rightarrow> web_storage) \<Rightarrow> 'a auth_scheme \<Rightarrow> 'a auth_scheme" where
  "in_storage f a = a\<lparr>au_storage := f (au_storage a)\<rparr>"

definition rememberActiveSessionId :: "string \<Rightarrow> 'a auth_scheme \<Rightarrow> 'a auth_scheme" where
  "rememberActiveSessionId session_id a =
     in_storage (writeStorage ACTIVE_SESSION_KEY session_id) (a\<lparr>au_active := Some session_id\<rparr>)"

definition readActiveSessionId :: "'a auth_scheme \<Rightarrow> string option \<times> 'a auth_scheme" where
  "readActiveSessionId a =
     (if au_active a \<noteq> None then (au_active a, a)
      else let stored = readStorage ACTIVE_SESSION_KEY (au_storage a)
        in (stored, if truthy stored then a\<lparr>au_active := stored\<rparr> else a))"

definition rememberAccessToken :: "string \<Rightarrow> string \<Rightarrow> 'a auth_scheme \<Rightarrow> 'a auth_scheme" where
  "rememberAccessToken session_id token a =
     in_storage (writeStorage (storageKey session_id) token)
       (rememberActiveSessionId session_id (a\<lparr>au_tokens := map_set session_id token (au_tokens a)\<rparr>))"

definition readAccessToken :: "string \<Rightarrow> 'a auth_scheme \<Rightarrow> string option \<times> 'a auth_scheme" where
  "readAccessToken session_id a =
     (let cached = map_of (au_tokens a) session_id in
      if truthy cached then (cached, a)
      else let stored = readStorage (storageKey session_id) (au_storage a)
        in (stored, if truthy stored then a\<lparr>au_tokens := map_set session_id (the stored) (au_tokens a)\<rparr> else a))"

definition currentAccessToken :: "'a auth_scheme \<Rightarrow> string option \<times> 'a auth_scheme" where
  "currentAccessToken a =
     (case readActiveSessionId a of
        (None, a1) \<Rightarrow> (None, a1)
      | (Some session_id, a1) \<Rightarrow> readAccessToken session_id a1)"

definition joined_json :: "joined_session \<Rightarrow> json" where
  "joined_json j = JObj [(''sessionId'', JStr (j_sessionId j)), (''role'', JStr (j_role j)),
     (''accessToken'', JStr (j_accessToken j))]"

definition rememberJoinedSession :: "joined_session \<Rightarrow> 'a auth_scheme \<Rightarrow> 'a auth_scheme" where
  "rememberJoinedSession j a =
     in_storage (writeStorageJson JOINED_SESSION_KEY (joined_json j))
       (rememberAccessToken (j_sessionId j) (j_accessToken j) a)"

fun string_field :: "json \<Rightarrow> string \<Rightarrow> string option" where
  "string_field j k = (case field j k of Some (JStr s) \<Rightarrow> Some s | _ \<Rightarrow> None)"

definition parse_joined :: "json \<Rightarrow> joined_session option" where
  "parse_joined v =
     (if truthy (string_field v ''sessionId'') \<and> truthy (string_field v ''role'') \<and>
         truthy (string_field v ''accessToken'')
      then Some \<lparr>j_sessionId = the (string_field v ''sessionId''), j_role = the (string_field v ''role''),
        j_accessToken = the (string_field v ''accessToken'')\<rparr>
      else None)"

definition readJoinedSession :: "'a auth_scheme \<Rightarrow> joined_session option \<times> 'a auth_scheme" where
  "readJoinedSession a =
     (case readStorageJson JOINED_SESSION_KEY (au_storage a) of
        None \<Rightarrow> (None, a)
      | Some v \<Rightarrow> (case parse_joined v of
          None \<Rightarrow> (None, a)
        | Some j \<Rightarrow> (Some j, rememberAccessToken (j_sessionId j) (j_accessToken j) a)))"

definition clearJoinedSession :: "string option \<Rightarrow> 'a auth_scheme \<Rightarrow> 'a auth_scheme" where
  "clearJoinedSession session_id a =
     (let (target, a1) = (case session_id of Some i \<Rightarrow> (Some i, a) | None \<Rightarrow> readActiveSessionId a);
          a2 = a1\<lparr>au_active := None\<rparr>;
          a3 = (if truthy target
                then in_storage (removeStorage (storageKey (the target)))
                       (a2\<lparr>au_tokens := map_delete (the target) (au_tokens a2)\<rparr>)
                else a2)
      in in_storage (removeStorage JOINED_SESSION_KEY) (in_storage (removeStorage ACTIVE_SESSION_KEY) a3))"

definition websocketSubprotocols :: "string \<Rightarrow> string list" where
  "websocketSubprotocols token = [MINDPROBE_WS_PROTOCOL, ''bearer.'' @ token]"

text \<open>A reload of the tab: the module is evaluated again, the storage stays.\<close>

definition reload :: "auth \<Rightarrow> auth" where
  "reload a = \<lparr>au_storage = au_storage a, au_tokens = [], au_active = None\<rparr>"

section \<open>The table of tokens\<close>

text \<open>
  What the module promises: one table of tokens, the session remembered last, and the joined
  session. There is no memory and no storage in it, and a reload does nothing.
\<close>

record auth_spec =
  as_tokens :: "string \<Rightarrow> string option"
  as_active :: "string option"
  as_joined :: "joined_session option"

datatype auth_call =
    RememberToken string string
  | RememberJoined joined_session
  | ReadToken string
  | CurrentToken
  | ReadJoined
  | ClearJoined "string option"
  | ReloadTab

fun auth_step :: "auth_call \<Rightarrow> auth \<Rightarrow> auth" where
  "auth_step (RememberToken i t) a = rememberAccessToken i t a"
| "auth_step (RememberJoined j) a = rememberJoinedSession j a"
| "auth_step (ReadToken i) a = snd (readAccessToken i a)"
| "auth_step CurrentToken a = snd (currentAccessToken a)"
| "auth_step ReadJoined a = snd (readJoinedSession a)"
| "auth_step (ClearJoined i) a = clearJoinedSession i a"
| "auth_step ReloadTab a = reload a"

definition spec_remember :: "string \<Rightarrow> string \<Rightarrow> auth_spec \<Rightarrow> auth_spec" where
  "spec_remember i t s = s\<lparr>as_tokens := (as_tokens s)(i \<mapsto> t), as_active := Some i\<rparr>"

definition spec_joined :: "auth_spec \<Rightarrow> joined_session option" where
  "spec_joined s = (case as_joined s of
     Some j \<Rightarrow> if j_sessionId j \<noteq> [] \<and> j_role j \<noteq> [] \<and> j_accessToken j \<noteq> [] then Some j else None
   | None \<Rightarrow> None)"

definition spec_clear :: "string option \<Rightarrow> auth_spec \<Rightarrow> auth_spec" where
  "spec_clear i s = (let target = or_else i (as_active s) in
     \<lparr>as_tokens = (if truthy target then (as_tokens s)(the target := None) else as_tokens s),
      as_active = None, as_joined = None\<rparr>)"

fun spec_step :: "auth_call \<Rightarrow> auth_spec \<Rightarrow> auth_spec" where
  "spec_step (RememberToken i t) s = spec_remember i t s"
| "spec_step (RememberJoined j) s =
     (spec_remember (j_sessionId j) (j_accessToken j) s)\<lparr>as_joined := Some j\<rparr>"
| "spec_step (ReadToken i) s = s"
| "spec_step CurrentToken s = s"
| "spec_step ReadJoined s = (case spec_joined s of
     Some j \<Rightarrow> spec_remember (j_sessionId j) (j_accessToken j) s | None \<Rightarrow> s)"
| "spec_step (ClearJoined i) s = spec_clear i s"
| "spec_step ReloadTab s = s"

definition new_storage :: web_storage where
  "new_storage = \<lparr>ws_usable = True, ws_writable = True, ws_texts = [], ws_values = []\<rparr>"

definition new_auth :: auth where
  "new_auth = \<lparr>au_storage = new_storage, au_tokens = [], au_active = None\<rparr>"

definition new_auth_spec :: auth_spec where
  "new_auth_spec = \<lparr>as_tokens = (\<lambda>_. None), as_active = None, as_joined = None\<rparr>"

section \<open>The module implements the table\<close>

lemma storageKey_inj [simp]: "storageKey i = storageKey j \<longleftrightarrow> i = j"
  by (simp add: storageKey_def)

lemma storage_keys_apart [simp]:
  "storageKey i \<noteq> ACTIVE_SESSION_KEY" "ACTIVE_SESSION_KEY \<noteq> storageKey i"
  "storageKey i \<noteq> JOINED_SESSION_KEY" "JOINED_SESSION_KEY \<noteq> storageKey i"
  "ACTIVE_SESSION_KEY \<noteq> JOINED_SESSION_KEY" "JOINED_SESSION_KEY \<noteq> ACTIVE_SESSION_KEY"
  by (simp_all add: storageKey_def STORAGE_PREFIX_def ACTIVE_SESSION_KEY_def JOINED_SESSION_KEY_def)

lemma truthy_Some: "truthy v \<Longrightarrow> v = Some (the v)"
  by (cases v) auto

lemma parse_joined_json:
  "parse_joined (joined_json j) =
     (if j_sessionId j \<noteq> [] \<and> j_role j \<noteq> [] \<and> j_accessToken j \<noteq> [] then Some j else None)"
  by (cases j) (simp add: parse_joined_def joined_json_def)

text \<open>
  The simulation: the storage holds the table, and what the memory holds agrees with it.
\<close>

definition implements :: "auth \<Rightarrow> auth_spec \<Rightarrow> bool" where
  "implements a s \<longleftrightarrow>
     ws_usable (au_storage a) \<and> ws_writable (au_storage a) \<and>
     (\<forall>i. map_of (ws_texts (au_storage a)) (storageKey i) = as_tokens s i) \<and>
     (\<forall>i. map_of (au_tokens a) i \<noteq> None \<longrightarrow> map_of (au_tokens a) i = as_tokens s i) \<and>
     map_of (ws_texts (au_storage a)) ACTIVE_SESSION_KEY = as_active s \<and>
     (au_active a \<noteq> None \<longrightarrow> au_active a = as_active s) \<and>
     map_of (ws_values (au_storage a)) JOINED_SESSION_KEY = map_option (\<lambda>j. Some (joined_json j)) (as_joined s)"

named_theorems storage_simps \<open>reads after writes of the session storage\<close>
lemmas [storage_simps] = implements_def in_storage_def writeStorage_def writeStorageJson_def readStorage_def
  readStorageJson_def removeStorage_def

lemma implements_remember:
  "implements a s \<Longrightarrow> implements (rememberAccessToken i t a) (spec_remember i t s)"
  by (auto simp: storage_simps rememberAccessToken_def rememberActiveSessionId_def spec_remember_def)

lemma active_agrees:
  assumes "implements a s"
  shows "fst (readActiveSessionId a) = as_active s" and "implements (snd (readActiveSessionId a)) s"
  using assms by (auto simp: storage_simps readActiveSessionId_def Let_def)

lemma token_agrees:
  assumes "implements a s"
  shows "fst (readAccessToken i a) = as_tokens s i" and "implements (snd (readAccessToken i a)) s"
proof -
  have cached: "truthy (map_of (au_tokens a) i) \<Longrightarrow> map_of (au_tokens a) i = as_tokens s i"
    using assms unfolding implements_def by (metis truthy.simps(1))
  have stored: "readStorage (storageKey i) (au_storage a) = as_tokens s i"
    using assms by (simp add: storage_simps)
  show "fst (readAccessToken i a) = as_tokens s i"
    using cached stored by (simp add: readAccessToken_def Let_def)
  have "implements (a\<lparr>au_tokens := map_set i (the (as_tokens s i)) (au_tokens a)\<rparr>) s" if "truthy (as_tokens s i)"
    using assms truthy_Some [OF that] by (auto simp: implements_def)
  then show "implements (snd (readAccessToken i a)) s"
    using assms stored by (simp add: readAccessToken_def Let_def)
qed

lemma current_agrees:
  assumes "implements a s"
  shows "fst (currentAccessToken a) = Option.bind (as_active s) (as_tokens s)"
    and "implements (snd (currentAccessToken a)) s"
proof -
  obtain r a1 where r: "readActiveSessionId a = (r, a1)" by fastforce
  have "r = as_active s" "implements a1 s" using active_agrees [OF assms] r by simp_all
  then show "fst (currentAccessToken a) = Option.bind (as_active s) (as_tokens s)"
    and "implements (snd (currentAccessToken a)) s"
    using r by (auto simp: currentAccessToken_def token_agrees split: option.split)
qed

lemma joined_agrees:
  assumes "implements a s"
  shows "fst (readJoinedSession a) = spec_joined s" and "implements (snd (readJoinedSession a)) (spec_step ReadJoined s)"
proof -
  have stored: "readStorageJson JOINED_SESSION_KEY (au_storage a) = map_option joined_json (as_joined s)"
    using assms by (cases "as_joined s") (simp_all add: storage_simps)
  then show "fst (readJoinedSession a) = spec_joined s"
    by (auto simp: readJoinedSession_def spec_joined_def parse_joined_json split: option.split)
  show "implements (snd (readJoinedSession a)) (spec_step ReadJoined s)"
    using stored assms
    by (auto simp: readJoinedSession_def spec_joined_def parse_joined_json implements_remember split: option.split)
qed

lemma implements_clear:
  assumes "implements a s"
  shows "implements (clearJoinedSession i a) (spec_clear i s)"
proof -
  obtain t a1 where r: "(case i of Some i \<Rightarrow> (Some i, a) | None \<Rightarrow> readActiveSessionId a) = (t, a1)" by fastforce
  have t: "t = or_else i (as_active s)" and a1: "implements a1 s"
    using r assms active_agrees [OF assms] by (auto split: option.splits)
  show ?thesis
    using a1 by (cases "truthy t") (auto simp: clearJoinedSession_def r t [symmetric] spec_clear_def storage_simps Let_def)
qed

lemma implements_step:
  assumes "implements a s" shows "implements (auth_step c a) (spec_step c s)"
proof (cases c)
  case (RememberJoined j)
  have "implements (rememberAccessToken (j_sessionId j) (j_accessToken j) a)
      (spec_remember (j_sessionId j) (j_accessToken j) s)"
    by (rule implements_remember [OF assms])
  then show ?thesis by (simp add: RememberJoined rememberJoinedSession_def storage_simps)
next
  case ReloadTab
  with assms show ?thesis by (simp add: storage_simps reload_def)
next
  case ReadJoined
  with joined_agrees(2) [OF assms] show ?thesis by simp
qed (simp_all add: assms implements_remember implements_clear token_agrees current_agrees)

lemma implements_run: "implements a s \<Longrightarrow> implements (fold auth_step cs a) (fold spec_step cs s)"
  by (induction cs arbitrary: a s) (simp_all add: implements_step)

text \<open>
  C27: the memory and the storage of a tab behave as one table. After any sequence of remembering,
  reading, restoring and clearing tokens and of reloads of the tab, every read gives what a plain
  table of tokens gives that never sees the reloads: a token is the one remembered last for its
  session and not cleared since, the current token is that of the session remembered last, and a
  restored console is the one that joined, as long as it was not cleared.
\<close>

theorem tokens_survive_reloads:
  "let a = fold auth_step cs new_auth; s = fold spec_step cs new_auth_spec in
     fst (readAccessToken i a) = as_tokens s i \<and>
     fst (currentAccessToken a) = Option.bind (as_active s) (as_tokens s) \<and>
     fst (readJoinedSession a) = spec_joined s"
proof -
  have "implements new_auth new_auth_spec"
    by (simp add: storage_simps new_auth_def new_storage_def new_auth_spec_def)
  from implements_run [OF this] show ?thesis by (simp add: token_agrees current_agrees joined_agrees Let_def)
qed

end
