(* ===== verification/ReviewSession.thy ===== *)
theory ReviewSession
  imports SessionAuth
begin

text \<open>
  \<open>packages/shared/src/reviewSession.ts\<close>: the login of the teacher's console. A review login has an
  access token and a one-time refresh token; presenting a refresh token twice makes the server
  revoke the login. The theory models the module state, the session storage, the requests and the
  refreshes under way and the page events, and shows that a tab, its reloads and its duplicates do
  not present a refresh token twice.
\<close>

section \<open>State\<close>

text \<open>A number that is not finite has no JSON; it is \<open>None\<close> here and \<open>null\<close> in the storage.\<close>

record review_session =
  rs_sessionId :: string
  rs_role :: string
  rs_accessToken :: string
  rs_refreshToken :: string
  rs_expiresAt :: "rat option"

text \<open>The refresh of a flight is pending until the server answers.\<close>

datatype flight_result = Pending | Resolved review_session | RejectedWith string

record flight =
  fl_epoch :: int
  fl_sessionId :: string
  fl_result :: flight_result

text \<open>
  A request of \<open>authorizedReviewFetch\<close>: performing with a review login behind it, performing
  with its answer returned as it is, reading the detail of a 401, or waiting for a flight.
\<close>

datatype request = Performing | Final | ReadingDetail | Rotating nat | Finished

text \<open>
  \<open>rv_navigation\<close> is the type of the navigation that opened the document, when the browser tells
  it. The last three fields record what left the document: the refresh tokens presented, the access
  tokens of the requests, and the notes given to the listeners.
\<close>

record review = auth +
  rv_navigation :: "string option"
  rv_memory :: "review_session option"
  rv_known :: "string list"
  rv_flight :: "nat option"
  rv_epoch :: int
  rv_guards :: bool
  rv_listeners :: "nat list"
  rv_flights :: "flight list"
  rv_requests :: "(nat \<times> request) list"
  rv_presented :: "string list"
  rv_performed :: "string list"
  rv_notified :: "(nat \<times> string) list"

definition REVIEW_SESSION_KEY :: string where
  "REVIEW_SESSION_KEY = ''mindprobe.review_session''"

definition RELOAD_MARKER_KEY :: string where
  "RELOAD_MARKER_KEY = ''mindprobe.review_reload''"

definition isReviewRole :: "string \<Rightarrow> bool" where
  "isReviewRole v \<longleftrightarrow> v = ''teacher'' \<or> v = ''observer''"

definition review_json :: "review_session \<Rightarrow> json" where
  "review_json s = JObj [(''sessionId'', JStr (rs_sessionId s)), (''role'', JStr (rs_role s)),
     (''accessToken'', JStr (rs_accessToken s)), (''refreshToken'', JStr (rs_refreshToken s)),
     (''expiresAt'', case rs_expiresAt s of Some n \<Rightarrow> JNum n | None \<Rightarrow> JNull)]"

definition isStoredReviewSession :: "json \<Rightarrow> bool" where
  "isStoredReviewSession v \<longleftrightarrow>
     truthy (string_field v ''sessionId'') \<and>
     (case string_field v ''role'' of Some r \<Rightarrow> isReviewRole r | None \<Rightarrow> False) \<and>
     truthy (string_field v ''accessToken'') \<and>
     hasString v ''refreshToken'' \<and> hasNumber v ''expiresAt''"

fun number_field :: "json \<Rightarrow> string \<Rightarrow> rat option" where
  "number_field j k = (case field j k of Some (JNum n) \<Rightarrow> Some n | _ \<Rightarrow> None)"

text \<open>The fields that the code reads from a parsed value it has accepted.\<close>

definition stored_review :: "json \<Rightarrow> review_session" where
  "stored_review v = \<lparr>rs_sessionId = nullish (string_field v ''sessionId'') [],
     rs_role = nullish (string_field v ''role'') [],
     rs_accessToken = nullish (string_field v ''accessToken'') [],
     rs_refreshToken = nullish (string_field v ''refreshToken'') [],
     rs_expiresAt = number_field v ''expiresAt''\<rparr>"

section \<open>The login and its storage\<close>

definition hold :: "review_session \<Rightarrow> review \<Rightarrow> review" where
  "hold s r = r\<lparr>rv_memory := Some s, rv_known := List.insert (rs_accessToken s) (rv_known r)\<rparr>"

definition persistReview :: "review_session \<Rightarrow> bool \<Rightarrow> review \<Rightarrow> review" where
  "persistReview s includeRefresh r =
     in_storage (writeStorageJson REVIEW_SESSION_KEY
       (review_json (if includeRefresh then s else s\<lparr>rs_refreshToken := []\<rparr>))) r"

definition navigationType :: "review \<Rightarrow> string" where
  "navigationType r = nullish (rv_navigation r) []"

definition shouldClaimParkedRefresh :: "review \<Rightarrow> bool" where
  "shouldClaimParkedRefresh r =
     (let type = navigationType r in
      if type = ''reload'' then True
      else if type = ''navigate'' \<or> type = ''back_forward'' \<or> type = ''prerender'' then False
      else readStorage RELOAD_MARKER_KEY (au_storage r) = Some ''1'')"

definition rememberReviewSession :: "review_session \<Rightarrow> review \<Rightarrow> review" where
  "rememberReviewSession s r =
     in_storage (removeStorage RELOAD_MARKER_KEY) (persistReview s False (hold s r))"

definition readReviewSession :: "review \<Rightarrow> review_session option \<times> review" where
  "readReviewSession r =
     (case rv_memory r of
        Some s \<Rightarrow> (Some s, r)
      | None \<Rightarrow>
          (case readStorageJson REVIEW_SESSION_KEY (au_storage r) of
             None \<Rightarrow> (None, r)
           | Some v \<Rightarrow>
               if \<not> isStoredReviewSession v then (None, r)
               else
                 let parsed = stored_review v;
                     claimRefresh = rs_refreshToken parsed \<noteq> [] \<and> shouldClaimParkedRefresh r;
                     session = (if claimRefresh then parsed else parsed\<lparr>rs_refreshToken := []\<rparr>)
                 in (Some session,
                     in_storage (removeStorage RELOAD_MARKER_KEY) (persistReview session False (hold session r)))))"

definition clearReviewSession :: "review \<Rightarrow> review" where
  "clearReviewSession r =
     clearJoinedSession None
       (in_storage (removeStorage RELOAD_MARKER_KEY)
         (in_storage (removeStorage REVIEW_SESSION_KEY)
           (r\<lparr>rv_epoch := rv_epoch r + 1, rv_memory := None, rv_known := [], rv_flight := None\<rparr>)))"

text \<open>What a rejected promise carries: the \<open>detail\<close> and the \<open>message\<close> of the error, where it has them.\<close>

datatype thrown = Thrown "string option" "string option"

fun detailOf :: "thrown \<Rightarrow> string" where
  "detailOf (Thrown detail message) =
     (if truthy detail then the detail
      else if truthy message then the message
      else ''invalid_refresh_token'')"

definition notifyReviewDrop :: "string \<Rightarrow> review \<Rightarrow> review" where
  "notifyReviewDrop detail r =
     r\<lparr>rv_notified := rv_notified r @ map (\<lambda>l. (l, detail)) (rv_listeners r)\<rparr>"

text \<open>The text of an entry counts here even when it does not parse.\<close>

definition dropUnrecoverableReviewSession :: "string \<Rightarrow> review \<Rightarrow> review" where
  "dropUnrecoverableReviewSession detail r =
     (let hadCredentials = (rv_memory r \<noteq> None \<or>
            (ws_usable (au_storage r) \<and> map_of (ws_values (au_storage r)) REVIEW_SESSION_KEY \<noteq> None));
          r1 = clearReviewSession r
      in if hadCredentials then notifyReviewDrop detail r1 else r1)"

definition subscribeReviewSessionDrop :: "nat \<Rightarrow> review \<Rightarrow> review" where
  "subscribeReviewSessionDrop l r =
     r\<lparr>rv_listeners := (if l \<in> set (rv_listeners r) then rv_listeners r else rv_listeners r @ [l])\<rparr>"

definition unsubscribe :: "nat \<Rightarrow> review \<Rightarrow> review" where
  "unsubscribe l r = r\<lparr>rv_listeners := filter (\<lambda>k. k \<noteq> l) (rv_listeners r)\<rparr>"

definition parkReviewRefreshForReload :: "review \<Rightarrow> review" where
  "parkReviewRefreshForReload r =
     (case rv_memory r of
        None \<Rightarrow> r
      | Some s \<Rightarrow>
          if rs_refreshToken s = [] then r
          else in_storage (writeStorage RELOAD_MARKER_KEY ''1'') (persistReview s True r))"

definition unparkReviewRefresh :: "review \<Rightarrow> review" where
  "unparkReviewRefresh r =
     (let r1 = in_storage (removeStorage RELOAD_MARKER_KEY) r in
      case rv_memory r1 of Some s \<Rightarrow> persistReview s False r1 | None \<Rightarrow> r1)"

text \<open>\<open>installReviewTabGuards\<close> registers the two page handlers; without them the page events do nothing.\<close>

definition installReviewTabGuards :: "review \<Rightarrow> review" where
  "installReviewTabGuards r = r\<lparr>rv_guards := True\<rparr>"

definition on_pagehide :: "review \<Rightarrow> review" where
  "on_pagehide r = (if rv_guards r then parkReviewRefreshForReload r else r)"

definition on_pageshow :: "bool \<Rightarrow> review \<Rightarrow> review" where
  "on_pageshow persisted r = (if rv_guards r \<and> persisted then unparkReviewRefresh r else r)"

section \<open>Refreshing\<close>

definition isExpiredReviewDetail :: "string \<Rightarrow> bool" where
  "isExpiredReviewDetail detail \<longleftrightarrow> detail = ''expired_session_token'' \<or> detail = ''expired''"

definition isUnrecoverableReviewDetail :: "string \<Rightarrow> bool" where
  "isUnrecoverableReviewDetail detail \<longleftrightarrow>
     detail = ''revoked_session_token'' \<or> detail = ''refresh_reused'' \<or> detail = ''invalid_refresh_token''"

definition sessionForToken :: "string \<Rightarrow> review \<Rightarrow> review_session option \<times> review" where
  "sessionForToken requestedToken r =
     (if requestedToken = [] then (None, r)
      else case readReviewSession r of
        (None, r1) \<Rightarrow> (None, r1)
      | (Some stored, r1) \<Rightarrow>
          (if requestedToken = rs_accessToken stored \<or> requestedToken \<in> set (rv_known r1)
           then Some stored else None, r1))"

text \<open>The answer to a refresh: its body, where an absent or ill-typed field is \<open>None\<close>, or a rejection.\<close>

record refresh_body =
  b_access_token :: "string option"
  b_refresh_token :: "string option"
  b_role :: "string option"
  b_expires_at :: "rat option option"

datatype refresh_answer = Answered refresh_body | Failed thrown

definition body_complete :: "refresh_body \<Rightarrow> bool" where
  "body_complete b \<longleftrightarrow> truthy (b_access_token b) \<and> truthy (b_refresh_token b) \<and>
     (case b_role b of Some role \<Rightarrow> isReviewRole role | None \<Rightarrow> False) \<and> b_expires_at b \<noteq> None"

definition rotated_session :: "string \<Rightarrow> refresh_body \<Rightarrow> review_session" where
  "rotated_session sid b = \<lparr>rs_sessionId = sid, rs_role = the (b_role b), rs_accessToken = the (b_access_token b),
     rs_refreshToken = the (b_refresh_token b), rs_expiresAt = the (b_expires_at b)\<rparr>"

text \<open>The catch of a flight: the error is thrown on, so the flight is rejected with it.\<close>

definition flight_catch :: "int \<Rightarrow> thrown \<Rightarrow> review \<Rightarrow> flight_result \<times> review" where
  "flight_catch epoch e r =
     (RejectedWith (detailOf e),
      if rv_epoch r = epoch then dropUnrecoverableReviewSession (detailOf e) r else r)"

text \<open>The flight up to its await: it presents the refresh token and is pending, or has failed.\<close>

definition start_flight :: "review \<Rightarrow> flight \<times> review" where
  "start_flight r =
     (let epoch = rv_epoch r in
      case readReviewSession r of
        (Some latest, r1) \<Rightarrow>
          (if rs_refreshToken latest \<noteq> [] then
             (\<lparr>fl_epoch = epoch, fl_sessionId = rs_sessionId latest, fl_result = Pending\<rparr>,
              r1\<lparr>rv_presented := rv_presented r1 @ [rs_refreshToken latest]\<rparr>)
           else
             let (res, r2) = flight_catch epoch (Thrown None (Some ''review session missing'')) r1
             in (\<lparr>fl_epoch = epoch, fl_sessionId = rs_sessionId latest, fl_result = res\<rparr>, r2))
      | (None, r1) \<Rightarrow>
          let (res, r2) = flight_catch epoch (Thrown None (Some ''review session missing'')) r1
          in (\<lparr>fl_epoch = epoch, fl_sessionId = [], fl_result = res\<rparr>, r2))"

text \<open>The rest of the flight, once the server answered.\<close>

definition flight_answer :: "flight \<Rightarrow> refresh_answer \<Rightarrow> review \<Rightarrow> flight_result \<times> review" where
  "flight_answer f ans r =
     (case ans of
        Failed e \<Rightarrow> flight_catch (fl_epoch f) e r
      | Answered b \<Rightarrow>
          if rv_epoch r \<noteq> fl_epoch f then
            flight_catch (fl_epoch f) (Thrown None (Some ''review session missing'')) r
          else if \<not> body_complete b then
            flight_catch (fl_epoch f) (Thrown None (Some ''review refresh incomplete'')) r
          else
            let s = rotated_session (fl_sessionId f) b in (Resolved s, rememberReviewSession s r))"

datatype rotation = RotationMissing | RotationCurrent review_session | RotationFlight nat

definition refreshReviewSession :: "review_session \<Rightarrow> review \<Rightarrow> rotation \<times> review" where
  "refreshReviewSession expected r =
     (case readReviewSession r of
        (None, r1) \<Rightarrow> (RotationMissing, r1)
      | (Some current, r1) \<Rightarrow>
          if rs_refreshToken current = [] then (RotationMissing, r1)
          else if rs_refreshToken current \<noteq> rs_refreshToken expected then (RotationCurrent current, r1)
          else (case rv_flight r1 of
            Some f \<Rightarrow> (RotationFlight f, r1)
          | None \<Rightarrow>
              (let (f, r2) = start_flight r1; n = length (rv_flights r2) in
               (RotationFlight n, r2\<lparr>rv_flights := rv_flights r2 @ [f], rv_flight := Some n\<rparr>))))"

text \<open>The handlers attached to a flight run after it settled: both forget it if it is still the one.\<close>

definition flight_settled :: "nat \<Rightarrow> review \<Rightarrow> review" where
  "flight_settled n r =
     (if n < length (rv_flights r) \<and> fl_result (rv_flights r ! n) \<noteq> Pending \<and> rv_flight r = Some n
      then r\<lparr>rv_flight := None\<rparr> else r)"

section \<open>A request\<close>

definition perform :: "string \<Rightarrow> review \<Rightarrow> review" where
  "perform token r = r\<lparr>rv_performed := rv_performed r @ [token]\<rparr>"

text \<open>\<open>authorizedReviewFetch\<close>, cut at its awaits.\<close>

definition fetch_start :: "string \<Rightarrow> string option \<Rightarrow> review \<Rightarrow> request \<times> review" where
  "fetch_start requestedToken session_id r =
     (case sessionForToken requestedToken r of
        (None, r1) \<Rightarrow> (Final, perform requestedToken r1)
      | (Some stored, r1) \<Rightarrow>
          if truthy session_id \<and> session_id \<noteq> Some (rs_sessionId stored)
          then (Final, perform requestedToken r1)
          else (Performing, perform (rs_accessToken stored) r1))"

fun fetch_response :: "int \<Rightarrow> request \<Rightarrow> request" where
  "fetch_response http Performing = (if http \<noteq> 401 then Finished else ReadingDetail)"
| "fetch_response http Final = Finished"
| "fetch_response http q = q"

definition fetch_detail :: "string \<Rightarrow> review \<Rightarrow> request \<times> review" where
  "fetch_detail detail r =
     (if \<not> isExpiredReviewDetail detail then
        (Finished, if isUnrecoverableReviewDetail detail then dropUnrecoverableReviewSession detail r else r)
      else case readReviewSession r of
        (None, r1) \<Rightarrow> (Finished, dropUnrecoverableReviewSession detail r1)
      | (Some latest, r1) \<Rightarrow>
          if rs_refreshToken latest = [] then (Finished, dropUnrecoverableReviewSession detail r1)
          else (case refreshReviewSession latest r1 of
            (RotationMissing, r2) \<Rightarrow> (Finished, r2)
          | (RotationCurrent s, r2) \<Rightarrow> (Final, perform (rs_accessToken s) r2)
          | (RotationFlight n, r2) \<Rightarrow> (Rotating n, r2)))"

definition fetch_rotated :: "flight_result \<Rightarrow> request \<Rightarrow> review \<Rightarrow> request \<times> review" where
  "fetch_rotated res q r =
     (case res of
        Pending \<Rightarrow> (q, r)
      | Resolved s \<Rightarrow> (Final, perform (rs_accessToken s) r)
      | RejectedWith _ \<Rightarrow> (Finished, r))"

section \<open>A document\<close>

datatype review_event =
    RememberLogin review_session
  | ClearLogin
  | DropLogin string
  | ReadLogin
  | StartFetch string "string option"
  | FetchResponse nat int
  | FetchDetail nat string
  | FlightAnswer nat refresh_answer
  | FlightSettled nat
  | FetchRotated nat
  | PageHide
  | PageShow bool
  | Subscribe nat
  | Unsubscribe nat

definition put_request :: "nat \<Rightarrow> request \<times> review \<Rightarrow> review" where
  "put_request i qr = (snd qr)\<lparr>rv_requests := map_set i (fst qr) (rv_requests (snd qr))\<rparr>"

definition put_flight :: "nat \<Rightarrow> flight_result \<times> review \<Rightarrow> review" where
  "put_flight n fr =
     (snd fr)\<lparr>rv_flights := (rv_flights (snd fr))[n := (rv_flights (snd fr) ! n)\<lparr>fl_result := fst fr\<rparr>]\<rparr>"

text \<open>An event that cannot happen in a state leaves the state as it is.\<close>

fun review_step :: "review_event \<Rightarrow> review \<Rightarrow> review" where
  "review_step (RememberLogin s) r = rememberReviewSession s r"
| "review_step ClearLogin r = clearReviewSession r"
| "review_step (DropLogin detail) r = dropUnrecoverableReviewSession detail r"
| "review_step ReadLogin r = snd (readReviewSession r)"
| "review_step (StartFetch token sid) r = put_request (length (rv_requests r)) (fetch_start token sid r)"
| "review_step (FetchResponse i http) r =
     (case map_of (rv_requests r) i of Some q \<Rightarrow> put_request i (fetch_response http q, r) | None \<Rightarrow> r)"
| "review_step (FetchDetail i detail) r =
     (if map_of (rv_requests r) i = Some ReadingDetail then put_request i (fetch_detail detail r) else r)"
| "review_step (FlightAnswer n ans) r =
     (if n < length (rv_flights r) \<and> fl_result (rv_flights r ! n) = Pending
      then put_flight n (flight_answer (rv_flights r ! n) ans r) else r)"
| "review_step (FlightSettled n) r = flight_settled n r"
| "review_step (FetchRotated i) r =
     (case map_of (rv_requests r) i of
        Some (Rotating n) \<Rightarrow>
          if n < length (rv_flights r) then put_request i (fetch_rotated (fl_result (rv_flights r ! n)) (Rotating n) r)
          else r
      | _ \<Rightarrow> r)"
| "review_step PageHide r = on_pagehide r"
| "review_step (PageShow persisted) r = on_pageshow persisted r"
| "review_step (Subscribe l) r = subscribeReviewSessionDrop l r"
| "review_step (Unsubscribe l) r = unsubscribe l r"

text \<open>A document of the console: the module is evaluated and \<open>main.tsx\<close> installs the page handlers.\<close>

definition open_document :: "string option \<Rightarrow> web_storage \<Rightarrow> review" where
  "open_document nav st = installReviewTabGuards
     \<lparr>au_storage = st, au_tokens = [], au_active = None, rv_navigation = nav, rv_memory = None, rv_known = [],
      rv_flight = None, rv_epoch = 0, rv_guards = False, rv_listeners = [], rv_flights = [], rv_requests = [],
      rv_presented = [], rv_performed = [], rv_notified = []\<rparr>"

definition review_run :: "review_event list \<Rightarrow> review \<Rightarrow> review" where
  "review_run evs r = fold review_step evs r"

text \<open>The refresh tokens that a document receives from the server, and the one its storage holds.\<close>

fun received :: "review_event \<Rightarrow> string list" where
  "received (RememberLogin s) = [rs_refreshToken s]"
| "received (FlightAnswer n (Answered b)) = (case b_refresh_token b of Some t \<Rightarrow> [t] | None \<Rightarrow> [])"
| "received e = []"

definition parked_in :: "web_storage \<Rightarrow> string list" where
  "parked_in st = (case readStorageJson REVIEW_SESSION_KEY st of
     Some v \<Rightarrow> filter (\<lambda>t. t \<noteq> []) [nullish (string_field v ''refreshToken'') []]
   | None \<Rightarrow> [])"

section \<open>What the operations leave alone\<close>

text \<open>The fields that a refresh token can be lost or doubled through.\<close>

definition same_flights :: "review \<Rightarrow> review \<Rightarrow> bool" where
  "same_flights r r' \<longleftrightarrow> rv_flight r' = rv_flight r \<and> rv_epoch r' = rv_epoch r \<and> rv_flights r' = rv_flights r \<and>
     rv_presented r' = rv_presented r \<and> rv_navigation r' = rv_navigation r"

named_theorems review_frame \<open>fields of the review login that an operation leaves alone\<close>

lemma in_storage_frame [review_frame]:
  "rv_memory (in_storage f r) = rv_memory r" "rv_flight (in_storage f r) = rv_flight r"
  "rv_epoch (in_storage f r) = rv_epoch r" "rv_flights (in_storage f r) = rv_flights r"
  "rv_presented (in_storage f r) = rv_presented r" "rv_navigation (in_storage f r) = rv_navigation r"
  by (simp_all add: in_storage_def)

text \<open>
  Clearing the joined session touches the tokens, the active session and the storage, from which it
  only removes entries.
\<close>

definition only_removes :: "(web_storage \<Rightarrow> web_storage) \<Rightarrow> bool" where
  "only_removes f \<longleftrightarrow> (\<forall>s. ws_usable (f s) = ws_usable s \<and> ws_writable (f s) = ws_writable s \<and>
     (\<forall>k. map_of (ws_values s) k = None \<longrightarrow> map_of (ws_values (f s)) k = None))"

lemma removes_removeStorage: "only_removes (removeStorage k)"
  by (simp add: only_removes_def removeStorage_def)

lemma removes_compose: "only_removes f \<Longrightarrow> only_removes g \<Longrightarrow> only_removes (\<lambda>s. f (g s))"
  by (simp add: only_removes_def)

lemma clearJoined_shape:
  obtains f t where "clearJoinedSession i a = (in_storage f a)\<lparr>au_active := None, au_tokens := t\<rparr>" "only_removes f"
proof -
  define target where "target = (case i of Some j \<Rightarrow> Some j | None \<Rightarrow> fst (readActiveSessionId a))"
  define g where "g = (\<lambda>s. removeStorage JOINED_SESSION_KEY (removeStorage ACTIVE_SESSION_KEY s))"
  define h where "h = (\<lambda>s. g (removeStorage (storageKey (the target)) s))"
  define a1 where "a1 = (case i of Some _ \<Rightarrow> a | None \<Rightarrow> snd (readActiveSessionId a))"
  have "(snd (readActiveSessionId a))\<lparr>au_active := None\<rparr> = a\<lparr>au_active := None\<rparr>"
    by (simp add: readActiveSessionId_def Let_def)
  then have a1: "a1\<lparr>au_active := None\<rparr> = a\<lparr>au_active := None\<rparr>" by (cases i) (simp_all add: a1_def)
  have which: "(case i of Some i \<Rightarrow> (Some i, a) | None \<Rightarrow> readActiveSessionId a) = (target, a1)"
    by (cases i) (simp_all add: target_def a1_def)
  have eq: "clearJoinedSession i a =
      in_storage (removeStorage JOINED_SESSION_KEY) (in_storage (removeStorage ACTIVE_SESSION_KEY)
        (if truthy target then in_storage (removeStorage (storageKey (the target)))
           ((a\<lparr>au_active := None\<rparr>)\<lparr>au_tokens := map_delete (the target) (au_tokens (a\<lparr>au_active := None\<rparr>))\<rparr>)
         else a\<lparr>au_active := None\<rparr>))"
    unfolding clearJoinedSession_def Let_def which prod.case a1 by (rule refl)
  have g: "only_removes g" unfolding g_def by (rule removes_compose [OF removes_removeStorage removes_removeStorage])
  have h: "only_removes h" unfolding h_def by (rule removes_compose [OF g removes_removeStorage])
  show ?thesis
  proof (cases "truthy target")
    case True
    then have "clearJoinedSession i a =
        (in_storage h a)\<lparr>au_active := None, au_tokens := map_delete (the target) (au_tokens a)\<rparr>"
      by (simp add: eq in_storage_def g_def h_def)
    with h show ?thesis by (rule that [rotated])
  next
    case False
    then have "clearJoinedSession i a = (in_storage g a)\<lparr>au_active := None, au_tokens := au_tokens a\<rparr>"
      by (simp add: eq in_storage_def g_def)
    with g show ?thesis by (rule that [rotated])
  qed
qed

lemma clearJoined_frame [review_frame]:
  "rv_memory (clearJoinedSession i r) = rv_memory r" "rv_flight (clearJoinedSession i r) = rv_flight r"
  "rv_epoch (clearJoinedSession i r) = rv_epoch r" "rv_flights (clearJoinedSession i r) = rv_flights r"
  "rv_presented (clearJoinedSession i r) = rv_presented r" "rv_navigation (clearJoinedSession i r) = rv_navigation r"
proof -
  obtain f t where eq: "clearJoinedSession i r = (in_storage f r)\<lparr>au_active := None, au_tokens := t\<rparr>"
    by (rule clearJoined_shape)
  show "rv_memory (clearJoinedSession i r) = rv_memory r" "rv_flight (clearJoinedSession i r) = rv_flight r"
    "rv_epoch (clearJoinedSession i r) = rv_epoch r" "rv_flights (clearJoinedSession i r) = rv_flights r"
    "rv_presented (clearJoinedSession i r) = rv_presented r"
    "rv_navigation (clearJoinedSession i r) = rv_navigation r"
    unfolding eq by (simp_all add: review_frame)
qed

lemma persist_frame [review_frame]:
  "rv_memory (persistReview s b r) = rv_memory r" "same_flights r (persistReview s b r)"
  by (simp_all add: persistReview_def review_frame same_flights_def)

lemma clearJoined_values:
  "map_of (ws_values (au_storage a)) k = None \<Longrightarrow>
     map_of (ws_values (au_storage (clearJoinedSession i a))) k = None"
  "ws_usable (au_storage (clearJoinedSession i a)) = ws_usable (au_storage a)"
  "ws_writable (au_storage (clearJoinedSession i a)) = ws_writable (au_storage a)"
proof -
  obtain f t where eq: "clearJoinedSession i a = (in_storage f a)\<lparr>au_active := None, au_tokens := t\<rparr>"
    and f: "only_removes f" by (rule clearJoined_shape)
  show "map_of (ws_values (au_storage a)) k = None \<Longrightarrow>
      map_of (ws_values (au_storage (clearJoinedSession i a))) k = None"
    "ws_usable (au_storage (clearJoinedSession i a)) = ws_usable (au_storage a)"
    "ws_writable (au_storage (clearJoinedSession i a)) = ws_writable (au_storage a)"
    using f by (simp_all add: eq in_storage_def only_removes_def)
qed

lemma nothing_parked: "map_of (ws_values st) REVIEW_SESSION_KEY = None \<or> \<not> ws_usable st \<Longrightarrow> parked_in st = []"
  by (auto simp: parked_in_def readStorageJson_def)

lemma clear_fields [simp]:
  "rv_memory (clearReviewSession r) = None" "rv_flight (clearReviewSession r) = None"
  "rv_epoch (clearReviewSession r) = rv_epoch r + 1" "rv_flights (clearReviewSession r) = rv_flights r"
  "rv_presented (clearReviewSession r) = rv_presented r" "rv_navigation (clearReviewSession r) = rv_navigation r"
  by (simp_all add: clearReviewSession_def review_frame)

lemma clear_parks_nothing [simp]: "parked_in (au_storage (clearReviewSession r)) = []"
  by (rule nothing_parked)
     (auto simp: clearReviewSession_def clearJoined_values in_storage_def removeStorage_def)

lemma drop_fields [simp]:
  "rv_memory (dropUnrecoverableReviewSession d r) = None" "rv_flight (dropUnrecoverableReviewSession d r) = None"
  "rv_epoch (dropUnrecoverableReviewSession d r) = rv_epoch r + 1"
  "rv_flights (dropUnrecoverableReviewSession d r) = rv_flights r"
  "rv_presented (dropUnrecoverableReviewSession d r) = rv_presented r"
  "rv_navigation (dropUnrecoverableReviewSession d r) = rv_navigation r"
  "parked_in (au_storage (dropUnrecoverableReviewSession d r)) = []"
  by (simp_all add: dropUnrecoverableReviewSession_def notifyReviewDrop_def Let_def)

lemma hold_frame [review_frame]: "rv_memory (hold s r) = Some s" "same_flights r (hold s r)"
  by (simp_all add: hold_def same_flights_def)

lemma same_flights_trans: "same_flights r r1 \<Longrightarrow> same_flights r1 r2 \<Longrightarrow> same_flights r r2"
  by (simp add: same_flights_def)

lemma remember_fields:
  "rv_memory (rememberReviewSession s r) = Some s" "same_flights r (rememberReviewSession s r)"
  by (simp_all add: rememberReviewSession_def persistReview_def hold_def review_frame same_flights_def)

lemma stored_refresh:
  assumes "readStorageJson REVIEW_SESSION_KEY st = Some v" and "rs_refreshToken (stored_review v) \<noteq> []"
  shows "parked_in st = [rs_refreshToken (stored_review v)]"
  using assms by (simp add: parked_in_def stored_review_def)

text \<open>
  A read gives the memory, or fills it from the storage; then the refresh token is the parked one
  or none.
\<close>

lemma read_cases:
  assumes "readReviewSession r = (res, r')"
  obtains (absent) "res = None" "r' = r" "rv_memory r = None"
  | (memory) s where "res = Some s" "r' = r" "rv_memory r = Some s"
  | (restored) s where "res = Some s" "rv_memory r = None" "rv_memory r' = Some s" "same_flights r r'"
      "rs_refreshToken s \<noteq> [] \<Longrightarrow>
         shouldClaimParkedRefresh r \<and> parked_in (au_storage r) = [rs_refreshToken s]"
proof (cases "rv_memory r")
  case (Some s)
  have "res = Some s" "r' = r" using assms Some by (simp_all add: readReviewSession_def)
  then show ?thesis using memory Some by blast
next
  case None
  show ?thesis
  proof (cases "readStorageJson REVIEW_SESSION_KEY (au_storage r)")
    case None
    with assms absent \<open>rv_memory r = None\<close> show ?thesis by (simp add: readReviewSession_def)
  next
    case (Some v)
    show ?thesis
    proof (cases "isStoredReviewSession v")
      case False
      with assms absent \<open>rv_memory r = None\<close> Some show ?thesis by (simp add: readReviewSession_def)
    next
      case True
      define s where "s = (if rs_refreshToken (stored_review v) \<noteq> [] \<and> shouldClaimParkedRefresh r
        then stored_review v else (stored_review v)\<lparr>rs_refreshToken := []\<rparr>)"
      have r': "res = Some s" "r' = in_storage (removeStorage RELOAD_MARKER_KEY) (persistReview s False (hold s r))"
        using assms True Some \<open>rv_memory r = None\<close> by (auto simp: readReviewSession_def s_def Let_def)
      have "rv_memory r' = Some s" "same_flights r r'"
        by (simp_all add: r' persistReview_def hold_def review_frame same_flights_def)
      moreover have "shouldClaimParkedRefresh r \<and> parked_in (au_storage r) = [rs_refreshToken s]"
        if "rs_refreshToken s \<noteq> []"
        using that stored_refresh [OF Some] by (auto simp: s_def split: if_splits)
      ultimately show ?thesis using restored r'(1) \<open>rv_memory r = None\<close> by blast
    qed
  qed
qed

section \<open>One flight at a time\<close>

text \<open>
  The invariant, for a list of tokens that were granted so far. A token that was presented is
  still in the memory only while its flight is pending; the pending flight of the current epoch is
  the one that later refreshes join; and without a login in memory nothing is under way and a token
  that may be claimed from the storage was not presented.
\<close>

definition flight_pending :: "review \<Rightarrow> nat \<Rightarrow> bool" where
  "flight_pending r n \<longleftrightarrow> n < length (rv_flights r) \<and> fl_result (rv_flights r ! n) = Pending"

definition flights_ok :: "review \<Rightarrow> bool" where
  "flights_ok r \<longleftrightarrow> (\<forall>n. flight_pending r n \<longrightarrow> fl_epoch (rv_flights r ! n) \<le> rv_epoch r \<and>
     (fl_epoch (rv_flights r ! n) = rv_epoch r \<longrightarrow> rv_flight r = Some n))"

definition token_ok :: "string set \<Rightarrow> review \<Rightarrow> string \<Rightarrow> bool" where
  "token_ok G r t \<longleftrightarrow> t \<in> G \<and> (t \<in> set (rv_presented r) \<longrightarrow>
     (\<exists>n. rv_flight r = Some n \<and> flight_pending r n \<and> fl_epoch (rv_flights r ! n) = rv_epoch r))"

definition review_inv :: "string set \<Rightarrow> review \<Rightarrow> bool" where
  "review_inv G r \<longleftrightarrow> distinct (rv_presented r) \<and> set (rv_presented r) \<subseteq> G \<and> flights_ok r \<and>
     (case rv_memory r of
        None \<Rightarrow> rv_flight r = None \<and>
          (shouldClaimParkedRefresh r \<longrightarrow>
             set (parked_in (au_storage r)) \<subseteq> G \<and> set (parked_in (au_storage r)) \<inter> set (rv_presented r) = {})
      | Some s \<Rightarrow> rs_refreshToken s \<noteq> [] \<longrightarrow> token_ok G r (rs_refreshToken s))"

lemma same_flights_ok:
  assumes "same_flights r r'"
  shows "flights_ok r' = flights_ok r" "token_ok G r' t = token_ok G r t" "flight_pending r' n = flight_pending r n"
    "rv_presented r' = rv_presented r" "rv_flight r' = rv_flight r" "rv_epoch r' = rv_epoch r"
  using assms by (simp_all add: same_flights_def flights_ok_def token_ok_def flight_pending_def)

lemma review_inv_mono: "review_inv G r \<Longrightarrow> G \<subseteq> H \<Longrightarrow> review_inv H r"
  by (auto simp: review_inv_def token_ok_def split: option.splits)

text \<open>The login is forgotten: every pending flight is of an older epoch.\<close>

definition fewer_pending :: "review \<Rightarrow> review \<Rightarrow> bool" where
  "fewer_pending r r' \<longleftrightarrow> (\<forall>n. flight_pending r' n \<longrightarrow>
     flight_pending r n \<and> fl_epoch (rv_flights r' ! n) = fl_epoch (rv_flights r ! n))"

lemma fewer_pending_same: "rv_flights r' = rv_flights r \<Longrightarrow> fewer_pending r r'"
  by (simp add: fewer_pending_def flight_pending_def)

lemma inv_forget:
  assumes "review_inv G r" and "rv_memory r' = None" and "rv_flight r' = None"
    and "rv_epoch r' = rv_epoch r + 1" and "fewer_pending r r'" and "rv_presented r' = rv_presented r"
    and "parked_in (au_storage r') = []"
  shows "review_inv G r'"
  using assms by (fastforce simp: review_inv_def flights_ok_def fewer_pending_def)

lemma inv_drop: "review_inv G r \<Longrightarrow> review_inv G (dropUnrecoverableReviewSession d r)"
  by (rule inv_forget) (simp_all add: fewer_pending_same)

text \<open>A login with a token that is new, or whose token is as good as the one before.\<close>

lemma inv_memory:
  assumes "review_inv G r" and "same_flights r r'" and "rv_memory r' = Some s"
    and "rs_refreshToken s \<noteq> [] \<Longrightarrow> token_ok G r (rs_refreshToken s)"
  shows "review_inv G r'"
  using assms by (auto simp: review_inv_def same_flights_ok)

lemma inv_remember:
  assumes "review_inv G r" and "rs_refreshToken s \<notin> G"
  shows "review_inv (insert (rs_refreshToken s) G) (rememberReviewSession s r)"
proof (rule inv_memory [OF review_inv_mono [OF assms(1)]])
  show "token_ok (insert (rs_refreshToken s) G) r (rs_refreshToken s)"
    using assms by (auto simp: token_ok_def review_inv_def)
qed (auto simp: remember_fields)

lemma inv_read:
  assumes "review_inv G r" and "readReviewSession r = (res, r')"
  shows "review_inv G r'"
  using assms(2)
proof (cases rule: read_cases)
  case (restored s)
  show ?thesis
  proof (rule inv_memory [OF assms(1) restored(4,3)])
    assume "rs_refreshToken s \<noteq> []"
    then show "token_ok G r (rs_refreshToken s)"
      using restored assms(1) by (auto simp: review_inv_def token_ok_def)
  qed
qed (use assms(1) in simp_all)

lemma inv_same:
  assumes "review_inv G r" and "same_flights r r'" and "rv_memory r' = rv_memory r" and "au_storage r' = au_storage r"
  shows "review_inv G r'"
proof -
  have "shouldClaimParkedRefresh r' = shouldClaimParkedRefresh r"
    using assms by (simp add: shouldClaimParkedRefresh_def navigationType_def same_flights_def Let_def)
  with assms show ?thesis by (auto simp: review_inv_def same_flights_ok split: option.split)
qed

lemma inv_put_request: "review_inv G (snd qr) \<Longrightarrow> review_inv G (put_request i qr)"
  by (erule inv_same) (simp_all add: put_request_def same_flights_def)

lemma inv_perform: "review_inv G r \<Longrightarrow> review_inv G (perform t r)"
  by (erule inv_same) (simp_all add: perform_def same_flights_def)

text \<open>With a login in memory the storage does not matter.\<close>

lemma inv_storage:
  assumes "review_inv G r" and "rv_memory r = Some s" and "same_flights r r'" and "rv_memory r' = Some s"
  shows "review_inv G r'"
  using assms by (auto simp: review_inv_def same_flights_ok)

lemma inv_pagehide: "review_inv G r \<Longrightarrow> review_inv G (on_pagehide r)"
  by (cases "rv_memory r")
     (auto simp: on_pagehide_def parkReviewRefreshForReload_def review_frame same_flights_def persistReview_def
       elim!: inv_storage)

lemma unmarked:
  "shouldClaimParkedRefresh (in_storage (removeStorage RELOAD_MARKER_KEY) r) \<Longrightarrow> shouldClaimParkedRefresh r"
  by (auto simp: shouldClaimParkedRefresh_def navigationType_def review_frame readStorage_def in_storage_def
      removeStorage_def Let_def split: if_splits)

lemma review_keys_apart: "REVIEW_SESSION_KEY \<noteq> RELOAD_MARKER_KEY"
  by (simp add: REVIEW_SESSION_KEY_def RELOAD_MARKER_KEY_def)

lemma parked_unmarked [simp]:
  "parked_in (au_storage (in_storage (removeStorage RELOAD_MARKER_KEY) r)) = parked_in (au_storage r)"
  using review_keys_apart
  by (simp add: parked_in_def readStorageJson_def in_storage_def removeStorage_def)

lemma inv_pageshow: "review_inv G r \<Longrightarrow> review_inv G (on_pageshow p r)"
proof (cases "rv_guards r \<and> p")
  case True
  assume inv: "review_inv G r"
  show ?thesis
  proof (cases "rv_memory r")
    case None
    then have "on_pageshow p r = in_storage (removeStorage RELOAD_MARKER_KEY) r"
      using True by (simp add: on_pageshow_def unparkReviewRefresh_def review_frame Let_def)
    with inv None show ?thesis
      by (auto simp: review_inv_def review_frame flights_ok_def flight_pending_def dest: unmarked)
  next
    case (Some s)
    then show ?thesis using inv True
      by (auto simp: on_pageshow_def unparkReviewRefresh_def review_frame same_flights_def persistReview_def Let_def
        elim!: inv_storage)
  qed
qed (auto simp: on_pageshow_def)

lemma inv_fetch_start:
  assumes "review_inv G r"
  shows "review_inv G (snd (fetch_start t sid r))"
proof -
  obtain res r1 where read: "readReviewSession r = (res, r1)" by fastforce
  have inv: "review_inv G r1" by (rule inv_read [OF assms read])
  have "snd (sessionForToken t r) \<in> {r, r1}"
    by (auto simp: sessionForToken_def read split: option.split)
  then have "review_inv G (snd (sessionForToken t r))" using inv assms by auto
  then show ?thesis
    by (auto simp: fetch_start_def split_beta intro!: inv_perform split: option.split)
qed

text \<open>A refresh presents the token of the memory, and only when no flight is under way.\<close>

lemma inv_refresh:
  assumes inv: "review_inv G r" and mem: "rv_memory r = Some s" and tok: "rs_refreshToken s \<noteq> []"
  shows "review_inv G (snd (refreshReviewSession s r))"
proof (cases "rv_flight r")
  case (Some n)
  with assms show ?thesis by (simp add: refreshReviewSession_def readReviewSession_def)
next
  case None
  let ?f = "\<lparr>fl_epoch = rv_epoch r, fl_sessionId = rs_sessionId s, fl_result = Pending\<rparr>"
  let ?r = "r\<lparr>rv_presented := rv_presented r @ [rs_refreshToken s], rv_flights := rv_flights r @ [?f],
    rv_flight := Some (length (rv_flights r))\<rparr>"
  have eq: "snd (refreshReviewSession s r) = ?r"
    using None mem tok by (simp add: refreshReviewSession_def readReviewSession_def start_flight_def Let_def)
  have fresh: "rs_refreshToken s \<in> G" "rs_refreshToken s \<notin> set (rv_presented r)"
    using inv mem tok None by (auto simp: review_inv_def token_ok_def)
  have "flights_ok ?r"
    using inv None by (fastforce simp: review_inv_def flights_ok_def flight_pending_def nth_append less_Suc_eq)
  moreover have "token_ok G ?r (rs_refreshToken s)"
    using fresh by (simp add: token_ok_def flight_pending_def nth_append)
  ultimately have "review_inv G ?r" using inv fresh mem by (simp add: review_inv_def)
  then show ?thesis by (simp only: eq)
qed

lemma inv_fetch_detail:
  assumes "review_inv G r"
  shows "review_inv G (snd (fetch_detail d r))"
proof (cases "isExpiredReviewDetail d")
  case False
  with assms show ?thesis by (simp add: fetch_detail_def inv_drop)
next
  case True
  obtain res r1 where read: "readReviewSession r = (res, r1)" by fastforce
  have inv: "review_inv G r1" by (rule inv_read [OF assms read])
  show ?thesis
  proof (cases "\<exists>s. res = Some s \<and> rs_refreshToken s \<noteq> []")
    case False
    then show ?thesis using inv True by (auto simp: fetch_detail_def read inv_drop split: option.split)
  next
    case True
    then obtain s where s: "res = Some s" "rs_refreshToken s \<noteq> []" by blast
    have "rv_memory r1 = Some s" using read s by (cases rule: read_cases) auto
    from inv_refresh [OF inv this s(2)] show ?thesis
      using s \<open>isExpiredReviewDetail d\<close>
      by (auto simp: fetch_detail_def read split_beta intro!: inv_perform split: rotation.split)
  qed
qed

lemma put_flight_fields [simp]:
  "rv_memory (put_flight n fr) = rv_memory (snd fr)" "rv_flight (put_flight n fr) = rv_flight (snd fr)"
  "rv_epoch (put_flight n fr) = rv_epoch (snd fr)" "rv_presented (put_flight n fr) = rv_presented (snd fr)"
  "rv_navigation (put_flight n fr) = rv_navigation (snd fr)" "au_storage (put_flight n fr) = au_storage (snd fr)"
  by (simp_all add: put_flight_def)

lemma put_flight_settles:
  assumes "rv_flights r1 = rv_flights r" and "res \<noteq> Pending"
  shows "flight_pending (put_flight n (res, r1)) m \<longleftrightarrow> flight_pending r m \<and> m \<noteq> n"
    and "fewer_pending r (put_flight n (res, r1))"
    and "m < length (rv_flights r) \<Longrightarrow> fl_epoch (rv_flights (put_flight n (res, r1)) ! m) = fl_epoch (rv_flights r ! m)"
proof -
  have flights: "rv_flights (put_flight n (res, r1)) ! k =
      (if k = n then (rv_flights r ! n)\<lparr>fl_result := res\<rparr> else rv_flights r ! k)"
    if "k < length (rv_flights r)" for k
    using that assms(1) by (simp add: put_flight_def nth_list_update)
  have len: "length (rv_flights (put_flight n (res, r1))) = length (rv_flights r)"
    using assms(1) by (simp add: put_flight_def)
  show pending: "flight_pending (put_flight n (res, r1)) m \<longleftrightarrow> flight_pending r m \<and> m \<noteq> n" for m
    using assms(2) by (cases "m = n") (auto simp: flight_pending_def flights len)
  show epoch: "m < length (rv_flights r) \<Longrightarrow>
      fl_epoch (rv_flights (put_flight n (res, r1)) ! m) = fl_epoch (rv_flights r ! m)" for m
    by (simp add: flights)
  show "fewer_pending r (put_flight n (res, r1))"
    unfolding fewer_pending_def using pending epoch by (metis flight_pending_def)
qed

lemma flights_ok_fewer:
  "flights_ok r \<Longrightarrow> fewer_pending r r' \<Longrightarrow> rv_epoch r' = rv_epoch r \<Longrightarrow> rv_flight r' = rv_flight r \<Longrightarrow> flights_ok r'"
  by (simp add: flights_ok_def fewer_pending_def)

text \<open>The answer of a flight either brings a new token, or forgets the login, or came too late.\<close>

lemma flight_answer_cases:
  obtains (rotated) b t where "ans = Answered b" "b_refresh_token b = Some t" "rv_epoch r = fl_epoch f"
      "flight_answer f ans r = (Resolved (rotated_session (fl_sessionId f) b),
         rememberReviewSession (rotated_session (fl_sessionId f) b) r)"
      "rs_refreshToken (rotated_session (fl_sessionId f) b) = t"
  | (dropped) d where "rv_epoch r = fl_epoch f"
      "flight_answer f ans r = (RejectedWith d, dropUnrecoverableReviewSession d r)"
  | (late) d where "rv_epoch r \<noteq> fl_epoch f" "flight_answer f ans r = (RejectedWith d, r)"
proof (cases "rv_epoch r = fl_epoch f")
  case False
  then have "\<exists>d. flight_answer f ans r = (RejectedWith d, r)"
    by (cases ans) (simp_all add: flight_answer_def flight_catch_def)
  with False late show ?thesis by blast
next
  case True
  show ?thesis
  proof (cases "\<exists>b. ans = Answered b \<and> body_complete b")
    case False
    then have "\<exists>d. flight_answer f ans r = (RejectedWith d, dropUnrecoverableReviewSession d r)"
      using True by (cases ans) (auto simp: flight_answer_def flight_catch_def)
    with True dropped show ?thesis by blast
  next
    case (True)
    then obtain b where b: "ans = Answered b" "body_complete b" by blast
    obtain t where "b_refresh_token b = Some t"
      using b(2) by (cases "b_refresh_token b") (auto simp: body_complete_def)
    then show ?thesis using rotated [of b t] b \<open>rv_epoch r = fl_epoch f\<close>
      by (simp add: flight_answer_def rotated_session_def Let_def)
  qed
qed

lemma inv_flight_answer:
  assumes inv: "review_inv G r" and pending: "flight_pending r n"
    and fresh: "set (received (FlightAnswer n ans)) \<inter> G = {}"
  shows "review_inv (G \<union> set (received (FlightAnswer n ans))) (put_flight n (flight_answer (rv_flights r ! n) ans r))"
    (is "review_inv ?G (put_flight n (flight_answer ?f ans r))")
proof (rule flight_answer_cases [of ans r ?f])
  fix b t assume a: "ans = Answered b" "b_refresh_token b = Some t"
    "flight_answer ?f ans r = (Resolved (rotated_session (fl_sessionId ?f) b),
       rememberReviewSession (rotated_session (fl_sessionId ?f) b) r)"
    "rs_refreshToken (rotated_session (fl_sessionId ?f) b) = t"
  define s where "s = rotated_session (fl_sessionId ?f) b"
  let ?r = "put_flight n (Resolved s, rememberReviewSession s r)"
  have same: "rv_flights (rememberReviewSession s r) = rv_flights r" "rv_epoch (rememberReviewSession s r) = rv_epoch r"
    "rv_flight (rememberReviewSession s r) = rv_flight r" "rv_presented (rememberReviewSession s r) = rv_presented r"
    using remember_fields(2) [of r s] by (simp_all add: same_flights_def)
  have "flights_ok r" using inv by (simp add: review_inv_def)
  then have "flights_ok ?r"
    by (rule flights_ok_fewer) (simp_all add: put_flight_settles same)
  moreover have "t \<notin> set (rv_presented r)" using fresh inv a(1,2) by (auto simp: review_inv_def)
  ultimately have "review_inv ?G ?r"
    using inv a(1,2,4) by (auto simp: review_inv_def s_def [symmetric] same remember_fields token_ok_def)
  then show ?thesis by (simp only: a(3) s_def)
next
  fix d assume "flight_answer ?f ans r = (RejectedWith d, dropUnrecoverableReviewSession d r)"
  moreover have "review_inv G (put_flight n (RejectedWith d, dropUnrecoverableReviewSession d r))"
    by (rule inv_forget [OF inv]) (simp_all add: put_flight_settles)
  ultimately show ?thesis by (auto intro: review_inv_mono)
next
  fix d assume late: "rv_epoch r \<noteq> fl_epoch ?f" and eq: "flight_answer ?f ans r = (RejectedWith d, r)"
  let ?r = "put_flight n (RejectedWith d, r)"
  have claims: "shouldClaimParkedRefresh ?r = shouldClaimParkedRefresh r"
    by (simp add: shouldClaimParkedRefresh_def navigationType_def Let_def)
  have "flights_ok r" using inv by (simp add: review_inv_def)
  then have "flights_ok ?r"
    by (rule flights_ok_fewer) (simp_all add: put_flight_settles)
  moreover have "token_ok G ?r t" if "token_ok G r t" for t
  proof -
    have "flight_pending ?r m \<and> fl_epoch (rv_flights ?r ! m) = rv_epoch r"
      if "flight_pending r m" "fl_epoch (rv_flights r ! m) = rv_epoch r" for m
    proof -
      have "m \<noteq> n" using that(2) late by auto
      then show ?thesis using that by (simp add: put_flight_settles flight_pending_def [of r])
    qed
    with that show ?thesis by (auto simp: token_ok_def)
  qed
  ultimately have "review_inv G ?r" using inv claims by (auto simp: review_inv_def split: option.splits)
  then show ?thesis by (auto simp: eq intro: review_inv_mono)
qed

lemma inv_settled: "review_inv G r \<Longrightarrow> review_inv G (flight_settled n r)"
proof (cases "n < length (rv_flights r) \<and> fl_result (rv_flights r ! n) \<noteq> Pending \<and> rv_flight r = Some n")
  case True
  assume inv: "review_inv G r"
  have eq: "flight_settled n r = r\<lparr>rv_flight := None\<rparr>" using True by (simp add: flight_settled_def)
  have n: "\<not> flight_pending r n" using True by (simp add: flight_pending_def)
  have claims: "shouldClaimParkedRefresh (r\<lparr>rv_flight := None\<rparr>) = shouldClaimParkedRefresh r"
    "flight_pending (r\<lparr>rv_flight := None\<rparr>) m = flight_pending r m" for m
    by (simp_all add: shouldClaimParkedRefresh_def navigationType_def flight_pending_def Let_def)
  have "flights_ok r" using inv by (simp add: review_inv_def)
  then have "flights_ok (r\<lparr>rv_flight := None\<rparr>)" using n True by (auto simp: flights_ok_def claims)
  moreover have "token_ok G (r\<lparr>rv_flight := None\<rparr>) t" if "token_ok G r t" for t
    using that n True by (auto simp: token_ok_def)
  ultimately show ?thesis using inv True by (simp add: eq review_inv_def claims split: option.splits)
qed (auto simp: flight_settled_def)

lemma inv_fetch_rotated: "review_inv G r \<Longrightarrow> review_inv G (snd (fetch_rotated res q r))"
  by (auto simp: fetch_rotated_def intro: inv_perform split: flight_result.split)

text \<open>Every event keeps the invariant, with the tokens it receives added to the granted ones.\<close>

lemma inv_review_step:
  assumes inv: "review_inv G r" and fresh: "set (received e) \<inter> G = {}"
  shows "review_inv (G \<union> set (received e)) (review_step e r)"
proof (cases e)
  case (RememberLogin s)
  with inv_remember [OF inv] fresh show ?thesis by simp
next
  case ClearLogin
  have "review_inv G (clearReviewSession r)" by (rule inv_forget [OF inv]) (simp_all add: fewer_pending_same)
  with ClearLogin show ?thesis by simp
next
  case ReadLogin
  with inv_read [OF inv] show ?thesis by (simp add: prod_eq_iff)
next
  case (FlightAnswer n ans)
  then show ?thesis using inv_flight_answer [OF inv, of n ans] fresh review_inv_mono [OF inv]
    by (auto simp: flight_pending_def)
next
  case (FetchRotated i)
  then show ?thesis using inv
    by (auto simp: inv_put_request inv_fetch_rotated split: option.split request.split)
next
  case (Subscribe l)
  have "review_inv G (subscribeReviewSessionDrop l r)"
    by (rule inv_same [OF inv]) (simp_all add: subscribeReviewSessionDrop_def same_flights_def)
  with Subscribe show ?thesis by simp
next
  case (Unsubscribe l)
  have "review_inv G (unsubscribe l r)"
    by (rule inv_same [OF inv]) (simp_all add: unsubscribe_def same_flights_def)
  with Unsubscribe show ?thesis by simp
qed (use inv in \<open>simp_all add: inv_drop inv_put_request inv_fetch_start inv_fetch_detail inv_settled inv_pagehide
  inv_pageshow split: option.split\<close>)

definition granted :: "review_event list \<Rightarrow> string list" where
  "granted evs = concat (map received evs)"

lemma inv_review_run:
  assumes "review_inv G r" and "distinct (granted evs)" and "set (granted evs) \<inter> G = {}"
  shows "review_inv (G \<union> set (granted evs)) (review_run evs r)"
  using assms
proof (induction evs arbitrary: G r)
  case (Cons e evs)
  have "review_inv (G \<union> set (received e)) (review_step e r)"
    by (rule inv_review_step [OF Cons.prems(1)]) (use Cons.prems(3) in \<open>auto simp: granted_def\<close>)
  from Cons.IH [OF this] have "review_inv ((G \<union> set (received e)) \<union> set (granted evs))
      (review_run evs (review_step e r))"
    using Cons.prems(2,3) by (auto simp: granted_def)
  then show ?case by (simp add: granted_def review_run_def Un_assoc)
qed (simp add: granted_def review_run_def)

text \<open>What a new document may claim from the storage.\<close>

definition claimable :: "string option \<Rightarrow> web_storage \<Rightarrow> string list" where
  "claimable nav st = (if shouldClaimParkedRefresh (open_document nav st) then parked_in st else [])"

lemma inv_open_document: "review_inv (set (claimable nav st)) (open_document nav st)"
  by (simp add: review_inv_def claimable_def flights_ok_def flight_pending_def open_document_def
      installReviewTabGuards_def shouldClaimParkedRefresh_def navigationType_def Let_def)

lemma document_inv:
  assumes "distinct (claimable nav st @ granted evs)"
  shows "review_inv (set (claimable nav st @ granted evs)) (review_run evs (open_document nav st))"
  using inv_review_run [OF inv_open_document, of evs nav st] assms by auto

section \<open>What the storage holds\<close>

text \<open>
  While the storage accepts writes it holds no refresh token but the one of the memory (parked by a
  page that is being left), and before the first read the one it was opened with.
\<close>

definition storage_inv :: "string set \<Rightarrow> review \<Rightarrow> bool" where
  "storage_inv P r \<longleftrightarrow> ws_writable (au_storage r) \<and>
     (case rv_memory r of
        None \<Rightarrow> parked_in (au_storage r) = [] \<or> rv_presented r = [] \<and> set (parked_in (au_storage r)) \<subseteq> P
      | Some s \<Rightarrow> set (parked_in (au_storage r)) \<subseteq> {rs_refreshToken s})"

lemma storage_inv_same:
  assumes "storage_inv P r" and "rv_memory r' = rv_memory r" and "au_storage r' = au_storage r"
    and "rv_memory r = None \<Longrightarrow> rv_presented r' = rv_presented r"
  shows "storage_inv P r'"
  using assms by (simp add: storage_inv_def split: option.splits)

lemma writable_in_storage [simp]:
  "ws_writable (removeStorage k s) = ws_writable s" "ws_writable (writeStorage k v s) = ws_writable s"
  "ws_writable (writeStorageJson k j s) = ws_writable s"
  by (simp_all add: removeStorage_def writeStorage_def writeStorageJson_def)

lemma au_storage_in_storage [simp]: "au_storage (in_storage f a) = f (au_storage a)"
  by (simp add: in_storage_def)

lemma parked_removed [simp]:
  "parked_in (removeStorage RELOAD_MARKER_KEY st) = parked_in st" "parked_in (writeStorage k v st) = parked_in st"
  using review_keys_apart
  by (simp_all add: parked_in_def readStorageJson_def removeStorage_def writeStorage_def)

lemma parked_written:
  "ws_writable st \<Longrightarrow> set (parked_in (writeStorageJson REVIEW_SESSION_KEY (review_json s) st)) \<subseteq> {rs_refreshToken s}"
  "ws_writable st \<Longrightarrow> rs_refreshToken s = [] \<Longrightarrow>
     parked_in (writeStorageJson REVIEW_SESSION_KEY (review_json s) st) = []"
  by (auto simp: parked_in_def readStorageJson_def writeStorageJson_def review_json_def)

lemma storage_persist:
  "ws_writable (au_storage r) \<Longrightarrow> parked_in (au_storage (persistReview s False r)) = []"
  "ws_writable (au_storage r) \<Longrightarrow> set (parked_in (au_storage (persistReview s True r))) \<subseteq> {rs_refreshToken s}"
  "ws_writable (au_storage (persistReview s b r)) = ws_writable (au_storage r)"
  by (simp_all add: persistReview_def parked_written)

lemma storage_forgotten:
  "ws_writable (au_storage r) \<Longrightarrow> storage_inv P (clearReviewSession r)"
  "ws_writable (au_storage r) \<Longrightarrow> storage_inv P (dropUnrecoverableReviewSession d r)"
proof -
  assume w: "ws_writable (au_storage r)"
  then have c: "ws_writable (au_storage (clearReviewSession r))"
    by (simp add: clearReviewSession_def clearJoined_values)
  then have "ws_writable (au_storage (dropUnrecoverableReviewSession d r))"
    by (simp add: dropUnrecoverableReviewSession_def notifyReviewDrop_def Let_def)
  with c show "storage_inv P (clearReviewSession r)" "storage_inv P (dropUnrecoverableReviewSession d r)"
    by (simp_all add: storage_inv_def)
qed

lemma storage_writable: "storage_inv P r \<Longrightarrow> ws_writable (au_storage r)"
  by (simp add: storage_inv_def)

lemma storage_held:
  assumes "ws_writable (au_storage r)"
  shows "storage_inv P (in_storage (removeStorage RELOAD_MARKER_KEY) (persistReview s False (hold s r)))"
proof -
  have "ws_writable (au_storage (hold s r))" using assms by (simp add: hold_def)
  then show ?thesis
    by (simp add: storage_inv_def storage_persist persist_frame hold_frame in_storage_frame)
qed

lemma storage_read:
  assumes "storage_inv P r"
  shows "storage_inv P (snd (readReviewSession r))"
  using assms storage_held [OF storage_writable [OF assms]]
  by (auto simp: readReviewSession_def Let_def split: option.split)

lemma storage_pagehide: "storage_inv P r \<Longrightarrow> storage_inv P (on_pagehide r)"
  by (cases "rv_memory r")
     (auto simp: on_pagehide_def parkReviewRefreshForReload_def storage_inv_def review_frame storage_persist
       dest: subsetD [OF storage_persist(2)])

lemma storage_pageshow: "storage_inv P r \<Longrightarrow> storage_inv P (on_pageshow p r)"
  by (cases "rv_memory r")
     (auto simp: on_pageshow_def unparkReviewRefresh_def storage_inv_def review_frame storage_persist Let_def)

lemma storage_perform: "storage_inv P r \<Longrightarrow> storage_inv P (perform t r)"
  by (erule storage_inv_same) (simp_all add: perform_def)

lemma storage_put_request: "storage_inv P (snd qr) \<Longrightarrow> storage_inv P (put_request i qr)"
  by (erule storage_inv_same) (simp_all add: put_request_def)

lemma storage_put_flight: "storage_inv P (snd fr) \<Longrightarrow> storage_inv P (put_flight n fr)"
  by (erule storage_inv_same) simp_all

lemma storage_fetch_start: "storage_inv P r \<Longrightarrow> storage_inv P (snd (fetch_start t sid r))"
proof -
  assume inv: "storage_inv P r"
  have "snd (sessionForToken t r) \<in> {r, snd (readReviewSession r)}"
    by (auto simp: sessionForToken_def split_beta split: option.split)
  then have "storage_inv P (snd (sessionForToken t r))" using inv storage_read by auto
  then show ?thesis by (auto simp: fetch_start_def split_beta intro!: storage_perform split: option.split)
qed

lemma storage_refresh:
  assumes "storage_inv P r" and "rv_memory r = Some s" and "rs_refreshToken s \<noteq> []"
  shows "storage_inv P (snd (refreshReviewSession s r))"
  by (rule storage_inv_same [OF assms(1)])
     (use assms in \<open>auto simp: refreshReviewSession_def readReviewSession_def start_flight_def Let_def split: option.split\<close>)

lemma storage_fetch_detail:
  assumes "storage_inv P r"
  shows "storage_inv P (snd (fetch_detail d r))"
proof -
  obtain res r1 where read: "readReviewSession r = (res, r1)" by fastforce
  have inv: "storage_inv P r1" using storage_read [OF assms] read by simp
  have "storage_inv P (snd (refreshReviewSession s r1))" if "res = Some s" "rs_refreshToken s \<noteq> []" for s
  proof (rule storage_refresh [OF inv _ that(2)])
    show "rv_memory r1 = Some s" using read that(1) by (cases rule: read_cases) auto
  qed
  then show ?thesis using assms inv storage_writable
    by (auto simp: fetch_detail_def read split_beta storage_forgotten intro!: storage_perform
        split: option.split rotation.split)
qed

lemma storage_flight_answer: "storage_inv P r \<Longrightarrow> storage_inv P (snd (flight_answer f ans r))"
  by (rule flight_answer_cases [of ans r f])
     (simp_all add: rememberReviewSession_def storage_held storage_forgotten storage_writable)

lemma storage_step: "storage_inv P r \<Longrightarrow> storage_inv P (review_step e r)"
proof (cases e)
  case (FlightSettled n)
  assume "storage_inv P r"
  then have "storage_inv P (flight_settled n r)"
    by (rule storage_inv_same) (simp_all add: flight_settled_def)
  with FlightSettled show ?thesis by simp
next
  case (FetchRotated i)
  assume "storage_inv P r"
  then show ?thesis using FetchRotated
    by (auto simp: fetch_rotated_def intro!: storage_put_request storage_perform
        split: option.split request.split flight_result.split)
next
  case (Subscribe l)
  assume "storage_inv P r"
  then have "storage_inv P (subscribeReviewSessionDrop l r)"
    by (rule storage_inv_same) (simp_all add: subscribeReviewSessionDrop_def)
  with Subscribe show ?thesis by simp
next
  case (Unsubscribe l)
  assume "storage_inv P r"
  then have "storage_inv P (unsubscribe l r)" by (rule storage_inv_same) (simp_all add: unsubscribe_def)
  with Unsubscribe show ?thesis by simp
qed (auto simp: storage_forgotten storage_writable storage_read storage_pagehide storage_pageshow storage_put_request
  storage_put_flight storage_fetch_start storage_fetch_detail storage_flight_answer storage_held
  rememberReviewSession_def split: option.split)

interpretation review_document: event_handler review_step "storage_inv P" for P
  by unfold_locales (rule storage_step)

lemma storage_run: "storage_inv P r \<Longrightarrow> storage_inv P (review_run evs r)"
  unfolding review_run_def by (rule review_document.run_keeps)

lemma storage_open: "ws_writable st \<Longrightarrow> storage_inv (set (parked_in st)) (open_document nav st)"
  by (simp add: storage_inv_def open_document_def installReviewTabGuards_def)

section \<open>Properties\<close>

text \<open>
  C9: a document presents a refresh token at most once, however its requests, refreshes, logins,
  logouts and page events interleave. If the server never hands out the same refresh token twice,
  all tokens presented are distinct; each was granted to this document, or parked in the storage by
  a page that this document may claim from; and while a flight of the current login is pending it is
  the one that every further refresh joins.
\<close>

theorem refresh_tokens_presented_once:
  assumes "distinct (claimable nav st @ granted evs)"
  shows "let r = review_run evs (open_document nav st) in
     distinct (rv_presented r) \<and>
     set (rv_presented r) \<subseteq> set (claimable nav st) \<union> set (granted evs) \<and>
     {n. flight_pending r n \<and> fl_epoch (rv_flights r ! n) = rv_epoch r} \<subseteq> set_option (rv_flight r)"
  using document_inv [OF assms] by (auto simp: Let_def review_inv_def flights_ok_def)

text \<open>A console that logs in, and whose two requests both find the access token expired.\<close>

definition teacher_login :: review_session where
  "teacher_login = \<lparr>rs_sessionId = ''S1'', rs_role = ''teacher'', rs_accessToken = ''a1'', rs_refreshToken = ''r1'',
     rs_expiresAt = Some 900\<rparr>"

definition new_tokens :: refresh_body where
  "new_tokens = \<lparr>b_access_token = Some ''a2'', b_refresh_token = Some ''r2'', b_role = Some ''teacher'',
     b_expires_at = Some (Some 1800)\<rparr>"

definition two_expired :: "review_event list" where
  "two_expired = [RememberLogin teacher_login, StartFetch ''a1'' (Some ''S1''), StartFetch ''a1'' None,
     FetchResponse 0 401, FetchResponse 1 401, FetchDetail 0 ''expired_session_token'',
     FetchDetail 1 ''expired_session_token'']"

definition both_retried :: "review_event list" where
  "both_retried = two_expired @ [FlightAnswer 0 (Answered new_tokens), FetchRotated 0, FlightSettled 0,
     FetchRotated 1, PageHide]"

lemma both_retried_run:
  "rv_presented (review_run both_retried (open_document None new_storage)) = [''r1'']"
  "rv_performed (review_run both_retried (open_document None new_storage)) = [''a1'', ''a1'', ''a2'', ''a2'']"
  by code_simp+

theorem refresh_tokens_presented_once_witness:
  "rv_presented (review_run both_retried (open_document None new_storage)) = [''r1''] \<and>
   distinct (rv_presented (review_run both_retried (open_document None new_storage)))"
proof -
  have "distinct (claimable None new_storage @ granted both_retried)" by code_simp
  from refresh_tokens_presented_once [OF this] show ?thesis by (simp only: Let_def both_retried_run simp_thms)
qed

text \<open>
  C28: the next document over the same storage does not present a refresh token again. After a
  document over a storage that accepts writes, a document is opened over what the storage holds
  then. If it is a reload, and no refresh was under way when the page was left, it may take the
  parked token; if it was opened by any other navigation, as a duplicate of the tab is, it takes
  none. In both cases the two documents together present no token twice.
\<close>

theorem next_document_presents_other_tokens:
  assumes "ws_writable st"
    and "distinct (parked_in st @ granted evs @ granted evs')"
    and "rv_flight (review_run evs (open_document nav st)) = None \<or>
         nav' \<in> {Some ''navigate'', Some ''back_forward'', Some ''prerender''}"
  shows "let r = review_run evs (open_document nav st);
             r' = review_run evs' (open_document nav' (au_storage r)) in
         distinct (rv_presented r @ rv_presented r')"
proof -
  define r where "r = review_run evs (open_document nav st)"
  define r' where "r' = review_run evs' (open_document nav' (au_storage r))"
  let ?parked = "claimable nav' (au_storage r)"
  let ?G = "set (claimable nav st @ granted evs)"
  have claimed: "set (claimable nav st) \<subseteq> set (parked_in st)" by (auto simp: claimable_def)
  have inv: "review_inv ?G r"
    unfolding r_def by (rule document_inv) (use assms(2) claimed in \<open>auto simp: claimable_def\<close>)
  have store: "storage_inv (set (parked_in st)) r"
    unfolding r_def by (rule storage_run [OF storage_open [OF assms(1)]])
  have few: "distinct ?parked" by (simp add: claimable_def parked_in_def split: option.split)
  have full: "t \<noteq> []" if "t \<in> set (parked_in st')" for t st'
    using that by (auto simp: parked_in_def split: option.splits if_splits)
  have fresh: "set ?parked \<inter> set (rv_presented r) = {} \<and> set ?parked \<subseteq> set (parked_in st) \<union> set (granted evs)"
  proof (cases "rv_flight r = None \<and> shouldClaimParkedRefresh (open_document nav' (au_storage r))")
    case True
    show ?thesis
    proof (cases "rv_memory r")
      case None
      with True store show ?thesis by (auto simp: storage_inv_def claimable_def)
    next
      case (Some s)
      have "set ?parked \<subseteq> {rs_refreshToken s} - {[]}"
        using store Some full by (auto simp: storage_inv_def claimable_def)
      with inv True Some claimed show ?thesis by (fastforce simp: review_inv_def token_ok_def)
    qed
  next
    case False
    then have "\<not> shouldClaimParkedRefresh (open_document nav' (au_storage r))"
      using assms(3) by (auto simp: r_def shouldClaimParkedRefresh_def navigationType_def open_document_def
          installReviewTabGuards_def Let_def)
    then show ?thesis by (simp add: claimable_def)
  qed
  have "distinct (?parked @ granted evs')" using few fresh assms(2) by auto
  from document_inv [OF this] have inv': "review_inv (set (?parked @ granted evs')) r'" by (simp only: r'_def)
  have "set (rv_presented r) \<inter> set (rv_presented r') = {}"
    using inv inv' fresh claimed assms(2) by (fastforce simp: review_inv_def)
  then show ?thesis using inv inv' by (simp add: Let_def r_def [symmetric] r'_def [symmetric] review_inv_def)
qed

definition later_login :: "review_event list" where
  "later_login = [StartFetch ''a2'' None, FetchResponse 0 401, FetchDetail 0 ''expired'']"

lemma reload_run:
  "rv_presented (review_run later_login (open_document (Some ''reload'')
     (au_storage (review_run both_retried (open_document None new_storage))))) = [''r2'']"
  by code_simp

theorem next_document_presents_other_tokens_witness:
  "let r = review_run both_retried (open_document None new_storage);
       r' = review_run later_login (open_document (Some ''reload'') (au_storage r)) in
     rv_presented r' = [''r2''] \<and> distinct (rv_presented r @ rv_presented r')"
proof -
  have "ws_writable new_storage" by code_simp
  moreover have "distinct (parked_in new_storage @ granted both_retried @ granted later_login)" by code_simp
  moreover have "rv_flight (review_run both_retried (open_document None new_storage)) = None" by code_simp
  ultimately have "let r = review_run both_retried (open_document None new_storage);
      r' = review_run later_login (open_document (Some ''reload'') (au_storage r)) in
      distinct (rv_presented r @ rv_presented r')"
    by (intro next_document_presents_other_tokens disjI1)
  then show ?thesis by (simp only: Let_def reload_run simp_thms)
qed

text \<open>
  The condition on the flight is needed: a page that is reloaded while its refresh is under way
  parks the token that is being presented, and the reloaded page presents it again.
\<close>

lemma reload_presents_the_token_in_flight:
  "let r = review_run (two_expired @ [PageHide]) (open_document None new_storage);
       r' = review_run [StartFetch ''a1'' None, FetchResponse 0 401, FetchDetail 0 ''expired'']
              (open_document (Some ''reload'') (au_storage r)) in
   rv_presented r = [''r1''] \<and> rv_presented r' = [''r1'']"
  by code_simp

end
