(* ===== verification/OpLogic.thy ===== *)
theory OpLogic
  imports Prelude
begin

text \<open>
  \<open>apps/op/src/opLogic.ts\<close>: the pure helpers of the operator page. Texts shown to the operator
  are constructors. \<open>Date.parse\<close> is the argument \<open>parse\<close>: the milliseconds of a timestamp, \<open>None\<close>
  for \<open>NaN\<close>. The look-up tables are read with the keys they declare; no status or reason of the
  server is a key that every JavaScript object inherits.
\<close>

section \<open>Reasons\<close>

datatype op_message = BadOperatorToken | DiskFull | RateLimited | SecurityRevoked | GraceExpired | ReissueRefused
  | RecordingDeleted | JoinAfterEnd | SessionExists | SessionUnknown | ServerUnreachable
  | DetailWithStatus string int | StatusOnly int

definition ERROR_COPY :: "(string \<times> op_message) list" where
  "ERROR_COPY =
     [(''invalid_operator_token'', BadOperatorToken), (''disk_full'', DiskFull), (''rate_limited'', RateLimited),
      (''upload_security_revoked'', SecurityRevoked), (''upload_grace_expired'', GraceExpired),
      (''upload_reissue_refused'', ReissueRefused), (''recording_deleted'', RecordingDeleted),
      (''session_ended'', JoinAfterEnd)]"

definition starts_with :: "string \<Rightarrow> string \<Rightarrow> bool" where
  "starts_with s prefix \<longleftrightarrow> take (length prefix) s = prefix"

definition errorMessage :: "int \<Rightarrow> string \<Rightarrow> op_message" where
  "errorMessage http detail =
     (case map_of ERROR_COPY detail of
        Some copy \<Rightarrow> copy
      | None \<Rightarrow>
          if starts_with detail ''session already exists:'' then SessionExists
          else if starts_with detail ''session not found:'' then SessionUnknown
          else if http = 0 then ServerUnreachable
          else if detail \<noteq> [] then DetailWithStatus detail http else StatusOnly http)"

section \<open>Session ids\<close>

definition char_within :: "char \<Rightarrow> char \<Rightarrow> char \<Rightarrow> bool" where
  "char_within a b c \<longleftrightarrow> (of_char a :: nat) \<le> of_char c \<and> (of_char c :: nat) \<le> of_char b"

definition is_digit :: "char \<Rightarrow> bool" where
  "is_digit c \<longleftrightarrow> char_within CHR ''0'' CHR ''9'' c"

definition is_alnum :: "char \<Rightarrow> bool" where
  "is_alnum c \<longleftrightarrow> is_digit c \<or> char_within CHR ''A'' CHR ''Z'' c \<or> char_within CHR ''a'' CHR ''z'' c"

fun SESSION_ID_RE :: "string \<Rightarrow> bool" where
  "SESSION_ID_RE [] = False"
| "SESSION_ID_RE (c # cs) \<longleftrightarrow> is_alnum c \<and> length cs \<le> 127 \<and>
     list_all (\<lambda>d. is_alnum d \<or> d = CHR ''_'' \<or> d = CHR ''-'') cs"

datatype id_problem = IdMissing | IdInvalid

definition sessionIdProblem :: "string \<Rightarrow> id_problem option" where
  "sessionIdProblem session_id =
     (if session_id = [] then Some IdMissing
      else if \<not> SESSION_ID_RE session_id then Some IdInvalid else None)"

text \<open>The local fields of a \<open>Date\<close>; \<open>getMonth\<close> counts from zero.\<close>

record local_time =
  getFullYear :: nat
  getMonth :: nat
  getDate :: nat
  getHours :: nat
  getMinutes :: nat
  getSeconds :: nat

definition pad :: "nat \<Rightarrow> string" where
  "pad v = (let s = decimal v in replicate (2 - length s) CHR ''0'' @ s)"

definition defaultSessionId :: "local_time \<Rightarrow> string" where
  "defaultSessionId now =
     ''TRIAL-'' @ (decimal (getFullYear now) @ pad (getMonth now + 1) @ pad (getDate now)) @ ''-'' @
     (pad (getHours now) @ pad (getMinutes now) @ pad (getSeconds now))"

section \<open>Times\<close>

definition graceRemainingSeconds :: "(string \<Rightarrow> int option) \<Rightarrow> string option \<Rightarrow> ms \<Rightarrow> int option" where
  "graceRemainingSeconds parse graceEndsAt nowMs =
     (if \<not> truthy graceEndsAt then None
      else case parse (the graceEndsAt) of
        None \<Rightarrow> None
      | Some endMs \<Rightarrow> Some (max 0 ((endMs - nowMs) div 1000)))"

datatype duration = NoDuration | Seconds int | MinutesSeconds int int | Minutes int | HoursMinutes int int

definition formatSeconds :: "int option \<Rightarrow> duration" where
  "formatSeconds seconds =
     (case seconds of
        None \<Rightarrow> NoDuration
      | Some s \<Rightarrow>
          if s < 60 then Seconds s
          else let minutes = s div 60; rest = s mod 60 in
            if minutes < 60 then (if rest \<noteq> 0 then MinutesSeconds minutes rest else Minutes minutes)
            else HoursMinutes (minutes div 60) (minutes mod 60))"

definition has_offset :: "string \<Rightarrow> bool" where
  "has_offset v \<longleftrightarrow> v \<noteq> [] \<and> (last v = CHR ''z'' \<or> last v = CHR ''Z'') \<or>
     6 \<le> length v \<and>
     (case drop (length v - 6) v of
        [s, a, b, c, d, e] \<Rightarrow> (s = CHR ''+'' \<or> s = CHR ''-'') \<and> is_digit a \<and> is_digit b \<and> c = CHR '':'' \<and>
          is_digit d \<and> is_digit e
      | _ \<Rightarrow> False)"

definition parseServerTime :: "(string \<Rightarrow> int option) \<Rightarrow> string option \<Rightarrow> int option" where
  "parseServerTime parse v =
     (if \<not> truthy v then None else parse (if has_offset (the v) then the v else the v @ ''Z''))"

text \<open>The local rendering of an instant is the browser's.\<close>

datatype shown_time = Instant int | Raw string | NoTime

definition formatServerTime :: "(string \<Rightarrow> int option) \<Rightarrow> string option \<Rightarrow> shown_time" where
  "formatServerTime parse v =
     (case parseServerTime parse v of
        Some t \<Rightarrow> Instant t
      | None \<Rightarrow> (case v of Some s \<Rightarrow> Raw s | None \<Rightarrow> NoTime))"

section \<open>Reads of the list\<close>

record progress_read =
  pr_storedSequences :: int
  pr_readAtMs :: ms

datatype progress = FirstRead | Added int int | Dropped int | NothingNew int

definition describeProgress :: "progress_read option \<Rightarrow> progress_read \<Rightarrow> progress" where
  "describeProgress previous current =
     (case previous of
        None \<Rightarrow> FirstRead
      | Some p \<Rightarrow>
          if pr_readAtMs p \<ge> pr_readAtMs current then FirstRead
          else let delta = pr_storedSequences current - pr_storedSequences p;
                   elapsed = js_round (rat_of_int (pr_readAtMs current - pr_readAtMs p) / 1000) in
            if delta > 0 then Added elapsed delta
            else if delta < 0 then Dropped (- delta)
            else NothingNew elapsed)"

text \<open>The fields of a row that the page's logic reads.\<close>

record op_row =
  row_id :: string
  row_stored :: int

record reads_entry =
  re_previous :: "progress_read option"
  re_current :: progress_read

type_synonym progress_reads = "(string \<times> reads_entry) list"

definition nextReads :: "progress_reads \<Rightarrow> op_row list \<Rightarrow> ms \<Rightarrow> progress_reads" where
  "nextReads previous rows readAtMs =
     fold (\<lambda>row reads. map_set (row_id row)
       \<lparr>re_previous = map_option re_current (map_of previous (row_id row)),
        re_current = \<lparr>pr_storedSequences = row_stored row, pr_readAtMs = readAtMs\<rparr>\<rparr> reads) rows []"

definition addFirstReads :: "progress_reads \<Rightarrow> op_row list \<Rightarrow> ms \<Rightarrow> progress_reads" where
  "addFirstReads reads rows readAtMs =
     fold (\<lambda>row merged. if map_has (row_id row) merged then merged
       else map_set (row_id row) \<lparr>re_previous = None,
         re_current = \<lparr>pr_storedSequences = row_stored row, pr_readAtMs = readAtMs\<rparr>\<rparr> merged) rows reads"

definition appendPage :: "op_row list \<Rightarrow> op_row list \<Rightarrow> op_row list" where
  "appendPage rows page = rows @ filter (\<lambda>row. row_id row \<notin> set (map row_id rows)) page"

text \<open>A generation; a ticket is the number that was current when it was taken.\<close>

definition advance :: "int \<Rightarrow> int \<times> int" where
  "advance current = (current + 1, current + 1)"

definition ticket :: "int \<Rightarrow> int" where
  "ticket current = current"

definition ticket_valid :: "int \<Rightarrow> int \<Rightarrow> bool" where
  "ticket_valid current issued \<longleftrightarrow> issued = current"

section \<open>Notes and flags\<close>

datatype join_role = JoinStudent | JoinWizard | JoinTeacher

datatype join_note = OldCodesDie | AdmittedStay | OneConnection | CutNow | PausesAfterCut | RecordingCut
  | NoContinuation bool

definition joinReissueNotes :: "join_role list \<Rightarrow> bool \<Rightarrow> bool \<Rightarrow> join_note list" where
  "joinReissueNotes roles revokeLive recordingStarted =
     (let student = JoinStudent \<in> set roles;
          singleConnection = (student \<or> JoinWizard \<in> set roles)
      in [OldCodesDie] @
         (if \<not> revokeLive then [AdmittedStay] @ (if singleConnection then [OneConnection] else [])
          else [CutNow] @ (if singleConnection then [PausesAfterCut] else []) @
            (if student then [RecordingCut] else [])) @
         (if student \<and> recordingStarted then [NoContinuation (\<not> revokeLive)] else []))"

record attention_input =
  ai_status :: string
  ai_recording_state :: "string option"
  ai_finalize_state :: "string option"
  ai_incomplete_reason :: "string option"
  ai_needs_operator :: bool

datatype attention_flag = NeedsOperator | RecorderLost | RecordingIncomplete | TranscodeFailed | EndedWithoutRecording

definition attentionFlags :: "attention_input \<Rightarrow> attention_flag list" where
  "attentionFlags row =
     (if ai_needs_operator row then [NeedsOperator] else []) @
     (if ai_incomplete_reason row = Some ''recorder_lost'' then [RecorderLost]
      else if ai_recording_state row = Some ''incomplete'' \<or> ai_finalize_state row = Some ''incomplete''
      then [RecordingIncomplete] else []) @
     (if ai_recording_state row = Some ''transcode_failed'' then [TranscodeFailed] else []) @
     (if ai_status row = ''ended'' \<and> ai_recording_state row = None then [EndedWithoutRecording] else [])"

definition labelFor :: "(string \<times> 'l) list \<Rightarrow> string option \<Rightarrow> (string + 'l) option" where
  "labelFor labels v = map_option (\<lambda>s. case map_of labels s of Some l \<Rightarrow> Inr l | None \<Rightarrow> Inl s) v"

section \<open>Facts\<close>

definition read_of :: "op_row \<Rightarrow> ms \<Rightarrow> progress_read" where
  "read_of row t = \<lparr>pr_storedSequences = row_stored row, pr_readAtMs = t\<rparr>"

lemma keys_nextReads [simp]: "fst ` set (nextReads previous rows t) = row_id ` set rows"
proof -
  have "fst ` set (fold (\<lambda>row reads. map_set (row_id row) (f row) reads) rows m) = fst ` set m \<union> row_id ` set rows"
    for f :: "op_row \<Rightarrow> reads_entry" and m
    by (induction rows arbitrary: m) (auto simp: keys_map_set)
  then show ?thesis by (simp add: nextReads_def)
qed

lemma keys_addFirstReads [simp]: "fst ` set (addFirstReads reads rows t) = fst ` set reads \<union> row_id ` set rows"
  unfolding addFirstReads_def
  by (induction rows arbitrary: reads) (auto simp: keys_map_set map_has_def)

lemma ids_appendPage [simp]: "row_id ` set (appendPage rows page) = row_id ` set rows \<union> row_id ` set page"
  by (auto simp: appendPage_def)

lemma distinct_appendPage:
  "distinct (map row_id rows) \<Longrightarrow> distinct (map row_id page) \<Longrightarrow> distinct (map row_id (appendPage rows page))"
  by (auto simp: appendPage_def distinct_map_filter) (metis image_eqI)

text \<open>\<open>addFirstReads\<close> never touches a read that is there.\<close>

lemma addFirstReads_keeps:
  "map_of reads k = Some e \<Longrightarrow> map_of (addFirstReads reads rows t) k = Some e"
proof (induction rows arbitrary: reads)
  case (Cons row rows)
  have step: "addFirstReads reads (row # rows) t = addFirstReads (addFirstReads reads [row] t) rows t"
    by (simp add: addFirstReads_def)
  have "map_of (addFirstReads reads [row] t) k = Some e"
    using Cons.prems by (auto simp: addFirstReads_def map_has_iff)
  from Cons.IH [OF this] show ?case by (simp only: step)
qed (simp add: addFirstReads_def)

lemma decimal_digits: "list_all is_digit (decimal n)"
proof (induction n rule: decimal.induct)
  case (1 n)
  have "is_digit (digit d)" if "d < 10" for d
    using that by (simp add: is_digit_def char_within_def digit_def)
  with 1 show ?case by (cases "n < 10") (simp_all add: decimal.simps [of n])
qed

lemma decimal_short: "n < 10 ^ Suc k \<Longrightarrow> length (decimal n) \<le> Suc k"
proof (induction k arbitrary: n)
  case 0
  then show ?case by (simp add: decimal.simps [of n])
next
  case (Suc k)
  show ?case
  proof (cases "n < 10")
    case True
    then show ?thesis by (simp add: decimal.simps [of n])
  next
    case False
    have "length (decimal (n div 10)) \<le> Suc k" by (rule Suc.IH) (use Suc.prems in auto)
    with False show ?thesis by (simp add: decimal.simps [of n])
  qed
qed

lemma pad_facts: "n < 100 \<Longrightarrow> length (pad n) = 2" "list_all is_digit (pad n)"
proof -
  have "0 < length (decimal n)" by simp
  then show "n < 100 \<Longrightarrow> length (pad n) = 2"
    using decimal_short [of n 1] by (simp add: pad_def Let_def)
  show "list_all is_digit (pad n)"
    using decimal_digits [of n]
    by (auto simp: pad_def Let_def list_all_iff is_digit_def char_within_def)
qed

lemma default_id_accepted:
  assumes "getFullYear now < 10 ^ 6" and "getMonth now < 12" and "getDate now < 32"
    and "getHours now < 24" and "getMinutes now < 60" and "getSeconds now < 61"
  shows "sessionIdProblem (defaultSessionId now) = None"
proof -
  have "list_all is_digit (decimal (getFullYear now) @ pad (getMonth now + 1) @ pad (getDate now))"
    "list_all is_digit (pad (getHours now) @ pad (getMinutes now) @ pad (getSeconds now))"
    by (simp_all add: decimal_digits pad_facts)
  moreover have "length (decimal (getFullYear now)) \<le> 6" using decimal_short [of _ 5] assms(1) by simp
  moreover have "is_alnum c" if "is_digit c" for c using that by (simp add: is_alnum_def)
  moreover have "is_alnum CHR ''T''" "is_alnum CHR ''R''" "is_alnum CHR ''I''" "is_alnum CHR ''A''" "is_alnum CHR ''L''"
    by code_simp+
  ultimately show ?thesis using assms
    by (auto simp: sessionIdProblem_def defaultSessionId_def pad_facts list_all_iff)
qed

end
