(* ===== verification/OpConsole.thy ===== *)
theory OpConsole
  imports OpLogic
begin

text \<open>
  \<open>apps/op/src/App.tsx\<close> and the handlers of \<open>components/SessionDetail.tsx\<close>: the operator page. The
  operator token lives in the page only; every request captures the token it was made with and a
  ticket, and its answer may come after the operator signed out, signed in again, or asked for the
  list anew. The state of the page is explicit, a request under way is a task, and an event is a
  click or an answer. What the page renders from the state is left out.
\<close>

section \<open>State\<close>

datatype op_error = OpApiError int string | OtherFailure

record held_codes =
  hc_join :: "(join_role \<times> string) list option"
  hc_review :: "(string \<times> string) list option"
  hc_upload :: "(string \<times> string) option"

datatype confirming = ConfirmUpload | ConfirmReview | ConfirmJoin

datatype detail_notice = JoinReissued | JoinReissuedAndCut int

text \<open>
  The state of \<open>SessionDetail\<close>. The page keys it by the session, so selecting another session
  mounts a new instance, and an answer for an old instance sets nothing.
\<close>

record detail =
  dt_instance :: nat
  dt_session :: string
  dt_status :: "string option"
  dt_status_error :: "op_message option"
  dt_confirming :: "confirming option"
  dt_action_busy :: bool
  dt_action_error :: "op_message option"
  dt_action_notice :: "detail_notice option"
  dt_join_roles :: "join_role list"
  dt_revoke_live :: bool
  dt_effect :: nat
  dt_read_at :: "ms option"

text \<open>
  What a request under way will do with its answer. A refresh carries the ticket of the list and
  the number of rows shown when it began, and on its later pages what it has read; the requests of
  a detail carry its instance.
\<close>

datatype work =
    FirstPage int nat
  | NextPage int nat "op_row list" nat
  | OlderPage int
  | SignInProbe
  | Creating nat
  | StatusRead nat nat
  | IssuingUpload nat string
  | ReissuingJoin nat string
  | RegeneratingReview nat string

text \<open>\<open>tk_creating\<close>: the refresh is awaited by \<open>createSession\<close>.\<close>

record task =
  tk_live :: int
  tk_token :: string
  tk_creating :: bool
  tk_work :: work

datatype op_request = ListSessions "string option" | ProbeSessions | CreateRequest string string
  | StatusRequest string | UploadRequest string | JoinRequest string "join_role list" bool | ReviewRequest string

text \<open>\<open>op_sent\<close> records each request with its token and the token the page held at that time.\<close>

record op =
  op_token :: "string option"
  op_auth :: int
  op_list_gen :: int
  op_gate_busy :: bool
  op_gate_error :: "op_message option"
  op_rows :: "op_row list"
  op_next_cursor :: "string option"
  op_reads :: progress_reads
  op_last_read_at :: "ms option"
  op_list_busy :: bool
  op_list_error :: "op_message option"
  op_cases :: "string list"
  op_selected :: "string option"
  op_held :: "(string \<times> held_codes) list"
  op_create_busy :: bool
  op_create_error :: "op_message option"
  op_created_count :: nat
  op_detail :: "detail option"
  op_instances :: nat
  op_tasks :: "task option list"
  op_sent :: "(string \<times> string option \<times> op_request) list"

definition initial_op :: op where
  "initial_op = \<lparr>op_token = None, op_auth = 0, op_list_gen = 0, op_gate_busy = False, op_gate_error = None,
     op_rows = [], op_next_cursor = None, op_reads = [], op_last_read_at = None, op_list_busy = False,
     op_list_error = None, op_cases = [], op_selected = None, op_held = [], op_create_busy = False,
     op_create_error = None, op_created_count = 0, op_detail = None, op_instances = 0, op_tasks = [], op_sent = []\<rparr>"

definition REFRESH_MAX_PAGES :: nat where
  "REFRESH_MAX_PAGES = 20"

fun describeError :: "op_error \<Rightarrow> op_message" where
  "describeError (OpApiError http detail) = errorMessage http detail"
| "describeError OtherFailure = errorMessage 0 []"

fun isAuthFailure :: "op_error \<Rightarrow> bool" where
  "isAuthFailure (OpApiError http detail) \<longleftrightarrow> http = 401"
| "isAuthFailure OtherFailure = False"

section \<open>Requests\<close>

definition start_task :: "task \<Rightarrow> op_request \<Rightarrow> op \<Rightarrow> op" where
  "start_task tk req s = s\<lparr>op_tasks := op_tasks s @ [Some tk],
     op_sent := op_sent s @ [(tk_token tk, op_token s, req)]\<rparr>"

definition finish :: "nat \<Rightarrow> op \<Rightarrow> op" where
  "finish i s = s\<lparr>op_tasks := (op_tasks s)[i := None]\<rparr>"

definition live :: "task \<Rightarrow> op \<Rightarrow> bool" where
  "live tk s \<longleftrightarrow> ticket_valid (op_auth s) (tk_live tk)"

definition current :: "task \<Rightarrow> int \<Rightarrow> op \<Rightarrow> bool" where
  "current tk latest s \<longleftrightarrow> live tk s \<and> ticket_valid (op_list_gen s) latest"

definition signOut :: "op_message option \<Rightarrow> op \<Rightarrow> op" where
  "signOut message s =
     s\<lparr>op_auth := fst (advance (op_auth s)), op_list_gen := fst (advance (op_list_gen s)), op_token := None,
       op_rows := [], op_next_cursor := None, op_reads := [], op_last_read_at := None, op_list_busy := False,
       op_list_error := None, op_held := [], op_selected := None, op_cases := [], op_create_busy := False,
       op_create_error := None, op_gate_error := message\<rparr>"

definition listFailed :: "op_error \<Rightarrow> op \<Rightarrow> op" where
  "listFailed e s =
     (if isAuthFailure e then signOut (Some (describeError e)) s
      else s\<lparr>op_list_error := Some (describeError e)\<rparr>)"

text \<open>A refresh up to its first await; the client and the number of shown rows are the closure's.\<close>

definition start_refresh :: "string \<Rightarrow> nat \<Rightarrow> bool \<Rightarrow> op \<Rightarrow> op" where
  "start_refresh token shown creating s =
     (let (latest, gen) = advance (op_list_gen s) in
      start_task \<lparr>tk_live = ticket (op_auth s), tk_token = token, tk_creating = creating,
          tk_work = FirstPage latest shown\<rparr> (ListSessions None)
        (s\<lparr>op_list_gen := gen, op_list_busy := True, op_list_error := None\<rparr>))"

definition refresh :: "op \<Rightarrow> op" where
  "refresh s = (case op_token s of None \<Rightarrow> s | Some token \<Rightarrow> start_refresh token (length (op_rows s)) False s)"

text \<open>The end of a refresh or of \<open>loadOlder\<close>, and of the \<open>createSession\<close> that awaited it.\<close>

definition list_done :: "nat \<Rightarrow> task \<Rightarrow> int \<Rightarrow> op \<Rightarrow> op" where
  "list_done i tk latest s =
     (let s1 = (if current tk latest s then s\<lparr>op_list_busy := False\<rparr> else s);
          s2 = (if tk_creating tk \<and> live tk s1 then s1\<lparr>op_create_busy := False\<rparr> else s1)
      in finish i s2)"

definition list_error :: "nat \<Rightarrow> task \<Rightarrow> int \<Rightarrow> op_error \<Rightarrow> op \<Rightarrow> op" where
  "list_error i tk latest e s = list_done i tk latest (if current tk latest s then listFailed e s else s)"

definition refresh_page :: "nat \<Rightarrow> task \<Rightarrow> int \<Rightarrow> nat \<Rightarrow> op_row list \<Rightarrow> nat \<Rightarrow> string option \<Rightarrow> ms \<Rightarrow> op \<Rightarrow> op" where
  "refresh_page i tk latest shown fresh pages next_cursor now s =
     (if truthy next_cursor \<and> length fresh < shown \<and> pages < REFRESH_MAX_PAGES then
        if \<not> current tk latest s then list_done i tk latest s
        else start_task (tk\<lparr>tk_work := NextPage latest shown fresh (Suc pages)\<rparr>) (ListSessions next_cursor) (finish i s)
      else if \<not> current tk latest s then list_done i tk latest s
      else list_done i tk latest
        (s\<lparr>op_rows := fresh, op_next_cursor := next_cursor, op_reads := nextReads (op_reads s) fresh now,
           op_last_read_at := Some now\<rparr>))"

definition loadOlder :: "op \<Rightarrow> op" where
  "loadOlder s =
     (case (op_token s, op_next_cursor s) of
        (Some token, Some (c # cs)) \<Rightarrow>
          (let (latest, gen) = advance (op_list_gen s) in
           start_task \<lparr>tk_live = ticket (op_auth s), tk_token = token, tk_creating = False, tk_work = OlderPage latest\<rparr>
             (ListSessions (Some (c # cs)))
             (s\<lparr>op_list_gen := gen, op_list_busy := True, op_list_error := None\<rparr>))
      | _ \<Rightarrow> s)"

definition older_page :: "nat \<Rightarrow> task \<Rightarrow> int \<Rightarrow> op_row list \<Rightarrow> string option \<Rightarrow> ms \<Rightarrow> op \<Rightarrow> op" where
  "older_page i tk latest page next_cursor now s =
     list_done i tk latest
       (if \<not> current tk latest s then s
        else s\<lparr>op_rows := appendPage (op_rows s) page, op_reads := addFirstReads (op_reads s) page now,
               op_next_cursor := next_cursor\<rparr>)"

text \<open>The gate is shown while no token is held.\<close>

definition signIn :: "string \<Rightarrow> op \<Rightarrow> op" where
  "signIn candidate s =
     (if op_token s \<noteq> None then s
      else let (issued, gen) = advance (op_auth s) in
        start_task \<lparr>tk_live = issued, tk_token = candidate, tk_creating = False, tk_work = SignInProbe\<rparr> ProbeSessions
          (s\<lparr>op_auth := gen, op_gate_busy := True, op_gate_error := None\<rparr>))"

definition signed_in :: "nat \<Rightarrow> task \<Rightarrow> op_row list \<Rightarrow> string option \<Rightarrow> string list \<Rightarrow> ms \<Rightarrow> op \<Rightarrow> op" where
  "signed_in i tk page next_cursor cases now s =
     (finish i
       (if \<not> live tk s then s
        else s\<lparr>op_rows := page, op_next_cursor := next_cursor, op_reads := nextReads [] page now,
               op_last_read_at := Some now, op_cases := cases, op_token := Some (tk_token tk)\<rparr>))
       \<lparr>op_gate_busy := False\<rparr>"

definition sign_in_failed :: "nat \<Rightarrow> task \<Rightarrow> op_error \<Rightarrow> op \<Rightarrow> op" where
  "sign_in_failed i tk e s =
     (finish i (if live tk s then s\<lparr>op_gate_error := Some (describeError e)\<rparr> else s))\<lparr>op_gate_busy := False\<rparr>"

definition createSession :: "string \<Rightarrow> string \<Rightarrow> op \<Rightarrow> op" where
  "createSession sessionId caseId s =
     (case op_token s of
        None \<Rightarrow> s
      | Some token \<Rightarrow>
          start_task \<lparr>tk_live = ticket (op_auth s), tk_token = token, tk_creating = True,
              tk_work = Creating (length (op_rows s))\<rparr> (CreateRequest sessionId caseId)
            (s\<lparr>op_create_busy := True, op_create_error := None\<rparr>))"

definition created :: "nat \<Rightarrow> task \<Rightarrow> nat \<Rightarrow> string \<Rightarrow> (join_role \<times> string) list \<Rightarrow> (string \<times> string) list \<Rightarrow> op \<Rightarrow> op" where
  "created i tk shown session_id join_codes review_codes s =
     (if \<not> live tk s then finish i s
      else start_refresh (tk_token tk) shown True
        (finish i (s\<lparr>op_held := map_set session_id
             \<lparr>hc_join = Some join_codes, hc_review = Some review_codes, hc_upload = None\<rparr> (op_held s),
           op_selected := Some session_id, op_created_count := Suc (op_created_count s)\<rparr>)))"

definition create_failed :: "nat \<Rightarrow> task \<Rightarrow> op_error \<Rightarrow> op \<Rightarrow> op" where
  "create_failed i tk e s =
     finish i
       (if \<not> live tk s then s
        else if isAuthFailure e then signOut (Some (describeError e)) s
        else s\<lparr>op_create_error := Some (describeError e), op_create_busy := False\<rparr>)"

definition forget_codes :: "string \<Rightarrow> op \<Rightarrow> op" where
  "forget_codes session_id s = s\<lparr>op_held := map_delete session_id (op_held s)\<rparr>"

section \<open>The detail of a session\<close>

definition ALL_JOIN_ROLES :: "join_role list" where
  "ALL_JOIN_ROLES = [JoinStudent, JoinWizard, JoinTeacher]"

definition new_detail :: "nat \<Rightarrow> string \<Rightarrow> detail" where
  "new_detail n session_id = \<lparr>dt_instance = n, dt_session = session_id, dt_status = None, dt_status_error = None,
     dt_confirming = None, dt_action_busy = False, dt_action_error = None, dt_action_notice = None,
     dt_join_roles = ALL_JOIN_ROLES, dt_revoke_live = False, dt_effect = 0, dt_read_at = None\<rparr>"

text \<open>A setter of an instance that is not mounted does nothing.\<close>

definition with_detail :: "nat \<Rightarrow> (detail \<Rightarrow> detail) \<Rightarrow> op \<Rightarrow> op" where
  "with_detail n f s =
     (case op_detail s of
        Some d \<Rightarrow> if dt_instance d = n then s\<lparr>op_detail := Some (f d)\<rparr> else s
      | None \<Rightarrow> s)"

definition selected_row :: "op \<Rightarrow> op_row option" where
  "selected_row s = List.find (\<lambda>r. Some (row_id r) = op_selected s) (op_rows s)"

definition read_at :: "string \<Rightarrow> op \<Rightarrow> ms option" where
  "read_at session_id s = map_option (\<lambda>e. pr_readAtMs (re_current e)) (map_of (op_reads s) session_id)"

text \<open>The effect of the detail cancels its earlier read and reads the recording's status.\<close>

definition status_effect :: "string \<Rightarrow> detail \<Rightarrow> op \<Rightarrow> op" where
  "status_effect token d s =
     (let d1 = d\<lparr>dt_status_error := None, dt_effect := Suc (dt_effect d), dt_read_at := read_at (dt_session d) s\<rparr> in
      start_task \<lparr>tk_live = ticket (op_auth s), tk_token = token, tk_creating = False,
          tk_work = StatusRead (dt_instance d1) (dt_effect d1)\<rparr> (StatusRequest (dt_session d1))
        (s\<lparr>op_detail := Some d1\<rparr>))"

text \<open>After every event the page is rendered: the detail of the selected row is mounted or kept.\<close>

definition render :: "op \<Rightarrow> op" where
  "render s =
     (case (op_token s, selected_row s) of
        (Some token, Some row) \<Rightarrow>
          (case op_detail s of
             Some d \<Rightarrow>
               if dt_session d = row_id row then
                 (if dt_read_at d = read_at (row_id row) s then s else status_effect token d s)
               else status_effect token (new_detail (op_instances s) (row_id row)) (s\<lparr>op_instances := Suc (op_instances s)\<rparr>)
           | None \<Rightarrow>
               status_effect token (new_detail (op_instances s) (row_id row)) (s\<lparr>op_instances := Suc (op_instances s)\<rparr>))
      | _ \<Rightarrow> s\<lparr>op_detail := None\<rparr>)"

definition status_answer :: "nat \<Rightarrow> nat \<Rightarrow> op_error + string \<Rightarrow> op \<Rightarrow> op" where
  "status_answer n effect ans =
     with_detail n (\<lambda>d. if dt_effect d \<noteq> effect then d
       else case ans of
         Inr v \<Rightarrow> d\<lparr>dt_status := Some v\<rparr>
       | Inl e \<Rightarrow> d\<lparr>dt_status := None, dt_status_error := Some (describeError e)\<rparr>)"

text \<open>A click of the mounted detail; \<open>authTicket\<close> and \<open>client\<close> are the page's.\<close>

definition start_action :: "(nat \<Rightarrow> string \<Rightarrow> work) \<Rightarrow> (detail \<Rightarrow> detail) \<Rightarrow> (detail \<Rightarrow> op_request) \<Rightarrow> op \<Rightarrow> op" where
  "start_action w f req s =
     (case (op_token s, op_detail s) of
        (Some token, Some d) \<Rightarrow>
          start_task \<lparr>tk_live = ticket (op_auth s), tk_token = token, tk_creating = False,
              tk_work = w (dt_instance d) (dt_session d)\<rparr> (req d)
            (s\<lparr>op_detail := Some (f (d\<lparr>dt_action_busy := True, dt_action_error := None\<rparr>))\<rparr>)
      | _ \<Rightarrow> s)"

definition issueUploadCode :: "op \<Rightarrow> op" where
  "issueUploadCode = start_action IssuingUpload id (\<lambda>d. UploadRequest (dt_session d))"

definition reissueJoinCodes :: "op \<Rightarrow> op" where
  "reissueJoinCodes = start_action ReissuingJoin (\<lambda>d. d\<lparr>dt_action_notice := None\<rparr>)
     (\<lambda>d. JoinRequest (dt_session d) (dt_join_roles d) (dt_revoke_live d))"

definition regenerateReviewCodes :: "op \<Rightarrow> op" where
  "regenerateReviewCodes = start_action RegeneratingReview id (\<lambda>d. ReviewRequest (dt_session d))"

definition startJoinReissue :: "detail \<Rightarrow> detail" where
  "startJoinReissue d = d\<lparr>dt_join_roles := ALL_JOIN_ROLES, dt_revoke_live := False, dt_action_notice := None,
     dt_confirming := Some ConfirmJoin\<rparr>"

definition toggleJoinRole :: "join_role \<Rightarrow> detail \<Rightarrow> detail" where
  "toggleJoinRole role d = d\<lparr>dt_join_roles :=
     (if role \<in> set (dt_join_roles d) then filter (\<lambda>each. each \<noteq> role) (dt_join_roles d)
      else filter (\<lambda>each. each = role \<or> each \<in> set (dt_join_roles d)) ALL_JOIN_ROLES)\<rparr>"

definition no_codes :: held_codes where
  "no_codes = \<lparr>hc_join = None, hc_review = None, hc_upload = None\<rparr>"

text \<open>\<open>{ ...current, [sessionId]: { ...current[sessionId], ... } }\<close>.\<close>

definition hold_codes :: "string \<Rightarrow> (held_codes \<Rightarrow> held_codes) \<Rightarrow> op \<Rightarrow> op" where
  "hold_codes session_id f s =
     s\<lparr>op_held := map_set session_id (f (nullish (map_of (op_held s) session_id) no_codes)) (op_held s)\<rparr>"

definition onUploadCode :: "string \<Rightarrow> string \<Rightarrow> string \<Rightarrow> op \<Rightarrow> op" where
  "onUploadCode session_id code expires = hold_codes session_id (\<lambda>h. h\<lparr>hc_upload := Some (code, expires)\<rparr>)"

definition onJoinCodes :: "string \<Rightarrow> (join_role \<times> string) list \<Rightarrow> op \<Rightarrow> op" where
  "onJoinCodes session_id codes = hold_codes session_id
     (\<lambda>h. h\<lparr>hc_join := Some (fold (\<lambda>(r, c). map_set r c) codes (nullish (hc_join h) []))\<rparr>)"

definition onReviewCodes :: "string \<Rightarrow> (string \<times> string) list \<Rightarrow> op \<Rightarrow> op" where
  "onReviewCodes session_id codes = hold_codes session_id (\<lambda>h. h\<lparr>hc_review := Some codes\<rparr>)"

text \<open>The rest of an action: its success, its failure, and the \<open>finally\<close> of both.\<close>

definition action_succeeded :: "nat \<Rightarrow> task \<Rightarrow> nat \<Rightarrow> (op \<Rightarrow> op) \<Rightarrow> (detail \<Rightarrow> detail) \<Rightarrow> op \<Rightarrow> op" where
  "action_succeeded i tk n on_codes f s =
     with_detail n (\<lambda>d. d\<lparr>dt_action_busy := False\<rparr>)
       (finish i (if \<not> live tk s then s else with_detail n (\<lambda>d. f (d\<lparr>dt_confirming := None\<rparr>)) (on_codes s)))"

definition action_failed :: "nat \<Rightarrow> task \<Rightarrow> nat \<Rightarrow> op_error \<Rightarrow> op \<Rightarrow> op" where
  "action_failed i tk n e s =
     with_detail n (\<lambda>d. d\<lparr>dt_action_busy := False\<rparr>)
       (finish i (if live tk s then with_detail n (\<lambda>d. d\<lparr>dt_action_error := Some (describeError e)\<rparr>) s else s))"

definition join_notice :: "bool \<Rightarrow> int \<Rightarrow> detail_notice" where
  "join_notice revoke_live revoked_tokens = (if revoke_live then JoinReissuedAndCut revoked_tokens else JoinReissued)"

section \<open>The page\<close>

datatype op_answer =
    PageAnswer "op_row list" "string option"
  | ProbeAnswer "op_row list" "string option" "string list"
  | CreatedAnswer string "(join_role \<times> string) list" "(string \<times> string) list"
  | StatusAnswer string
  | UploadAnswer string string
  | JoinAnswer "(join_role \<times> string) list" bool int
  | ReviewAnswer "(string \<times> string) list"
  | ErrorAnswer op_error

text \<open>The continuation of a task for its answer; an answer that its request cannot have does nothing.\<close>

definition continue :: "nat \<Rightarrow> task \<Rightarrow> work \<Rightarrow> op_answer \<Rightarrow> ms \<Rightarrow> op \<Rightarrow> op" where
  "continue i tk w ans now s =
     (case w of
        FirstPage latest shown \<Rightarrow>
          (case ans of
             PageAnswer page next_cursor \<Rightarrow> refresh_page i tk latest shown page 1 next_cursor now s
           | ErrorAnswer e \<Rightarrow> list_error i tk latest e s
           | _ \<Rightarrow> s)
      | NextPage latest shown fresh pages \<Rightarrow>
          (case ans of
             PageAnswer page next_cursor \<Rightarrow> refresh_page i tk latest shown (appendPage fresh page) pages next_cursor now s
           | ErrorAnswer e \<Rightarrow> list_error i tk latest e s
           | _ \<Rightarrow> s)
      | OlderPage latest \<Rightarrow>
          (case ans of
             PageAnswer page next_cursor \<Rightarrow> older_page i tk latest page next_cursor now s
           | ErrorAnswer e \<Rightarrow> list_error i tk latest e s
           | _ \<Rightarrow> s)
      | SignInProbe \<Rightarrow>
          (case ans of
             ProbeAnswer page next_cursor cases \<Rightarrow> signed_in i tk page next_cursor cases now s
           | ErrorAnswer e \<Rightarrow> sign_in_failed i tk e s
           | _ \<Rightarrow> s)
      | Creating shown \<Rightarrow>
          (case ans of
             CreatedAnswer session_id join review \<Rightarrow> created i tk shown session_id join review s
           | ErrorAnswer e \<Rightarrow> create_failed i tk e s
           | _ \<Rightarrow> s)
      | StatusRead n effect \<Rightarrow>
          (case ans of
             StatusAnswer v \<Rightarrow> status_answer n effect (Inr v) (finish i s)
           | ErrorAnswer e \<Rightarrow> status_answer n effect (Inl e) (finish i s)
           | _ \<Rightarrow> s)
      | IssuingUpload n sid \<Rightarrow>
          (case ans of
             UploadAnswer code expires \<Rightarrow> action_succeeded i tk n (onUploadCode sid code expires) id s
           | ErrorAnswer e \<Rightarrow> action_failed i tk n e s
           | _ \<Rightarrow> s)
      | ReissuingJoin n sid \<Rightarrow>
          (case ans of
             JoinAnswer codes revoke_live revoked \<Rightarrow>
               action_succeeded i tk n (onJoinCodes sid codes)
                 (\<lambda>d. d\<lparr>dt_action_notice := Some (join_notice revoke_live revoked)\<rparr>) s
           | ErrorAnswer e \<Rightarrow> action_failed i tk n e s
           | _ \<Rightarrow> s)
      | RegeneratingReview n sid \<Rightarrow>
          (case ans of
             ReviewAnswer codes \<Rightarrow> action_succeeded i tk n (onReviewCodes sid codes) id s
           | ErrorAnswer e \<Rightarrow> action_failed i tk n e s
           | _ \<Rightarrow> s))"

datatype op_event =
    SignIn string
  | SignOut
  | Refresh
  | LoadOlder
  | CreateSession string string
  | Select string
  | ForgetCodes string
  | IssueUpload
  | ReissueJoin
  | RegenerateReview
  | StartJoin
  | Confirm "confirming option"
  | ToggleRole join_role
  | SetRevoke bool
  | Answer nat op_answer ms

definition in_detail :: "(detail \<Rightarrow> detail) \<Rightarrow> op \<Rightarrow> op" where
  "in_detail f s = s\<lparr>op_detail := map_option f (op_detail s)\<rparr>"

fun page_event :: "op_event \<Rightarrow> op \<Rightarrow> op" where
  "page_event (SignIn candidate) s = signIn candidate s"
| "page_event SignOut s = (if op_token s = None then s else signOut None s)"
| "page_event Refresh s = refresh s"
| "page_event LoadOlder s = loadOlder s"
| "page_event (CreateSession sessionId caseId) s = createSession sessionId caseId s"
| "page_event (Select session_id) s = (if op_token s = None then s else s\<lparr>op_selected := Some session_id\<rparr>)"
| "page_event (ForgetCodes session_id) s = forget_codes session_id s"
| "page_event IssueUpload s = issueUploadCode s"
| "page_event ReissueJoin s = reissueJoinCodes s"
| "page_event RegenerateReview s = regenerateReviewCodes s"
| "page_event StartJoin s = in_detail startJoinReissue s"
| "page_event (Confirm c) s = in_detail (\<lambda>d. d\<lparr>dt_confirming := c\<rparr>) s"
| "page_event (ToggleRole role) s = in_detail (toggleJoinRole role) s"
| "page_event (SetRevoke b) s = in_detail (\<lambda>d. d\<lparr>dt_revoke_live := b\<rparr>) s"
| "page_event (Answer i ans now) s =
     (if i < length (op_tasks s) then
        (case op_tasks s ! i of Some tk \<Rightarrow> continue i tk (tk_work tk) ans now s | None \<Rightarrow> s)
      else s)"

definition op_step :: "op_event \<Rightarrow> op \<Rightarrow> op" where
  "op_step e s = render (page_event e s)"

definition op_run :: "op_event list \<Rightarrow> op \<Rightarrow> op" where
  "op_run evs s = fold op_step evs s"

section \<open>Tasks and tickets\<close>

definition task_at :: "op \<Rightarrow> nat \<Rightarrow> task \<Rightarrow> bool" where
  "task_at s i tk \<longleftrightarrow> i < length (op_tasks s) \<and> op_tasks s ! i = Some tk"

lemma task_at_start [simp]:
  "task_at (start_task tk req s) i t \<longleftrightarrow> task_at s i t \<or> i = length (op_tasks s) \<and> t = tk"
  by (auto simp: task_at_def start_task_def nth_append)

lemma task_at_finish [simp]: "task_at (finish k s) i t \<longleftrightarrow> task_at s i t \<and> i \<noteq> k"
  by (cases "i = k") (auto simp: task_at_def finish_def)

named_theorems op_frame \<open>fields of the page that an operation leaves alone\<close>

lemma start_frame [op_frame]:
  "op_token (start_task tk req s) = op_token s" "op_auth (start_task tk req s) = op_auth s"
  "op_list_gen (start_task tk req s) = op_list_gen s" "op_rows (start_task tk req s) = op_rows s"
  "op_next_cursor (start_task tk req s) = op_next_cursor s" "op_reads (start_task tk req s) = op_reads s"
  "op_last_read_at (start_task tk req s) = op_last_read_at s" "op_cases (start_task tk req s) = op_cases s"
  "op_selected (start_task tk req s) = op_selected s" "op_held (start_task tk req s) = op_held s"
  "op_list_busy (start_task tk req s) = op_list_busy s" "op_create_busy (start_task tk req s) = op_create_busy s"
  "op_gate_busy (start_task tk req s) = op_gate_busy s" "op_detail (start_task tk req s) = op_detail s"
  "op_sent (start_task tk req s) = op_sent s @ [(tk_token tk, op_token s, req)]"
  by (simp_all add: start_task_def)

lemma finish_frame [op_frame]:
  "op_token (finish i s) = op_token s" "op_auth (finish i s) = op_auth s" "op_list_gen (finish i s) = op_list_gen s"
  "op_rows (finish i s) = op_rows s" "op_next_cursor (finish i s) = op_next_cursor s" "op_reads (finish i s) = op_reads s"
  "op_last_read_at (finish i s) = op_last_read_at s" "op_cases (finish i s) = op_cases s"
  "op_selected (finish i s) = op_selected s" "op_held (finish i s) = op_held s"
  "op_list_busy (finish i s) = op_list_busy s" "op_create_busy (finish i s) = op_create_busy s"
  "op_gate_busy (finish i s) = op_gate_busy s" "op_detail (finish i s) = op_detail s" "op_sent (finish i s) = op_sent s"
  by (simp_all add: finish_def)

text \<open>
  The tickets: a task with a ticket that is still valid was started with the token that the page
  holds; while no token is held there is at most one, the sign-in.
\<close>

definition ticket_ok :: "op \<Rightarrow> task \<Rightarrow> bool" where
  "ticket_ok s tk \<longleftrightarrow> tk_live tk \<le> op_auth s \<and>
     (tk_live tk = op_auth s \<longrightarrow>
        op_token s = (if tk_work tk = SignInProbe then None else Some (tk_token tk)))"

definition tickets_ok :: "op \<Rightarrow> bool" where
  "tickets_ok s \<longleftrightarrow> (\<forall>i tk. task_at s i tk \<longrightarrow> ticket_ok s tk) \<and>
     (op_token s = None \<longrightarrow> (\<forall>i j tk tk'. task_at s i tk \<and> tk_live tk = op_auth s \<and>
        task_at s j tk' \<and> tk_live tk' = op_auth s \<longrightarrow> i = j))"

definition sent_ok :: "op \<Rightarrow> bool" where
  "sent_ok s \<longleftrightarrow> (\<forall>(token, held, req) \<in> set (op_sent s). req = ProbeSessions \<or> held = Some token)"

definition emptied :: "op \<Rightarrow> bool" where
  "emptied s \<longleftrightarrow> op_rows s = [] \<and> op_next_cursor s = None \<and> op_reads s = [] \<and> op_last_read_at s = None \<and>
     op_held s = [] \<and> op_selected s = None \<and> op_cases s = []"

definition op_core :: "op \<Rightarrow> bool" where
  "op_core s \<longleftrightarrow> tickets_ok s \<and> sent_ok s \<and> (op_token s = None \<longrightarrow> emptied s) \<and>
     fst ` set (op_reads s) = row_id ` set (op_rows s)"

lemma coreD:
  assumes "op_core s" and "task_at s i tk" and "live tk s" and "tk_work tk \<noteq> SignInProbe"
  shows "op_token s = Some (tk_token tk)"
  using assms by (fastforce simp: op_core_def tickets_ok_def ticket_ok_def live_def ticket_valid_def)

lemma core_old: "op_core s \<Longrightarrow> task_at s i tk \<Longrightarrow> tk_live tk \<le> op_auth s"
  by (simp add: op_core_def tickets_ok_def ticket_ok_def)

lemma core_unique:
  assumes "op_core s" and none: "op_token s = None" and i: "task_at s i tk" "tk_live tk = op_auth s"
    and j: "task_at s j tk'" "tk_live tk' = op_auth s"
  shows "i = j"
proof -
  have "tickets_ok s" using assms(1) by (simp add: op_core_def)
  from mp [OF conjunct2 [OF this [unfolded tickets_ok_def]] none] i j show ?thesis by blast
qed

text \<open>What an update of the other fields, or of the list while signed in, does not break.\<close>

lemma core_update:
  assumes "op_core s" and "op_token s' = op_token s" "op_auth s' = op_auth s" "op_tasks s' = op_tasks s" "op_sent s' = op_sent s"
    and "fst ` set (op_reads s') = row_id ` set (op_rows s')"
    and "op_token s = None \<Longrightarrow> emptied s'"
  shows "op_core s'"
  using assms by (auto simp: op_core_def tickets_ok_def ticket_ok_def task_at_def sent_ok_def)

lemma core_same:
  assumes "op_core s" and "op_token s' = op_token s" "op_auth s' = op_auth s" "op_tasks s' = op_tasks s" "op_sent s' = op_sent s"
    and "op_rows s' = op_rows s" "op_next_cursor s' = op_next_cursor s" "op_reads s' = op_reads s"
    "op_last_read_at s' = op_last_read_at s" "op_held s' = op_held s" "op_selected s' = op_selected s" "op_cases s' = op_cases s"
  shows "op_core s'"
  by (rule core_update [OF assms(1-5)]) (use assms in \<open>auto simp: op_core_def emptied_def\<close>)

lemma core_finish: "op_core s \<Longrightarrow> op_core (finish i s)"
proof -
  assume core: "op_core s"
  then have "tickets_ok s" by (simp add: op_core_def)
  then have "tickets_ok (finish i s)"
    unfolding tickets_ok_def ticket_ok_def by (simp only: task_at_finish finish_frame) blast
  with core show ?thesis by (auto simp: op_core_def sent_ok_def emptied_def op_frame)
qed

lemma core_start:
  assumes "op_core s" and "tk_live tk = op_auth s" and "tk_work tk \<noteq> SignInProbe" and "op_token s = Some (tk_token tk)"
  shows "op_core (start_task tk req s)"
  using assms by (auto simp: op_core_def tickets_ok_def ticket_ok_def sent_ok_def op_frame)

lemma signOut_fields [simp]:
  "op_token (signOut m s) = None" "op_auth (signOut m s) = op_auth s + 1" "op_list_gen (signOut m s) = op_list_gen s + 1"
  "op_tasks (signOut m s) = op_tasks s" "op_sent (signOut m s) = op_sent s" "op_list_busy (signOut m s) = False"
  "op_create_busy (signOut m s) = False" "op_gate_busy (signOut m s) = op_gate_busy s" "emptied (signOut m s)"
  by (simp_all add: signOut_def advance_def emptied_def)

lemma core_signOut: "op_core s \<Longrightarrow> op_core (signOut m s)"
proof -
  assume core: "op_core s"
  have "task_at (signOut m s) i tk = task_at s i tk" for i tk by (simp add: task_at_def)
  moreover have "op_reads (signOut m s) = []" "op_rows (signOut m s) = []" by (simp_all add: signOut_def)
  ultimately show ?thesis using core
    by (fastforce simp: op_core_def tickets_ok_def ticket_ok_def sent_ok_def)
qed

lemma core_listFailed: "op_core s \<Longrightarrow> op_core (listFailed e s)"
proof (cases "isAuthFailure e")
  case False
  assume "op_core s"
  then show ?thesis by (rule core_same) (simp_all add: listFailed_def False)
qed (simp add: listFailed_def core_signOut)

lemma core_list_done: "op_core s \<Longrightarrow> op_core (list_done i tk latest s)"
proof -
  assume "op_core s"
  then have "op_core (if current tk latest s then s\<lparr>op_list_busy := False\<rparr> else s)" (is "op_core ?s1")
    by (rule core_same) simp_all
  then have "op_core (if tk_creating tk \<and> live tk ?s1 then ?s1\<lparr>op_create_busy := False\<rparr> else ?s1)"
    by (rule core_same) simp_all
  then show ?thesis unfolding list_done_def Let_def by (rule core_finish)
qed

lemma core_list_error: "op_core s \<Longrightarrow> op_core (list_error i tk latest e s)"
  by (simp add: list_error_def core_list_done core_listFailed)

lemma core_start_refresh:
  assumes "op_core s" and "op_token s = Some token"
  shows "op_core (start_refresh token shown creating s)"
proof -
  have "op_core (s\<lparr>op_list_gen := op_list_gen s + 1, op_list_busy := True, op_list_error := None\<rparr>)"
    by (rule core_same [OF assms(1)]) simp_all
  from core_start [OF this] show ?thesis using assms(2)
    by (simp add: start_refresh_def advance_def ticket_def)
qed

lemma core_refresh_page:
  assumes core: "op_core s" and at: "task_at s i tk" "tk_work tk \<noteq> SignInProbe"
  shows "op_core (refresh_page i tk latest shown fresh pages next_cursor now s)"
proof (cases "current tk latest s")
  case False
  then show ?thesis by (simp add: refresh_page_def core_list_done core)
next
  case True
  have token: "op_token s = Some (tk_token tk)"
    using coreD [OF core at(1) _ at(2)] True by (simp add: current_def)
  have live: "tk_live tk = op_auth s" using True by (simp add: current_def live_def ticket_valid_def)
  have "op_core (s\<lparr>op_rows := fresh, op_next_cursor := next_cursor, op_reads := nextReads (op_reads s) fresh now,
      op_last_read_at := Some now\<rparr>)"
    by (rule core_update [OF core]) (simp_all add: token)
  moreover have "op_core (start_task (tk\<lparr>tk_work := NextPage latest shown fresh (Suc pages)\<rparr>)
      (ListSessions next_cursor) (finish i s))"
    by (rule core_start [OF core_finish [OF core]]) (simp_all add: op_frame live token)
  ultimately show ?thesis using True by (simp add: refresh_page_def core_list_done)
qed

lemma core_older_page:
  assumes core: "op_core s" and at: "task_at s i tk" "tk_work tk \<noteq> SignInProbe"
  shows "op_core (older_page i tk latest page next_cursor now s)"
proof (cases "current tk latest s")
  case False
  then show ?thesis by (simp add: older_page_def core_list_done core)
next
  case True
  have token: "op_token s = Some (tk_token tk)"
    using coreD [OF core at(1) _ at(2)] True by (simp add: current_def)
  have "op_core (s\<lparr>op_rows := appendPage (op_rows s) page, op_reads := addFirstReads (op_reads s) page now,
      op_next_cursor := next_cursor\<rparr>)"
    by (rule core_update [OF core]) (use core in \<open>simp_all add: token op_core_def\<close>)
  with True show ?thesis by (simp add: older_page_def core_list_done)
qed

lemma core_signIn: "op_core s \<Longrightarrow> op_core (signIn candidate s)"
proof (cases "op_token s")
  case None
  assume core: "op_core s"
  have older: "tk_live tk \<noteq> op_auth s + 1 \<and> tk_live tk \<le> op_auth s + 1" if "task_at s i tk" for i tk
    using core that by (fastforce simp: op_core_def tickets_ok_def ticket_ok_def)
  define s1 where "s1 = s\<lparr>op_auth := op_auth s + 1, op_gate_busy := True, op_gate_error := None\<rparr>"
  have at: "task_at s1 i tk = task_at s i tk" for i tk by (simp add: s1_def task_at_def)
  have s1: "op_auth s1 = op_auth s + 1" "op_token s1 = None" "op_sent s1 = op_sent s" "emptied s1 = emptied s"
    "op_reads s1 = op_reads s" "op_rows s1 = op_rows s"
    by (simp_all add: s1_def emptied_def None)
  let ?tk = "\<lparr>tk_live = op_auth s + 1, tk_token = candidate, tk_creating = False, tk_work = SignInProbe\<rparr>"
  have "tickets_ok (start_task ?tk ProbeSessions s1)"
    unfolding tickets_ok_def ticket_ok_def using older by (auto simp: op_frame s1 at)
  moreover have "emptied (start_task ?tk ProbeSessions s1) = emptied s1" by (simp add: emptied_def op_frame)
  ultimately have "op_core (start_task ?tk ProbeSessions s1)"
    using core None by (auto simp: op_core_def sent_ok_def op_frame s1)
  with None show ?thesis by (simp add: signIn_def advance_def s1_def)
qed (simp add: signIn_def)

lemma core_signed_in:
  assumes core: "op_core s" and at: "task_at s i tk" "tk_work tk = SignInProbe"
  shows "op_core (signed_in i tk page next_cursor cases now s)"
proof (cases "live tk s")
  case False
  have "op_core ((finish i s)\<lparr>op_gate_busy := False\<rparr>)" by (rule core_same [OF core_finish [OF core]]) simp_all
  with False show ?thesis by (simp add: signed_in_def)
next
  case True
  then have live: "tk_live tk = op_auth s" by (simp add: live_def ticket_valid_def)
  then have none: "op_token s = None"
    using core at by (fastforce simp: op_core_def tickets_ok_def ticket_ok_def)
  define s1 where "s1 = s\<lparr>op_rows := page, op_next_cursor := next_cursor, op_reads := nextReads [] page now,
    op_last_read_at := Some now, op_cases := cases, op_token := Some (tk_token tk)\<rparr>"
  have at1: "task_at s1 j t = task_at s j t" for j t by (simp add: s1_def task_at_def)
  have only: "tk_live t \<noteq> op_auth s" if "task_at s j t" "j \<noteq> i" for j t
    using core_unique [OF core none that(1) _ at(1) live] that(2) by blast
  have old: "tk_live t \<le> op_auth s" if "task_at s j t" for j t by (rule core_old [OF core that])
  have s1: "op_auth s1 = op_auth s" "op_token s1 = Some (tk_token tk)" "op_sent s1 = op_sent s"
    by (simp_all add: s1_def)
  have "tickets_ok (finish i s1)"
    unfolding tickets_ok_def ticket_ok_def using only old by (auto simp: op_frame at1 s1)
  moreover have "fst ` set (op_reads s1) = row_id ` set (op_rows s1)" by (simp add: s1_def)
  ultimately have "op_core (finish i s1)"
    using core by (simp add: op_core_def op_frame s1 sent_ok_def)
  then have "op_core ((finish i s1)\<lparr>op_gate_busy := False\<rparr>)" by (rule core_same) simp_all
  with True show ?thesis by (simp add: signed_in_def s1_def)
qed

lemma core_sign_in_failed: "op_core s \<Longrightarrow> op_core (sign_in_failed i tk e s)"
proof -
  assume "op_core s"
  then have "op_core (if live tk s then s\<lparr>op_gate_error := Some (describeError e)\<rparr> else s)"
    by (rule core_same) simp_all
  from core_finish [OF this, of i] show ?thesis unfolding sign_in_failed_def by (rule core_same) simp_all
qed

lemma core_createSession: "op_core s \<Longrightarrow> op_core (createSession sessionId caseId s)"
proof (cases "op_token s")
  case (Some token)
  assume "op_core s"
  then have "op_core (s\<lparr>op_create_busy := True, op_create_error := None\<rparr>)" by (rule core_same) simp_all
  from core_start [OF this] Some show ?thesis by (simp add: createSession_def ticket_def)
qed (simp add: createSession_def)

lemma core_created:
  assumes core: "op_core s" and at: "task_at s i tk" "tk_work tk \<noteq> SignInProbe"
  shows "op_core (created i tk shown session_id join review s)"
proof (cases "live tk s")
  case True
  have token: "op_token s = Some (tk_token tk)" by (rule coreD [OF core at(1) True at(2)])
  let ?s = "s\<lparr>op_held := map_set session_id
      \<lparr>hc_join = Some join, hc_review = Some review, hc_upload = None\<rparr> (op_held s),
    op_selected := Some session_id, op_created_count := Suc (op_created_count s)\<rparr>"
  have "op_core ?s" by (rule core_update [OF core]) (use core in \<open>simp_all add: op_core_def token\<close>)
  from core_start_refresh [OF core_finish [OF this, of i]] show ?thesis
    using True token by (simp add: created_def op_frame)
qed (simp add: created_def core_finish core)

lemma core_create_failed: "op_core s \<Longrightarrow> op_core (create_failed i tk e s)"
proof -
  assume core: "op_core s"
  have "op_core (s\<lparr>op_create_error := Some (describeError e), op_create_busy := False\<rparr>)"
    by (rule core_same [OF core]) simp_all
  with core show ?thesis by (simp add: create_failed_def core_finish core_signOut)
qed

lemma core_with_detail: "op_core s \<Longrightarrow> op_core (with_detail n f s)"
  by (erule core_same) (simp_all add: with_detail_def split: option.split)

lemma core_hold_codes:
  assumes "op_core s" and "op_token s \<noteq> None"
  shows "op_core (hold_codes session_id f s)"
  by (rule core_update [OF assms(1)]) (use assms in \<open>simp_all add: hold_codes_def op_core_def\<close>)

lemma core_action_succeeded:
  assumes core: "op_core s" and at: "task_at s i tk" "tk_work tk \<noteq> SignInProbe"
    and codes: "\<And>s. op_core s \<Longrightarrow> op_token s \<noteq> None \<Longrightarrow> op_core (on_codes s)"
  shows "op_core (action_succeeded i tk n on_codes f s)"
proof (cases "live tk s")
  case True
  then have "op_token s \<noteq> None" using coreD [OF core at(1) True at(2)] by simp
  with codes [OF core] True show ?thesis
    by (simp add: action_succeeded_def core_with_detail core_finish)
qed (simp add: action_succeeded_def core_with_detail core_finish core)

lemma core_action_failed: "op_core s \<Longrightarrow> op_core (action_failed i tk n e s)"
  by (simp add: action_failed_def core_with_detail core_finish)

lemma core_start_action:
  assumes core: "op_core s" and work: "\<And>n sid. w n sid \<noteq> SignInProbe"
  shows "op_core (start_action w f req s)"
proof (cases "op_token s")
  case (Some token)
  show ?thesis
  proof (cases "op_detail s")
    case (Some d)
    have "op_core (s\<lparr>op_detail := Some (f (d\<lparr>dt_action_busy := True, dt_action_error := None\<rparr>))\<rparr>)"
      by (rule core_same [OF core]) simp_all
    from core_start [OF this] show ?thesis
      using Some \<open>op_token s = Some token\<close> work by (simp add: start_action_def ticket_def)
  qed (simp add: start_action_def Some core)
qed (simp add: start_action_def core)

lemma core_continue:
  assumes core: "op_core s" and at: "task_at s i tk"
  shows "op_core (continue i tk (tk_work tk) ans now s)"
proof -
  have codes: "op_core (onUploadCode sid c x s')" "op_core (onJoinCodes sid cs s')" "op_core (onReviewCodes sid rs s')"
    if "op_core s'" "op_token s' \<noteq> None" for sid c x cs rs s'
    using that by (simp_all add: onUploadCode_def onJoinCodes_def onReviewCodes_def core_hold_codes)
  have acts: "op_core (action_succeeded i tk n (onUploadCode sid c x) f s)"
    "op_core (action_succeeded i tk n (onJoinCodes sid cs) f s)"
    "op_core (action_succeeded i tk n (onReviewCodes sid rs) f s)" if "tk_work tk \<noteq> SignInProbe" for n sid c x cs rs f
    by (rule core_action_succeeded [OF core at that], erule codes, assumption)+
  have lists: "op_core (refresh_page i tk latest shown fresh pages c now s)" "op_core (older_page i tk latest page c now s)"
    "op_core (created i tk shown sid js rs s)" if "tk_work tk \<noteq> SignInProbe" for latest shown fresh pages c page sid js rs
    by (rule core_refresh_page [OF core at that], rule core_older_page [OF core at that], rule core_created [OF core at that])
  have rest: "op_core (list_error i tk latest e s)" "op_core (create_failed i tk e s)" "op_core (sign_in_failed i tk e s)"
    "op_core (action_failed i tk n e s)" "op_core (status_answer n effect res (finish i s))" for latest e n effect res
    by (simp_all add: core core_list_error core_create_failed core_sign_in_failed core_action_failed status_answer_def
      core_with_detail core_finish)
  show ?thesis
    by (cases "tk_work tk")
       (simp_all add: continue_def core acts lists rest core_signed_in [OF core at] split: op_answer.split)
qed

lemma core_render: "op_core s \<Longrightarrow> op_core (render s)"
proof -
  assume core: "op_core s"
  have "op_core (status_effect token d s')" if "op_core s'" "op_token s' = Some token" for token d s'
  proof -
    have "op_core (s'\<lparr>op_detail := x\<rparr>)" for x by (rule core_same [OF that(1)]) simp_all
    from core_start [OF this] show ?thesis using that(2) by (simp add: status_effect_def ticket_def Let_def)
  qed
  moreover have "op_core (s\<lparr>op_instances := n\<rparr>)" "op_core (s\<lparr>op_detail := None\<rparr>)" for n
    by (rule core_same [OF core]; simp)+
  ultimately show ?thesis using core by (auto simp: render_def split: option.split)
qed

lemma core_event: "op_core s \<Longrightarrow> op_core (page_event e s)"
proof (cases e)
  case (Select session_id)
  assume core: "op_core s"
  have "op_core (s\<lparr>op_selected := Some session_id\<rparr>)" if "op_token s \<noteq> None"
    by (rule core_update [OF core]) (use core that in \<open>simp_all add: op_core_def\<close>)
  with core Select show ?thesis by simp
next
  case (ForgetCodes session_id)
  assume core: "op_core s"
  have "op_core (forget_codes session_id s)"
    by (rule core_update [OF core])
       (use core in \<open>auto simp: forget_codes_def op_core_def emptied_def map_delete_def\<close>)
  with ForgetCodes show ?thesis by simp
next
  case (Answer i ans now)
  assume "op_core s"
  then show ?thesis using Answer core_continue [of s i] by (auto simp: task_at_def split: option.split)
next
  case LoadOlder
  assume core: "op_core s"
  have "op_core (s\<lparr>op_list_gen := op_list_gen s + 1, op_list_busy := True, op_list_error := None\<rparr>)"
    by (rule core_same [OF core]) simp_all
  from core_start [OF this] core show ?thesis
    by (auto simp: LoadOlder loadOlder_def advance_def ticket_def split: option.split list.split)
qed (auto simp: core_signIn core_signOut refresh_def core_start_refresh core_createSession issueUploadCode_def
  reissueJoinCodes_def regenerateReviewCodes_def core_start_action in_detail_def intro: core_same split: option.split)



lemma core_initial: "op_core initial_op"
  by (simp add: op_core_def tickets_ok_def task_at_def sent_ok_def emptied_def initial_op_def)

section \<open>No busy flag outlives its request\<close>

fun list_ticket :: "work \<Rightarrow> int option" where
  "list_ticket (FirstPage latest shown) = Some latest"
| "list_ticket (NextPage latest shown fresh pages) = Some latest"
| "list_ticket (OlderPage latest) = Some latest"
| "list_ticket w = None"

definition lists :: "op \<Rightarrow> task \<Rightarrow> bool" where
  "lists s tk \<longleftrightarrow> live tk s \<and> list_ticket (tk_work tk) = Some (op_list_gen s)"

definition creates :: "op \<Rightarrow> task \<Rightarrow> bool" where
  "creates s tk \<longleftrightarrow> live tk s \<and> tk_creating tk \<and>
     (list_ticket (tk_work tk) \<noteq> None \<or> (\<exists>shown. tk_work tk = Creating shown))"

definition waits :: "op \<Rightarrow> (task \<Rightarrow> bool) \<Rightarrow> bool" where
  "waits s P \<longleftrightarrow> (\<exists>i tk. task_at s i tk \<and> P tk)"

definition busy_ok :: "op \<Rightarrow> bool" where
  "busy_ok s \<longleftrightarrow>
     (op_list_busy s \<longrightarrow> waits s (lists s)) \<and>
     (op_create_busy s \<longrightarrow> waits s (creates s)) \<and>
     (op_gate_busy s \<longrightarrow> waits s (\<lambda>tk. tk_work tk = SignInProbe)) \<and>
     (op_token s = None \<longrightarrow> \<not> op_list_busy s \<and> \<not> op_create_busy s)"

lemma waits_start [simp]: "waits (start_task tk req s) P \<longleftrightarrow> waits s P \<or> P tk"
  by (auto simp: waits_def)

lemma waits_finish: "waits s P \<Longrightarrow> task_at s i tk \<Longrightarrow> \<not> P tk \<Longrightarrow> waits (finish i s) P"
  unfolding waits_def by (metis task_at_def task_at_finish option.inject)

lemma tickets_frame [op_frame]:
  "lists (start_task tk req s) = lists s" "creates (start_task tk req s) = creates s"
  "lists (finish i s) = lists s" "creates (finish i s) = creates s" "live tk (start_task t req s) = live tk s"
  "live tk (finish i s) = live tk s"
  by (auto simp: lists_def creates_def live_def op_frame intro!: ext)

text \<open>Turning flags off, and touching other fields.\<close>

lemma busy_less:
  assumes "busy_ok s" and "op_auth s' = op_auth s" "op_list_gen s' = op_list_gen s" "op_tasks s' = op_tasks s"
    and "op_list_busy s' \<Longrightarrow> op_list_busy s" "op_create_busy s' \<Longrightarrow> op_create_busy s" "op_gate_busy s' \<Longrightarrow> op_gate_busy s"
    and "op_token s' = None \<Longrightarrow> op_token s = None"
  shows "busy_ok s'"
proof -
  have "lists s' = lists s" "creates s' = creates s" "waits s' = waits s"
    using assms(2-4) by (auto simp: lists_def creates_def live_def waits_def task_at_def intro!: ext)
  with assms show ?thesis by (auto simp: busy_ok_def)
qed

lemma busy_start: "busy_ok s \<Longrightarrow> busy_ok (start_task tk req s)"
  by (simp add: busy_ok_def op_frame)

lemma busy_finish:
  assumes "busy_ok s" and "task_at s i tk" and "\<not> (op_list_busy s \<and> lists s tk)"
    and "\<not> (op_create_busy s \<and> creates s tk)" and "\<not> (op_gate_busy s \<and> tk_work tk = SignInProbe)"
  shows "busy_ok (finish i s)"
  using assms by (auto simp: busy_ok_def op_frame intro: waits_finish)

lemma busy_list_done:
  assumes busy: "busy_ok s" and at: "task_at s i tk" "list_ticket (tk_work tk) = Some latest"
  shows "busy_ok (list_done i tk latest s)"
proof -
  define s1 where "s1 = (if current tk latest s then s\<lparr>op_list_busy := False\<rparr> else s)"
  define s2 where "s2 = (if tk_creating tk \<and> live tk s1 then s1\<lparr>op_create_busy := False\<rparr> else s1)"
  have same: "op_auth s2 = op_auth s" "op_list_gen s2 = op_list_gen s" "op_tasks s2 = op_tasks s" "op_token s2 = op_token s"
    "live tk s1 = live tk s" "op_gate_busy s2 = op_gate_busy s"
    by (simp_all add: s2_def s1_def live_def)
  have "busy_ok s2" by (rule busy_less [OF busy]) (simp_all add: same, simp_all add: s2_def s1_def split: if_splits)
  moreover have "task_at s2 i tk" using at(1) by (simp add: task_at_def same)
  moreover have "\<not> (op_list_busy s2 \<and> lists s2 tk)"
    using at(2) by (auto simp: lists_def live_def same current_def ticket_valid_def s2_def s1_def)
  moreover have "\<not> (op_create_busy s2 \<and> creates s2 tk)"
    by (auto simp: creates_def live_def same s2_def s1_def)
  moreover have "tk_work tk \<noteq> SignInProbe" using at(2) by auto
  ultimately have "busy_ok (finish i s2)" by (intro busy_finish [of s2 i tk]) simp_all
  then show ?thesis by (simp only: list_done_def Let_def s2_def s1_def)
qed

lemma busy_signOut: "busy_ok s \<Longrightarrow> busy_ok (signOut m s)"
  by (auto simp: busy_ok_def waits_def task_at_def)

lemma tasks_signOut: "task_at (signOut m s) i tk = task_at s i tk" by (simp add: task_at_def)

lemma busy_list_error:
  assumes "busy_ok s" and "task_at s i tk" "list_ticket (tk_work tk) = Some latest"
  shows "busy_ok (list_error i tk latest e s)"
proof -
  have "busy_ok (s\<lparr>op_list_error := x\<rparr>)" for x by (rule busy_less [OF assms(1)]) simp_all
  then have "busy_ok (listFailed e s)" using assms(1) by (simp add: listFailed_def busy_signOut)
  moreover have "task_at (listFailed e s) i tk"
    using assms(2) by (simp add: listFailed_def tasks_signOut) (simp add: task_at_def)
  ultimately show ?thesis using assms by (simp add: list_error_def busy_list_done)
qed

text \<open>A new request for the list waits under the new ticket.\<close>

lemma busy_new_list:
  assumes "busy_ok s" and "op_token s \<noteq> None" and "tk_live tk = op_auth s"
    and "list_ticket (tk_work tk) = Some (op_list_gen s + 1)"
  shows "busy_ok (start_task tk req (s\<lparr>op_list_gen := op_list_gen s + 1, op_list_busy := True, op_list_error := None\<rparr>))"
    (is "busy_ok (start_task tk req ?s)")
proof -
  have "lists ?s tk" using assms(3,4) by (simp add: lists_def live_def ticket_valid_def)
  moreover have "creates ?s = creates s" "waits ?s = waits s"
    by (auto simp: creates_def live_def waits_def task_at_def intro!: ext)
  ultimately show ?thesis using assms(1,2) by (auto simp: busy_ok_def op_frame)
qed

lemma busy_start_refresh:
  assumes "busy_ok s" and "op_token s \<noteq> None"
  shows "busy_ok (start_refresh token shown creating s)"
  using busy_new_list [OF assms] by (simp add: start_refresh_def advance_def ticket_def)

lemma busy_refresh_page:
  assumes core: "op_core s" and busy: "busy_ok s" and at: "task_at s i tk" "list_ticket (tk_work tk) = Some latest"
  shows "busy_ok (refresh_page i tk latest shown fresh pages next_cursor now s)"
proof -
  have done_ok: "busy_ok (list_done i tk latest s)" by (rule busy_list_done [OF busy at])
  let ?s = "s\<lparr>op_rows := fresh, op_next_cursor := next_cursor, op_reads := nextReads (op_reads s) fresh now,
    op_last_read_at := Some now\<rparr>"
  have "busy_ok ?s" by (rule busy_less [OF busy]) simp_all
  moreover have "task_at ?s i tk" using at(1) by (simp add: task_at_def)
  ultimately have shown_ok: "busy_ok (list_done i tk latest ?s)" using at(2) by (intro busy_list_done)
  let ?tk = "tk\<lparr>tk_work := NextPage latest shown fresh (Suc pages)\<rparr>"
  have more_ok: "busy_ok (start_task ?tk req (finish i s))" if "current tk latest s" for req
  proof -
    have "lists s ?tk" using that by (simp add: lists_def current_def live_def ticket_valid_def)
    moreover have "creates s ?tk" if "creates s tk" using that by (simp add: creates_def live_def)
    moreover have keep: "waits (finish i s) P \<or> P tk" if "waits s P" for P
      using that at(1) by (cases "P tk") (auto intro: waits_finish)
    moreover have "waits (finish i s) (\<lambda>tk. tk_work tk = SignInProbe)" if "op_gate_busy s"
      using busy that keep [of "\<lambda>tk. tk_work tk = SignInProbe"] at(2) by (auto simp: busy_ok_def)
    ultimately show ?thesis using busy
      by (auto simp: busy_ok_def op_frame)
  qed
  show ?thesis using done_ok shown_ok more_ok by (simp add: refresh_page_def)
qed

lemma busy_older_page:
  assumes busy: "busy_ok s" and at: "task_at s i tk" "list_ticket (tk_work tk) = Some latest"
  shows "busy_ok (older_page i tk latest page next_cursor now s)"
proof -
  let ?s = "s\<lparr>op_rows := appendPage (op_rows s) page, op_reads := addFirstReads (op_reads s) page now,
    op_next_cursor := next_cursor\<rparr>"
  have "busy_ok ?s" by (rule busy_less [OF busy]) simp_all
  moreover have "task_at ?s i tk" using at(1) by (simp add: task_at_def)
  ultimately have "busy_ok (list_done i tk latest ?s)" using at(2) by (intro busy_list_done)
  with busy_list_done [OF busy at] show ?thesis by (simp add: older_page_def)
qed

lemma busy_signIn: "busy_ok s \<Longrightarrow> busy_ok (signIn candidate s)"
  by (auto simp: signIn_def advance_def busy_ok_def op_frame)

text \<open>A sign-in that ends: the flag of the gate is off, and the other flags were off or wait on.\<close>

lemma busy_gate_done:
  assumes "busy_ok s" and "task_at s i tk" and "tk_work tk = SignInProbe"
  shows "busy_ok ((finish i s)\<lparr>op_gate_busy := False\<rparr>)"
proof -
  have "busy_ok (s\<lparr>op_gate_busy := False\<rparr>)" by (rule busy_less [OF assms(1)]) simp_all
  moreover have "task_at (s\<lparr>op_gate_busy := False\<rparr>) i tk" using assms(2) by (simp add: task_at_def)
  ultimately have "busy_ok (finish i (s\<lparr>op_gate_busy := False\<rparr>))"
    by (rule busy_finish) (simp_all add: lists_def creates_def assms(3))
  moreover have "finish i (s\<lparr>op_gate_busy := False\<rparr>) = (finish i s)\<lparr>op_gate_busy := False\<rparr>" by (simp add: finish_def)
  ultimately show ?thesis by simp
qed

lemma busy_signed_in:
  assumes "busy_ok s" and "task_at s i tk" and "tk_work tk = SignInProbe"
  shows "busy_ok (signed_in i tk page next_cursor cases now s)"
proof -
  let ?s = "s\<lparr>op_rows := page, op_next_cursor := next_cursor, op_reads := nextReads [] page now,
    op_last_read_at := Some now, op_cases := cases, op_token := Some (tk_token tk)\<rparr>"
  have "busy_ok ?s" by (rule busy_less [OF assms(1)]) simp_all
  moreover have "task_at ?s i tk" using assms(2) by (simp add: task_at_def)
  ultimately show ?thesis using busy_gate_done assms by (simp add: signed_in_def)
qed

lemma busy_sign_in_failed:
  assumes "busy_ok s" and "task_at s i tk" and "tk_work tk = SignInProbe"
  shows "busy_ok (sign_in_failed i tk e s)"
proof -
  have "busy_ok (s\<lparr>op_gate_error := x\<rparr>)" for x by (rule busy_less [OF assms(1)]) simp_all
  moreover have "task_at (s\<lparr>op_gate_error := x\<rparr>) i tk" for x using assms(2) by (simp add: task_at_def)
  ultimately have "busy_ok ((finish i (s\<lparr>op_gate_error := x\<rparr>))\<lparr>op_gate_busy := False\<rparr>)" for x
    using assms(3) by (rule busy_gate_done)
  with busy_gate_done [OF assms] show ?thesis by (simp add: sign_in_failed_def)
qed

lemma busy_createSession: "busy_ok s \<Longrightarrow> busy_ok (createSession sessionId caseId s)"
proof (cases "op_token s")
  case (Some token)
  assume busy: "busy_ok s"
  let ?s = "s\<lparr>op_create_busy := True, op_create_error := None\<rparr>"
  have "lists ?s = lists s" "waits ?s = waits s" "creates ?s = creates s"
    by (auto simp: lists_def creates_def live_def waits_def task_at_def intro!: ext)
  moreover have "creates s \<lparr>tk_live = op_auth s, tk_token = token, tk_creating = True, tk_work = Creating n\<rparr>" for n
    by (simp add: creates_def live_def ticket_valid_def)
  ultimately show ?thesis using busy Some
    by (auto simp: createSession_def busy_ok_def op_frame ticket_def)
qed (simp add: createSession_def)

lemma busy_created:
  assumes busy: "busy_ok s" and core: "op_core s" and at: "task_at s i tk" "tk_work tk = Creating shown"
  shows "busy_ok (created i tk shown session_id join review s)"
proof (cases "live tk s")
  case False
  have "busy_ok (finish i s)"
    by (rule busy_finish [OF busy at(1)]) (simp_all add: lists_def creates_def False at(2))
  with False show ?thesis by (simp add: created_def)
next
  case True
  have token: "op_token s \<noteq> None" using coreD [OF core at(1) True] at(2) by simp
  let ?s = "s\<lparr>op_held := map_set session_id
      \<lparr>hc_join = Some join, hc_review = Some review, hc_upload = None\<rparr> (op_held s),
    op_selected := Some session_id, op_created_count := Suc (op_created_count s), op_create_busy := False\<rparr>"
  have "busy_ok ?s" by (rule busy_less [OF busy]) simp_all
  moreover have "task_at ?s i tk" using at(1) by (simp add: task_at_def)
  ultimately have "busy_ok (finish i ?s)" by (rule busy_finish) (simp_all add: lists_def at(2))
  from busy_start_refresh [OF this, of "tk_token tk" shown True] token
  have r: "busy_ok (start_refresh (tk_token tk) shown True (finish i ?s))" by (simp add: op_frame)
  let ?t = "created i tk shown session_id join review s"
  have t: "?t = (start_refresh (tk_token tk) shown True (finish i ?s))\<lparr>op_create_busy := op_create_busy s\<rparr>"
    using True by (simp add: created_def start_refresh_def start_task_def finish_def advance_def)
  define u where "u = start_refresh (tk_token tk) shown True (finish i ?s)"
  have w: "waits u (creates u)"
  proof -
    have "task_at u (length (op_tasks s)) \<lparr>tk_live = op_auth s, tk_token = tk_token tk, tk_creating = True,
        tk_work = FirstPage (op_list_gen s + 1) shown\<rparr>" (is "task_at u _ ?tk")
      by (simp add: u_def start_refresh_def advance_def ticket_def op_frame) (simp add: finish_def)
    moreover have "creates u ?tk"
      by (simp add: creates_def live_def ticket_valid_def u_def start_refresh_def advance_def ticket_def op_frame)
    ultimately show ?thesis unfolding waits_def by blast
  qed
  have same: "lists (u\<lparr>op_create_busy := b\<rparr>) = lists u" "waits (u\<lparr>op_create_busy := b\<rparr>) = waits u"
    "creates (u\<lparr>op_create_busy := b\<rparr>) = creates u" for b
    by (auto simp: lists_def creates_def live_def waits_def task_at_def intro!: ext)
  have "op_token u \<noteq> None" using token by (simp add: u_def start_refresh_def advance_def op_frame)
  with r w show ?thesis unfolding t u_def [symmetric] by (auto simp: busy_ok_def same)
qed

lemma busy_create_failed:
  assumes busy: "busy_ok s" and at: "task_at s i tk" "tk_work tk = Creating shown"
  shows "busy_ok (create_failed i tk e s)"
proof -
  have fin: "busy_ok (finish i s')" if "busy_ok s'" "task_at s' i tk" "\<not> live tk s' \<or> \<not> op_create_busy s'" for s'
    by (rule busy_finish [OF that(1,2)]) (use that(3) in \<open>auto simp: lists_def creates_def at(2)\<close>)
  have "busy_ok (s\<lparr>op_create_error := x, op_create_busy := False\<rparr>)" for x
    by (rule busy_less [OF busy]) simp_all
  moreover have "task_at (s\<lparr>op_create_error := x, op_create_busy := False\<rparr>) i tk" for x
    using at(1) by (simp add: task_at_def)
  ultimately show ?thesis using fin [OF busy at(1)] fin [OF busy_signOut [OF busy]] fin at(1)
    by (simp add: create_failed_def tasks_signOut)
qed

lemma busy_with_detail: "busy_ok s \<Longrightarrow> busy_ok (with_detail n f s)"
  by (erule busy_less) (simp_all add: with_detail_def split: option.splits if_splits)

lemma task_with_detail [simp]: "task_at (with_detail n f s) i tk = task_at s i tk"
  by (simp add: task_at_def with_detail_def split: option.splits)

definition acts_on_detail :: "work \<Rightarrow> bool" where
  "acts_on_detail w \<longleftrightarrow> list_ticket w = None \<and> w \<noteq> SignInProbe \<and> (\<forall>shown. w \<noteq> Creating shown)"

lemma busy_finish_detail:
  "busy_ok s \<Longrightarrow> task_at s i tk \<Longrightarrow> acts_on_detail (tk_work tk) \<Longrightarrow> busy_ok (finish i s)"
  by (erule (1) busy_finish) (auto simp: acts_on_detail_def lists_def creates_def)

lemma busy_hold_codes: "busy_ok s \<Longrightarrow> busy_ok (hold_codes sid f s)"
  by (erule busy_less) (simp_all add: hold_codes_def)

lemma busy_action_succeeded:
  assumes "busy_ok s" and "task_at s i tk" and "acts_on_detail (tk_work tk)"
  shows "busy_ok (action_succeeded i tk n (hold_codes sid g) f s)"
proof -
  have "task_at (hold_codes sid g s) i tk" using assms(2) by (simp add: hold_codes_def task_at_def)
  then show ?thesis using assms
    by (auto simp: action_succeeded_def intro!: busy_with_detail busy_finish_detail busy_hold_codes)
qed

lemma busy_action_failed:
  "busy_ok s \<Longrightarrow> task_at s i tk \<Longrightarrow> acts_on_detail (tk_work tk) \<Longrightarrow> busy_ok (action_failed i tk n e s)"
  by (auto simp: action_failed_def intro!: busy_with_detail busy_finish_detail)

lemma busy_start_action: "busy_ok s \<Longrightarrow> busy_ok (start_action w f req s)"
proof (cases "op_token s"; cases "op_detail s")
  fix token d
  assume busy: "busy_ok s" and some: "op_token s = Some token" "op_detail s = Some d"
  have "busy_ok (s\<lparr>op_detail := x\<rparr>)" for x by (rule busy_less [OF busy]) simp_all
  with some show ?thesis by (simp add: start_action_def busy_start)
qed (simp_all add: start_action_def)

lemma busy_continue:
  assumes busy: "busy_ok s" and core: "op_core s" and at: "task_at s i tk"
  shows "busy_ok (continue i tk (tk_work tk) ans now s)"
proof -
  have lists: "busy_ok (refresh_page i tk latest shown fresh pages c now s)" "busy_ok (older_page i tk latest page c now s)"
    "busy_ok (list_error i tk latest e s)" if "list_ticket (tk_work tk) = Some latest"
    for latest shown fresh pages c page e
    by (rule busy_refresh_page [OF core busy at that], rule busy_older_page [OF busy at that],
        rule busy_list_error [OF busy at that])
  have acts: "busy_ok (action_succeeded i tk n (hold_codes sid g) f s)" "busy_ok (action_failed i tk n e s)"
    "busy_ok (status_answer n effect res (finish i s))" if "acts_on_detail (tk_work tk)" for n sid g f e effect res
    using busy_action_succeeded [OF busy at that] busy_action_failed [OF busy at that]
      busy_finish_detail [OF busy at that] by (simp_all add: status_answer_def busy_with_detail)
  show ?thesis
    by (cases "tk_work tk")
       (simp_all add: continue_def busy lists acts acts_on_detail_def onUploadCode_def onJoinCodes_def onReviewCodes_def
         busy_signed_in [OF busy at] busy_sign_in_failed [OF busy at] busy_created [OF busy core at]
         busy_create_failed [OF busy at] split: op_answer.split)
qed

lemma busy_render: "busy_ok s \<Longrightarrow> busy_ok (render s)"
proof -
  assume busy: "busy_ok s"
  have "busy_ok (status_effect token d s')" if "busy_ok s'" for token d s'
  proof -
    have "busy_ok (s'\<lparr>op_detail := x\<rparr>)" for x by (rule busy_less [OF that]) simp_all
    then show ?thesis by (simp add: status_effect_def busy_start Let_def)
  qed
  moreover have "busy_ok (s\<lparr>op_instances := n\<rparr>)" "busy_ok (s\<lparr>op_detail := None\<rparr>)" for n
    by (rule busy_less [OF busy]; simp)+
  ultimately show ?thesis using busy by (auto simp: render_def split: option.split)
qed

lemma busy_event: "op_core s \<Longrightarrow> busy_ok s \<Longrightarrow> busy_ok (page_event e s)"
proof (cases e)
  case (Answer i ans now)
  assume "op_core s" "busy_ok s"
  then show ?thesis using Answer busy_continue [of s i] by (auto simp: task_at_def split: option.split)
next
  case LoadOlder
  assume "busy_ok s"
  from busy_new_list [OF this] this show ?thesis
    by (auto simp: LoadOlder loadOlder_def advance_def ticket_def split: option.split list.split)
qed (auto simp: busy_signIn busy_signOut refresh_def busy_start_refresh busy_createSession issueUploadCode_def
  reissueJoinCodes_def regenerateReviewCodes_def busy_start_action in_detail_def forget_codes_def
  intro: busy_less split: option.split)

interpretation op_page: event_handler op_step "\<lambda>s. op_core s \<and> busy_ok s"
  by unfold_locales (simp add: op_step_def core_render core_event busy_render busy_event)

lemma op_run_keeps: "op_core (op_run evs initial_op)" "busy_ok (op_run evs initial_op)"
proof -
  have "busy_ok initial_op" by (simp add: busy_ok_def initial_op_def)
  with core_initial have "op_core (op_run evs initial_op) \<and> busy_ok (op_run evs initial_op)"
    unfolding op_run_def by (intro op_page.run_keeps conjI)
  then show "op_core (op_run evs initial_op)" "busy_ok (op_run evs initial_op)" by blast+
qed

section \<open>Properties\<close>

lemma render_frame [op_frame]:
  "op_token (render s) = op_token s"
  by (simp add: render_def status_effect_def start_task_def split: option.split)

lemma no_detail_signed_out: "op_token (op_run evs initial_op) = None \<Longrightarrow> op_detail (op_run evs initial_op) = None"
proof (cases evs rule: rev_cases)
  case Nil
  then show ?thesis by (simp add: op_run_def initial_op_def)
next
  case (snoc es e)
  assume none: "op_token (op_run evs initial_op) = None"
  have "op_run evs initial_op = render (page_event e (op_run es initial_op))"
    by (simp add: snoc op_run_def op_step_def)
  moreover have "op_detail (render s) = None" if "op_token (render s) = None" for s
    using that by (cases "op_token s") (simp_all add: render_frame, simp add: render_def)
  ultimately show ?thesis using none by simp
qed

text \<open>
  C14: nothing survives a sign-out. In every run of the page, whatever is clicked and whichever
  answers come late: while no token is held, no row, no read, no case, no selection and none of the
  codes that the server shows only once is left; every request but the sign-in's own carries the
  token that the page holds when it goes out; and the rows on the page are exactly those with a
  read to compare.
\<close>

theorem nothing_survives_a_sign_out:
  "let s = op_run evs initial_op in
     (if op_token s = None then emptied s \<and> op_detail s = None else True) \<and>
     list_all (\<lambda>(token, held, req). req = ProbeSessions \<or> held = Some token) (op_sent s) \<and>
     fst ` set (op_reads s) = row_id ` set (op_rows s)"
  using op_run_keeps(1) [of evs] no_detail_signed_out [of evs]
  by (auto simp: Let_def op_core_def sent_ok_def list_all_iff)

text \<open>
  No spinner outlives its request. In every run, while the list shows as busy there is a request
  for the list under way whose tickets are valid, so that its answer will turn the flag off; while
  the creation of a session shows as busy, the creation or its refresh is under way with a valid
  ticket; while the gate shows as busy a sign-in is under way; and signed out neither of the first
  two is busy.
\<close>

theorem no_spinner_outlives_its_request:
  "let s = op_run evs initial_op in
     \<not> (op_list_busy s \<and> \<not> waits s (lists s)) \<and>
     \<not> (op_create_busy s \<and> \<not> waits s (creates s)) \<and>
     \<not> (op_gate_busy s \<and> \<not> waits s (\<lambda>tk. tk_work tk = SignInProbe)) \<and>
     \<not> (op_token s = None \<and> (op_list_busy s \<or> op_create_busy s))"
  using op_run_keeps(2) [of evs] by (auto simp: busy_ok_def Let_def)

text \<open>
  Paging equals listing. Showing the pages of a list one after the other, each without repeats
  of its own, gives the rows of the whole list with only the first of each session kept, in order,
  however the pages overlap.
\<close>

theorem pages_append_to_the_list:
  assumes "list_all (\<lambda>page. distinct (map row_id page)) pages"
  shows "map row_id (foldl appendPage [] pages) = rev (remdups (rev (map row_id (concat pages))))"
proof -
  have filt: "filter (\<lambda>x. x \<notin> set xs) ys = rev (filter (\<lambda>x. x \<notin> set xs) (rev ys))" for xs ys :: "string list"
    by (simp add: rev_filter)
  have app: "rev (remdups (rev (xs @ ys))) = rev (remdups (rev xs)) @ filter (\<lambda>x. x \<notin> set xs) ys"
    if "distinct ys" for xs ys :: "string list"
    using that
  proof (induction ys rule: rev_induct)
    case (snoc y ys)
    then show ?case by simp
  qed simp
  show ?thesis using assms
  proof (induction pages rule: rev_induct)
    case (snoc page pages)
    then have ids: "map row_id (foldl appendPage [] pages) = rev (remdups (rev (map row_id (concat pages))))"
      and page: "distinct (map row_id page)" by simp_all
    have "set (map row_id (foldl appendPage [] pages)) = set (map row_id (concat pages))" by (simp only: ids) simp
    then have "map row_id (appendPage (foldl appendPage [] pages) page)
        = map row_id (foldl appendPage [] pages) @ filter (\<lambda>x. x \<notin> set (map row_id (concat pages))) (map row_id page)"
      by (simp add: appendPage_def filter_map comp_def)
    then show ?case using app [OF page, of "map row_id (concat pages)"] ids by simp
  qed simp
qed

definition page_row :: "string \<Rightarrow> op_row" where
  "page_row i = \<lparr>row_id = i, row_stored = 0\<rparr>"

theorem pages_append_to_the_list_witness:
  "map row_id (foldl appendPage [] [[page_row ''c'', page_row ''b''], [page_row ''b'', page_row ''a'']]) = [''c'', ''b'', ''a'']"
proof -
  have "list_all (\<lambda>page. distinct (map row_id page)) [[page_row ''c'', page_row ''b''], [page_row ''b'', page_row ''a'']]"
    by code_simp
  from pages_append_to_the_list [OF this] show ?thesis by (simp add: page_row_def)
qed




lemma tasks_kept [simp]:
  "op_tasks (list_done i tk latest s) = (op_tasks s)[i := None]"
  "op_tasks (listFailed e s) = op_tasks s" "op_tasks (with_detail n f s) = op_tasks s"
  "op_tasks (hold_codes sid g s) = op_tasks s" "op_tasks (finish i s) = (op_tasks s)[i := None]"
  by (auto simp: list_done_def finish_def listFailed_def with_detail_def hold_codes_def Let_def split: option.splits)










end
