(* ===== verification/StudentEntry.thy ===== *)
theory StudentEntry
  imports RecordingState SessionAuth
begin

text \<open>
  How a student's tab gets in: \<open>apps/student/src/api.ts\<close> (what a request makes of the server's
  answer, and the login functions that keep the token), \<open>restoreSession.ts\<close> and
  \<open>uploadRecovery.ts\<close>. A request gets an answer: the server was not reached (or the request timed
  out), or it answered with a status and a body. \<open>num\<close> is the text that \<open>String\<close> gives for a number.
\<close>

section \<open>Requests\<close>

text \<open>A body that does not parse is null.\<close>

datatype http_answer = Unreachable string | Http int json

definition REQUEST_TIMEOUT_MS :: int where
  "REQUEST_TIMEOUT_MS = 20000"

definition http_text :: "int \<Rightarrow> string" where
  "http_text code = ''HTTP '' @ string_of_int code"

definition errorDetail :: "json \<Rightarrow> int \<Rightarrow> string \<times> string option" where
  "errorDetail body code =
     (if \<not> isRecord body then (http_text code, None)
      else case field body ''detail'' of
        Some (JStr detail) \<Rightarrow> (detail, Some detail)
      | Some (JObj fs) \<Rightarrow>
          (let reason = string_field (JObj fs) ''error'' in
           (nullish (or_else (string_field (JObj fs) ''message'') reason) (http_text code), reason))
      | _ \<Rightarrow> (http_text code, None))"

definition request_result :: "http_answer \<Rightarrow> cause + json" where
  "request_result ans =
     (case ans of
        Unreachable e \<Rightarrow> Inl (ApiError 0 None (''Session Server is unreachable: '' @ e))
      | Http code body \<Rightarrow>
          if 200 \<le> code \<and> code < 300 then Inr body
          else let (message, reason) = errorDetail body code in Inl (ApiError code reason message))"

text \<open>The bearer token of a request: none for an upload login, and an explicit header wins.\<close>

definition request_token :: "bool \<Rightarrow> bool \<Rightarrow> 'a auth_scheme \<Rightarrow> string option \<times> 'a auth_scheme" where
  "request_token authorized has_header a =
     (if \<not> authorized then (None, a)
      else let (token, a1) = currentAccessToken a
        in (if truthy token \<and> \<not> has_header then token else None, a1))"

section \<open>What the answers are read as\<close>

fun js_string :: "(rat \<Rightarrow> string) \<Rightarrow> json \<Rightarrow> string" where
  "js_string num JNull = ''null''"
| "js_string num (JBool b) = (if b then ''true'' else ''false'')"
| "js_string num (JNum n) = num n"
| "js_string num (JInfinite positive) = (if positive then ''Infinity'' else ''-Infinity'')"
| "js_string num (JStr s) = s"
| "js_string num (JArr xs) =
     (case map (\<lambda>x. if x = JNull then [] else js_string num x) xs of
        [] \<Rightarrow> []
      | t # ts \<Rightarrow> t @ concat (map (\<lambda>u. '','' @ u) ts))"
| "js_string num (JObj fs) = ''[object Object]''"

text \<open>\<open>String(body.key ?? fallback)\<close>.\<close>

definition text_or :: "(rat \<Rightarrow> string) \<Rightarrow> json \<Rightarrow> string \<Rightarrow> string \<Rightarrow> string" where
  "text_or num body k fallback =
     (case field body k of None \<Rightarrow> fallback | Some JNull \<Rightarrow> fallback | Some v \<Rightarrow> js_string num v)"

text \<open>\<open>typeof value === "number"\<close>; such a value may be infinite.\<close>

fun js_number :: "json option \<Rightarrow> json option" where
  "js_number (Some (JNum n)) = Some (JNum n)"
| "js_number (Some (JInfinite b)) = Some (JInfinite b)"
| "js_number v = None"

record join_result =
  jr_session_id :: string
  jr_role :: string
  jr_access_token :: string
  jr_expires_at :: json

definition joinSession ::
  "(rat \<Rightarrow> string) \<Rightarrow> string \<Rightarrow> http_answer \<Rightarrow> 'a auth_scheme \<Rightarrow> (cause + join_result) \<times> 'a auth_scheme" where
  "joinSession num sessionId ans a =
     (case request_result ans of
        Inl e \<Rightarrow> (Inl e, a)
      | Inr body \<Rightarrow>
          if \<not> isRecord body \<or> \<not> truthy (string_field body ''access_token'') then
            (Inl (ApiError 500 None ''Join response did not include an access token.''), a)
          else
            let token = the (string_field body ''access_token'');
                resolved = text_or num body ''session_id'' sessionId
            in (Inr \<lparr>jr_session_id = resolved, jr_role = nullish (string_field body ''role'') ''unknown'',
                  jr_access_token = token, jr_expires_at = nullish (js_number (field body ''expires_at'')) (JNum 0)\<rparr>,
                rememberAccessToken resolved token a))"

record upload_login_result =
  ul_access_token :: string
  ul_token_type :: string
  ul_role :: string
  ul_expires_at :: json

definition uploadLogin :: "string \<Rightarrow> http_answer \<Rightarrow> 'a auth_scheme \<Rightarrow> (cause + upload_login_result) \<times> 'a auth_scheme" where
  "uploadLogin sessionId ans a =
     (case request_result ans of
        Inl e \<Rightarrow> (Inl e, a)
      | Inr body \<Rightarrow>
          if \<not> isRecord body \<or> \<not> truthy (string_field body ''access_token'') \<or>
             string_field body ''token_type'' \<noteq> Some ''upload'' \<or> string_field body ''role'' \<noteq> Some ''student'' then
            (Inl (ApiError 500 None ''Upload login did not return an upload token.''), a)
          else
            let token = the (string_field body ''access_token'')
            in (Inr \<lparr>ul_access_token = token, ul_token_type = ''upload'', ul_role = ''student'',
                  ul_expires_at = nullish (js_number (field body ''expires_at'')) (JNum 0)\<rparr>,
                rememberAccessToken sessionId token a))"

record session_info =
  in_session_id :: string
  in_case_id :: string
  in_status :: string

definition fetchSession :: "(rat \<Rightarrow> string) \<Rightarrow> string \<Rightarrow> http_answer \<Rightarrow> cause + session_info" where
  "fetchSession num sessionId ans =
     (case request_result ans of
        Inl e \<Rightarrow> Inl e
      | Inr body \<Rightarrow>
          if \<not> isRecord body then Inl (ApiError 500 None ''Session response has an unexpected shape.'')
          else Inr \<lparr>in_session_id = text_or num body ''session_id'' sessionId,
                 in_case_id = text_or num body ''case_id'' [], in_status = text_or num body ''status'' ''unknown''\<rparr>)"

record clip_entry =
  ce_clip_id :: string
  ce_category :: string
  ce_intent :: string
  ce_character_state :: string
  ce_text :: string
  ce_reveals :: "string list"
  ce_requires :: "string list"
  ce_forbidden_after :: "string list"
  ce_duration_ms :: rat
  ce_file :: string
  ce_hotkey :: "string option"

definition texts_of :: "(rat \<Rightarrow> string) \<Rightarrow> json option \<Rightarrow> string list" where
  "texts_of num v = (case v of Some (JArr xs) \<Rightarrow> map (js_string num) xs | _ \<Rightarrow> [])"

definition clip_of :: "(rat \<Rightarrow> string) \<Rightarrow> json \<Rightarrow> clip_entry list" where
  "clip_of num item =
     (if \<not> isRecord item \<or> string_field item ''clip_id'' = None \<or> string_field item ''file'' = None then []
      else [\<lparr>ce_clip_id = the (string_field item ''clip_id''), ce_category = text_or num item ''category'' [],
        ce_intent = text_or num item ''intent'' [], ce_character_state = text_or num item ''character_state'' ''neutral'',
        ce_text = text_or num item ''text'' [], ce_reveals = texts_of num (field item ''reveals''),
        ce_requires = texts_of num (field item ''requires''),
        ce_forbidden_after = texts_of num (field item ''forbidden_after''),
        ce_duration_ms = (case field item ''duration_ms'' of Some (JNum n) \<Rightarrow> n | _ \<Rightarrow> 0),
        ce_file = the (string_field item ''file''), ce_hotkey = string_field item ''hotkey''\<rparr>])"

definition fetchClipManifest :: "(rat \<Rightarrow> string) \<Rightarrow> http_answer \<Rightarrow> cause + clip_entry list" where
  "fetchClipManifest num ans =
     (case request_result ans of
        Inl e \<Rightarrow> Inl e
      | Inr body \<Rightarrow> Inr (case field body ''clips'' of Some (JArr items) \<Rightarrow> concat (map (clip_of num) items) | _ \<Rightarrow> []))"

definition uploadAck :: "json \<Rightarrow> string" where
  "uploadAck body = nullish (string_field body ''status'') ''received''"

text \<open>The two reads of the server's upload state; any text but the three known ones is none.\<close>

definition finalize_state_of :: "json \<Rightarrow> server_finalize_state" where
  "finalize_state_of body =
     (if string_field body ''finalize_state'' = Some ''pending'' then FsPending
      else if string_field body ''finalize_state'' = Some ''complete'' then FsComplete
      else if string_field body ''finalize_state'' = Some ''incomplete'' then FsIncomplete
      else FsNone)"

definition asNumberList :: "json option \<Rightarrow> rat list" where
  "asNumberList v = (case v of
     Some (JArr xs) \<Rightarrow> concat (map (\<lambda>x. case x of JNum n \<Rightarrow> [n] | _ \<Rightarrow> []) xs)
   | _ \<Rightarrow> [])"

record upload_status =
  us_received_sequences :: "rat list"
  us_next_expected_sequence :: "json option"
  us_final_sequence :: "json option"
  us_finalize_state :: server_finalize_state
  us_recording_state :: string
  us_take_claimed :: bool

definition upload_status_of :: "http_answer \<Rightarrow> cause + upload_status" where
  "upload_status_of ans =
     (case request_result ans of
        Inl e \<Rightarrow> Inl e
      | Inr body \<Rightarrow>
          if \<not> isRecord body then Inl (ApiError 500 None ''Upload status response has an unexpected shape.'')
          else Inr \<lparr>us_received_sequences = asNumberList (field body ''received_sequences''),
            us_next_expected_sequence = js_number (field body ''next_expected_sequence''),
            us_final_sequence = js_number (field body ''final_sequence''),
            us_finalize_state = finalize_state_of body,
            us_recording_state = nullish (string_field body ''recording_state'') ''recording'',
            us_take_claimed = (field body ''take_claimed'' = Some (JBool True))\<rparr>)"

definition claim_answer :: "string \<Rightarrow> http_answer \<Rightarrow> cause + string" where
  "claim_answer takeId ans =
     (case request_result ans of Inl e \<Rightarrow> Inl e | Inr body \<Rightarrow> Inr (nullish (string_field body ''take_id'') takeId))"

record finalize_body =
  fb_recording_state :: string
  fb_finalize_state :: server_finalize_state
  fb_final_sequence :: "json option"
  fb_missing_sequences :: "rat list"

definition finalize_answer :: "http_answer \<Rightarrow> cause + finalize_body" where
  "finalize_answer ans =
     (case request_result ans of
        Inl e \<Rightarrow> Inl e
      | Inr body \<Rightarrow>
          if \<not> isRecord body then Inl (ApiError 500 None ''Finalize response has an unexpected shape.'')
          else Inr \<lparr>fb_recording_state = nullish (string_field body ''recording_state'') [],
            fb_finalize_state = finalize_state_of body, fb_final_sequence = js_number (field body ''final_sequence''),
            fb_missing_sequences = asNumberList (field body ''missing_sequences'')\<rparr>)"

section \<open>Restoring after a reload\<close>

datatype restored =
    Live string string "clip_entry list" string
  | UploadOnly string string
  | RestoreRejected
  | RestoreUnavailable

fun refused :: "cause \<Rightarrow> bool" where
  "refused (ApiError code reason msg) \<longleftrightarrow> code = 401 \<or> code = 403 \<or> code = 404"
| "refused (OtherError name msg) = False"

text \<open>
  The three probes are asked in turn; the clips are those of the case of the session. Each of the
  answers that is not asked for does not matter.
\<close>

definition restoreStudentSession ::
  "joined_session \<Rightarrow> cause + session_info \<Rightarrow> cause + clip_entry list \<Rightarrow> cause + upload_status \<Rightarrow>
   'a auth_scheme \<Rightarrow> restored \<times> 'a auth_scheme" where
  "restoreStudentSession stored session clips upload a =
     (let live = (case session of
            Inl e \<Rightarrow> Inl e
          | Inr i \<Rightarrow> (case clips of
                Inl e \<Rightarrow> Inl e
              | Inr cs \<Rightarrow> Inr (Live (in_session_id i) (in_case_id i) cs (j_accessToken stored))))
      in case live of
        Inr r \<Rightarrow> (r, a)
      | Inl e \<Rightarrow>
          if \<not> refused e then (RestoreUnavailable, a)
          else (case upload of
            Inr st \<Rightarrow> (UploadOnly (j_sessionId stored) (j_accessToken stored), a)
          | Inl e' \<Rightarrow>
              if refused e' then (RestoreRejected, clearJoinedSession (Some (j_sessionId stored)) a)
              else (RestoreUnavailable, a)))"

section \<open>Asking for an upload code\<close>

definition metaNeedsUploadCode :: "tx \<Rightarrow> recording_db \<Rightarrow> recording_meta \<Rightarrow> string + bool" where
  "metaNeedsUploadCode t database m =
     (case listChunks t database (session_id m) of
        Inl e \<Rightarrow> Inl e
      | Inr cs \<Rightarrow> Inr (showUploadCodeEntry (Some m) (uploadWorkChunkCount cs)))"

text \<open>One read of the rows, then one read of the slices per row; a read that aborts rejects the whole.\<close>

fun needing_code :: "recording_db \<Rightarrow> (recording_meta \<times> tx) list \<Rightarrow> string + string list" where
  "needing_code database [] = Inr []"
| "needing_code database ((m, t) # rest) =
     (case metaNeedsUploadCode t database m of
        Inl e \<Rightarrow> Inl e
      | Inr needs \<Rightarrow>
          (case needing_code database rest of
             Inl e \<Rightarrow> Inl e
           | Inr found \<Rightarrow> Inr (if needs then session_id m # found else found)))"

definition findUnfinishedUploadSessions :: "tx \<Rightarrow> (string \<Rightarrow> tx) \<Rightarrow> recording_db \<Rightarrow> string + string list" where
  "findUnfinishedUploadSessions t reads database =
     (case listMeta t database of
        Inl e \<Rightarrow> Inl e
      | Inr ms \<Rightarrow> needing_code database (map (\<lambda>m. (m, reads (session_id m))) ms))"

section \<open>Properties\<close>

lemma needing_code_finds:
  assumes "list_all (\<lambda>(m, t). t = Commit) rows"
  shows "needing_code database rows = Inr (map (session_id \<circ> fst) (filter
     (\<lambda>(m, t). metaNeedsUploadCode Commit database m = Inr True) rows))"
  using assms
proof (induction rows)
  case (Cons row rows)
  obtain m t where row: "row = (m, t)" by fastforce
  with Cons have t: "t = Commit" and ih: "needing_code database rows = Inr (map (session_id \<circ> fst) (filter
     (\<lambda>(m, t). metaNeedsUploadCode Commit database m = Inr True) rows))" by simp_all
  obtain b where b: "metaNeedsUploadCode Commit database m = Inr b"
    by (simp add: metaNeedsUploadCode_def listChunks_def)
  show ?case by (cases b) (simp_all add: row t b ih)
qed simp

text \<open>The answers that the server gives for a token that it no longer accepts.\<close>

fun http_refused :: "http_answer \<Rightarrow> bool" where
  "http_refused (Http code body) \<longleftrightarrow> code = 401 \<or> code = 403 \<or> code = 404"
| "http_refused (Unreachable e) = False"

lemma refused_request: "request_result ans = Inl e \<Longrightarrow> refused e = http_refused ans"
  by (cases ans) (auto simp: request_result_def split: if_splits prod.splits)

lemma refused_request_rejects: "http_refused ans \<Longrightarrow> \<exists>e. request_result ans = Inl e"
  by (cases ans) (auto simp: request_result_def split: prod.splits)

lemma refused_answers:
  "fetchSession num sid ans = Inl e \<Longrightarrow> refused e = http_refused ans"
  "fetchClipManifest num ans = Inl e \<Longrightarrow> refused e = http_refused ans"
  "upload_status_of ans = Inl e \<Longrightarrow> refused e = http_refused ans"
  using refused_request_rejects [of ans]
  by (auto simp: fetchSession_def fetchClipManifest_def upload_status_of_def refused_request split: sum.splits if_splits)

lemma answers_not_refused:
  "fetchSession num sid ans = Inr i \<Longrightarrow> \<not> http_refused ans"
  "fetchClipManifest num ans = Inr cs \<Longrightarrow> \<not> http_refused ans"
  "upload_status_of ans = Inr st \<Longrightarrow> \<not> http_refused ans"
  using refused_request_rejects [of ans]
  by (auto simp: fetchSession_def fetchClipManifest_def upload_status_of_def split: sum.splits)

lemma truthy_nonempty: "truthy v \<Longrightarrow> the v \<noteq> []"
  by (cases v) auto

lemma joined_nonempty:
  assumes "readJoinedSession a0 = (Some j, a)"
  shows "j_sessionId j \<noteq> []" "j_accessToken j \<noteq> []" "a = rememberAccessToken (j_sessionId j) (j_accessToken j) a0"
    "\<exists>v. readStorageJson JOINED_SESSION_KEY (au_storage a0) = Some v \<and> parse_joined v = Some j"
proof -
  obtain v where v: "readStorageJson JOINED_SESSION_KEY (au_storage a0) = Some v" "parse_joined v = Some j"
    and a: "a = rememberAccessToken (j_sessionId j) (j_accessToken j) a0"
    using assms by (auto simp: readJoinedSession_def split: option.splits)
  then show "a = rememberAccessToken (j_sessionId j) (j_accessToken j) a0"
    "\<exists>v. readStorageJson JOINED_SESSION_KEY (au_storage a0) = Some v \<and> parse_joined v = Some j" by blast+
  show "j_sessionId j \<noteq> []" "j_accessToken j \<noteq> []"
    using v(2) truthy_nonempty by (auto simp: parse_joined_def simp del: string_field.simps split: if_splits)
qed

lemma remembered_reads:
  assumes "i \<noteq> []" and "t \<noteq> []"
  shows "fst (currentAccessToken (rememberAccessToken i t a)) = Some t"
    and "readStorageJson k (au_storage (rememberAccessToken i t a)) = readStorageJson k (au_storage a)"
  using assms
  by (simp_all add: currentAccessToken_def readActiveSessionId_def readAccessToken_def rememberAccessToken_def
      rememberActiveSessionId_def in_storage_def writeStorage_def readStorageJson_def Let_def)

lemma cleared_reads:
  assumes "i \<noteq> []"
  shows "readStorageJson JOINED_SESSION_KEY (au_storage (clearJoinedSession (Some i) a)) = None"
    and "fst (readAccessToken i (clearJoinedSession (Some i) a)) = None"
  using assms
  by (simp_all add: clearJoinedSession_def readAccessToken_def storage_simps Let_def)

text \<open>
  C30: a restore drops a saved login only when the server refused it. Whatever the server answers,
  the login is dropped exactly when the upload status is refused with 401, 403 or 404 and so was
  the session or, after it, the clips; then nothing of it is left, also after a reload. In every
  other case (the network, a timeout, a 5xx, a body that is no session) the login is still there
  after the restore and after another reload, and its token is the one that the requests carry.
\<close>

theorem restore_drops_only_refused_logins:
  assumes "readJoinedSession a0 = (Some j, a)"
  shows "let session = fetchSession num (j_sessionId j) sa; (r, a') = restoreStudentSession j session
             (fetchClipManifest num ca) (upload_status_of ua) (a :: auth) in
     (r = RestoreRejected) =
       (http_refused ua \<and> (http_refused sa \<or> (\<exists>i. session = Inr i) \<and> http_refused ca)) \<and>
     (if r = RestoreRejected
      then fst (readJoinedSession (reload a')) = None \<and> fst (readAccessToken (j_sessionId j) a') = None
      else fst (readJoinedSession (reload a')) = Some j \<and> fst (currentAccessToken a') = Some (j_accessToken j))"
proof -
  note j = joined_nonempty [OF assms]
  let ?r = "restoreStudentSession j (fetchSession num (j_sessionId j) sa) (fetchClipManifest num ca)
    (upload_status_of ua) a"
  have rejected: "(fst ?r = RestoreRejected) = (http_refused ua \<and>
      (http_refused sa \<or> (\<exists>i. fetchSession num (j_sessionId j) sa = Inr i) \<and> http_refused ca))"
    by (auto simp: restoreStudentSession_def Let_def refused_answers dest: answers_not_refused split: sum.split)
  have state: "snd ?r = (if fst ?r = RestoreRejected then clearJoinedSession (Some (j_sessionId j)) a else a)"
    by (auto simp: restoreStudentSession_def Let_def split: sum.split)
  have kept: "fst (readJoinedSession (reload a)) = Some j" "fst (currentAccessToken a) = Some (j_accessToken j)"
    using j by (auto simp: readJoinedSession_def reload_def remembered_reads)
  have gone: "fst (readJoinedSession (reload (clearJoinedSession (Some (j_sessionId j)) a))) = None"
    "fst (readAccessToken (j_sessionId j) (clearJoinedSession (Some (j_sessionId j)) a)) = None"
    using cleared_reads [OF j(1), of a] by (simp_all add: readJoinedSession_def reload_def)
  show ?thesis using rejected state kept gone by (simp add: Let_def split_beta)
qed

definition saved_login :: auth where
  "saved_login = reload (rememberJoinedSession \<lparr>j_sessionId = ''S1'', j_role = ''student'', j_accessToken = ''t1''\<rparr> new_auth)"

theorem restore_drops_only_refused_logins_witness:
  "\<exists>j a. readJoinedSession saved_login = (Some j, a) \<and>
     (let (r, a') = restoreStudentSession j (fetchSession (\<lambda>_. []) (j_sessionId j) (Http 401 JNull))
        (fetchClipManifest (\<lambda>_. []) (Http 200 JNull)) (upload_status_of (Http 503 JNull)) a in
      r \<noteq> RestoreRejected \<and> fst (currentAccessToken a') = Some ''t1'')"
proof -
  define j where "j = \<lparr>j_sessionId = ''S1'', j_role = ''student'', j_accessToken = ''t1''\<rparr>"
  have "fst (readJoinedSession saved_login) = Some j" unfolding j_def by code_simp
  then obtain a where a: "readJoinedSession saved_login = (Some j, a)" by (metis prod.collapse)
  have "\<not> http_refused (Http 503 JNull)" by simp
  with restore_drops_only_refused_logins [OF a, of "\<lambda>_. []" "Http 401 JNull" "Http 200 JNull" "Http 503 JNull"]
  have "let (r, a') = restoreStudentSession j (fetchSession (\<lambda>_. []) (j_sessionId j) (Http 401 JNull))
        (fetchClipManifest (\<lambda>_. []) (Http 200 JNull)) (upload_status_of (Http 503 JNull)) a in
      r \<noteq> RestoreRejected \<and> fst (currentAccessToken a') = Some ''t1''"
    by (simp add: Let_def split_beta j_def)
  with a show ?thesis by blast
qed

end
