(* ===== verification/DecisionTree.thy ===== *)
theory DecisionTree
  imports StudentEntry
begin

text \<open>
  What the wizard's console makes of the server's answers (\<open>apps/wizard/src/api.ts\<close>), and the keys
  and the decision tree of \<open>types.ts\<close>: a tree of categories, options and tones whose leaves are the
  clips that the author of a case approved. Names that the student's requests have too end in
  \<open>W\<close>; texts shown to the user are constructors.
\<close>

section \<open>The three tiers\<close>

datatype category_key = F1 | F2 | F3 | F4 | F5 | F6 | F7 | F8
datatype option_key = Option1 | Option2 | Option3 | Option4 | Option5 | Option6
datatype tone_key = ToneN | ToneT | ToneD | ToneI | ToneR

definition CATEGORY_KEYS :: "category_key list" where
  "CATEGORY_KEYS = [F1, F2, F3, F4, F5, F6, F7, F8]"

definition OPTION_KEYS :: "option_key list" where
  "OPTION_KEYS = [Option1, Option2, Option3, Option4, Option5, Option6]"

definition TONE_KEYS :: "tone_key list" where
  "TONE_KEYS = [ToneN, ToneT, ToneD, ToneI, ToneR]"

fun category_name :: "category_key \<Rightarrow> string" where
  "category_name F1 = ''F1''" | "category_name F2 = ''F2''" | "category_name F3 = ''F3''"
| "category_name F4 = ''F4''" | "category_name F5 = ''F5''" | "category_name F6 = ''F6''"
| "category_name F7 = ''F7''" | "category_name F8 = ''F8''"

fun option_name :: "option_key \<Rightarrow> string" where
  "option_name Option1 = ''1''" | "option_name Option2 = ''2''" | "option_name Option3 = ''3''"
| "option_name Option4 = ''4''" | "option_name Option5 = ''5''" | "option_name Option6 = ''6''"

fun tone_name :: "tone_key \<Rightarrow> string" where
  "tone_name ToneN = ''N''" | "tone_name ToneT = ''T''" | "tone_name ToneD = ''D''"
| "tone_name ToneI = ''I''" | "tone_name ToneR = ''R''"

text \<open>The key that a text names, if it names one.\<close>

definition category_of :: "string \<Rightarrow> category_key option" where
  "category_of key = List.find (\<lambda>k. category_name k = key) CATEGORY_KEYS"

definition option_of :: "string \<Rightarrow> option_key option" where
  "option_of key = List.find (\<lambda>k. option_name k = key) OPTION_KEYS"

definition tone_of :: "string \<Rightarrow> tone_key option" where
  "tone_of key = List.find (\<lambda>k. tone_name k = key) TONE_KEYS"

section \<open>The decision tree\<close>

datatype tree_label = GivenLabel string | OptionLabel option_key | DefaultLabel category_key

text \<open>A tone that is absent is \<open>None\<close>; one that is reserved without a clip is \<open>Some None\<close>.\<close>

record decision_option =
  do_label :: tree_label
  do_clips :: "tone_key \<Rightarrow> string option option"

record decision_category =
  dc_label :: tree_label
  dc_options :: "option_key \<Rightarrow> decision_option option"

type_synonym decision_tree = "category_key \<Rightarrow> decision_category option"

record staged_selection =
  sel_category :: "category_key option"
  sel_option :: "option_key option"
  sel_tone :: "tone_key option"

definition EMPTY_SELECTION :: staged_selection where
  "EMPTY_SELECTION = \<lparr>sel_category = None, sel_option = None, sel_tone = None\<rparr>"

definition given_label :: "json \<Rightarrow> tree_label \<Rightarrow> tree_label" where
  "given_label node fallback = (case string_field node ''label'' of Some t \<Rightarrow> GivenLabel t | None \<Rightarrow> fallback)"

definition parseClips :: "json option \<Rightarrow> tone_key \<Rightarrow> string option option" where
  "parseClips raw = (\<lambda>toneKey.
     case raw of
       Some (JObj fs) \<Rightarrow>
         (case map_of fs (tone_name toneKey) of
            None \<Rightarrow> None
          | Some (JStr v) \<Rightarrow> Some (if v \<noteq> [] then Some v else None)
          | Some _ \<Rightarrow> Some None)
     | _ \<Rightarrow> None)"

definition record_of :: "json option \<Rightarrow> json option" where
  "record_of v = (case v of Some j \<Rightarrow> if isRecord j then Some j else None | None \<Rightarrow> None)"

definition parse_option :: "option_key \<Rightarrow> json \<Rightarrow> decision_option" where
  "parse_option optionKey opt =
     \<lparr>do_label = given_label opt (OptionLabel optionKey), do_clips = parseClips (field opt ''clips'')\<rparr>"

definition parseCategory :: "category_key \<Rightarrow> json \<Rightarrow> decision_category" where
  "parseCategory key node =
     (let rawOptions = nullish (record_of (field node ''options'')) (JObj [])
      in \<lparr>dc_label = given_label node (DefaultLabel key),
          dc_options = (\<lambda>optionKey.
            map_option (parse_option optionKey) (record_of (field rawOptions (option_name optionKey))))\<rparr>)"

definition parseDecisionTree :: "json option \<Rightarrow> decision_tree" where
  "parseDecisionTree raw =
     (case record_of raw of
        None \<Rightarrow> (\<lambda>categoryKey. None)
      | Some r \<Rightarrow>
          (case record_of (field r ''tree'') of
             None \<Rightarrow> (\<lambda>categoryKey. None)
           | Some tree \<Rightarrow> (\<lambda>categoryKey.
               map_option (parseCategory categoryKey) (record_of (field tree (category_name categoryKey))))))"

section \<open>From a selection to a clip\<close>

definition option_node :: "decision_tree \<Rightarrow> category_key \<Rightarrow> option_key \<Rightarrow> decision_option option" where
  "option_node tree c k = Option.bind (tree c) (\<lambda>cat. dc_options cat k)"

definition clip_at :: "decision_option \<Rightarrow> tone_key \<Rightarrow> string option" where
  "clip_at node tone = nullish (do_clips node tone) None"

definition authored_clips :: "decision_option \<Rightarrow> string list" where
  "authored_clips node = concat (map (\<lambda>key. case clip_at node key of Some c \<Rightarrow> [c] | None \<Rightarrow> []) TONE_KEYS)"

definition resolveClipId ::
  "decision_tree \<Rightarrow> category_key option \<Rightarrow> option_key option \<Rightarrow> tone_key option \<Rightarrow> string option" where
  "resolveClipId tree category opt tone =
     (case (category, opt) of
        (Some c, Some k) \<Rightarrow>
          (case option_node tree c k of
             None \<Rightarrow> None
           | Some node \<Rightarrow>
               (case tone of
                  Some t \<Rightarrow> clip_at node t
                | None \<Rightarrow> (case authored_clips node of [clip] \<Rightarrow> Some clip | _ \<Rightarrow> None)))
      | _ \<Rightarrow> None)"

text \<open>The tone-T leaf of an option, if it is not empty.\<close>

definition thinking_clip :: "decision_tree \<Rightarrow> category_key \<Rightarrow> option_key \<Rightarrow> string list" where
  "thinking_clip tree c k =
     (case Option.bind (option_node tree c k) (\<lambda>node. clip_at node ToneT) of
        Some clip \<Rightarrow> if clip \<noteq> [] then [clip] else []
      | None \<Rightarrow> [])"

definition findThinkingClipId :: "decision_tree \<Rightarrow> string option" where
  "findThinkingClipId tree =
     (case concat (map (\<lambda>c. concat (map (thinking_clip tree c) OPTION_KEYS)) CATEGORY_KEYS) of
        [] \<Rightarrow> None
      | clip # rest \<Rightarrow> Some clip)"

section \<open>Requests\<close>

datatype api_text = DetailText string | HttpStatus int | CannotReach string | NoAccessToken | BadSession

datatype api_failure = ApiFailure int api_text | OtherError string

definition request_resultW :: "http_answer \<Rightarrow> api_failure + json" where
  "request_resultW ans =
     (case ans of
        Unreachable e \<Rightarrow> Inl (ApiFailure 0 (CannotReach e))
      | Http code body \<Rightarrow>
          if 200 \<le> code \<and> code < 300 then Inr body
          else Inl (ApiFailure code
            (case string_field body ''detail'' of Some d \<Rightarrow> DetailText d | None \<Rightarrow> HttpStatus code)))"

definition request_tokenW :: "bool \<Rightarrow> 'a auth_scheme \<Rightarrow> string option \<times> 'a auth_scheme" where
  "request_tokenW has_header a =
     (let (token, a1) = currentAccessToken a
      in (if truthy token \<and> \<not> has_header then token else None, a1))"

record join_resultW =
  jw_session_id :: string
  jw_role :: string
  jw_access_token :: string
  jw_expires_at :: json

definition joinSessionW ::
  "(rat \<Rightarrow> string) \<Rightarrow> string \<Rightarrow> http_answer \<Rightarrow> 'a auth_scheme \<Rightarrow> (api_failure + join_resultW) \<times> 'a auth_scheme" where
  "joinSessionW num sessionId ans a =
     (case request_resultW ans of
        Inl e \<Rightarrow> (Inl e, a)
      | Inr body \<Rightarrow>
          if \<not> isRecord body \<or> \<not> truthy (string_field body ''access_token'') then
            (Inl (ApiFailure 500 NoAccessToken), a)
          else
            let token = the (string_field body ''access_token'');
                resolved = text_or num body ''session_id'' sessionId
            in (Inr \<lparr>jw_session_id = resolved, jw_role = nullish (string_field body ''role'') ''unknown'',
                  jw_access_token = token, jw_expires_at = nullish (js_number (field body ''expires_at'')) (JNum 0)\<rparr>,
                rememberAccessToken resolved token a))"

record session_infoW =
  iw_session_id :: string
  iw_case_id :: string
  iw_status :: string

definition parseSessionInfo :: "(rat \<Rightarrow> string) \<Rightarrow> json \<Rightarrow> string \<Rightarrow> api_failure + session_infoW" where
  "parseSessionInfo num body sessionId =
     (if \<not> isRecord body then Inl (ApiFailure 500 BadSession)
      else Inr \<lparr>iw_session_id = text_or num body ''session_id'' sessionId,
        iw_case_id = text_or num body ''case_id'' [], iw_status = text_or num body ''status'' ''unknown''\<rparr>)"

definition fetchSessionW :: "(rat \<Rightarrow> string) \<Rightarrow> string \<Rightarrow> http_answer \<Rightarrow> api_failure + session_infoW" where
  "fetchSessionW num sessionId ans =
     (case request_resultW ans of Inl e \<Rightarrow> Inl e | Inr body \<Rightarrow> parseSessionInfo num body sessionId)"

definition endSession :: "(rat \<Rightarrow> string) \<Rightarrow> string \<Rightarrow> http_answer \<Rightarrow> api_failure + session_infoW" where
  "endSession num sessionId ans =
     (case request_resultW ans of Inl e \<Rightarrow> Inl e | Inr body \<Rightarrow> parseSessionInfo num body sessionId)"

datatype end_message = EndOther string | EndPlain api_text | EndUnauthorized | EndForbidden | EndNotFound
  | EndFailed api_text | EndNotMarked

fun endSessionErrorMessage :: "api_failure \<Rightarrow> end_message" where
  "endSessionErrorMessage (OtherError text) = EndOther text"
| "endSessionErrorMessage (ApiFailure code message) =
     (if code = 0 then EndPlain message
      else if code = 401 then EndUnauthorized
      else if code = 403 then EndForbidden
      else if code = 404 then EndNotFound
      else EndFailed message)"

definition fetchDecisionTree :: "http_answer \<Rightarrow> api_failure + decision_tree" where
  "fetchDecisionTree ans =
     (case request_resultW ans of
        Inl e \<Rightarrow> Inl e
      | Inr body \<Rightarrow>
          if \<not> isRecord body then Inr (\<lambda>categoryKey. None)
          else Inr (parseDecisionTree (field body ''wizard_decision_tree'')))"

section \<open>The tree is the document\<close>

text \<open>
  What the author wrote: the value at a path of the parsed document, and the clip at a leaf. The
  path goes through objects only.
\<close>

fun value_at :: "json option \<Rightarrow> string list \<Rightarrow> json option" where
  "value_at v [] = v"
| "value_at None (k # ks) = None"
| "value_at (Some j) (k # ks) = value_at (field j k) ks"

fun text_leaf :: "json option \<Rightarrow> string option" where
  "text_leaf (Some (JStr clip)) = (if clip \<noteq> [] then Some clip else None)"
| "text_leaf v = None"

definition authored :: "json option \<Rightarrow> category_key \<Rightarrow> option_key \<Rightarrow> tone_key \<Rightarrow> string option" where
  "authored raw c k t =
     text_leaf (value_at raw [''tree'', category_name c, ''options'', option_name k, ''clips'', tone_name t])"

definition case_tree :: "http_answer \<Rightarrow> json option" where
  "case_tree ans = (case request_resultW ans of Inr body \<Rightarrow> field body ''wizard_decision_tree'' | Inl e \<Rightarrow> None)"

lemma value_at_None [simp]: "value_at None ks = None"
  by (cases ks) simp_all

lemma record_of_None [simp]: "record_of None = None"
  by (simp add: record_of_def)

lemma is_record: "record_of v = Some j \<Longrightarrow> v = Some j"
  by (simp add: record_of_def split: option.splits if_splits)

lemma no_record: "record_of v = None \<Longrightarrow> value_at v (k # ks) = None"
  by (cases v; cases "the v") (simp_all add: record_of_def)

lemma field_record_of:
  "value_at (field (nullish (record_of v) (JObj [])) k) ks = value_at v (k # ks)"
  by (cases v; cases "the v") (simp_all add: record_of_def)

lemma parsed_clip: "nullish (parseClips v t) None = text_leaf (value_at v [tone_name t])"
  by (cases v; cases "the v") (auto simp: parseClips_def split: option.splits json.splits)

lemma parsed_option:
  "Option.bind (map_option (parse_option k) (record_of v)) (\<lambda>node. clip_at node t) =
     text_leaf (value_at v [''clips'', tone_name t])"
proof (cases "record_of v")
  case (Some j)
  then show ?thesis
    by (simp add: is_record [OF Some] clip_at_def parse_option_def parsed_clip del: value_at.simps)
      (simp add: is_record [OF Some])
qed (simp add: no_record)

lemma parsed_category:
  "Option.bind (Option.bind (map_option (parseCategory c) (record_of v)) (\<lambda>cat. dc_options cat k))
       (\<lambda>node. clip_at node t) =
     text_leaf (value_at v [''options'', option_name k, ''clips'', tone_name t])"
proof (cases "record_of v")
  case (Some j)
  then have v: "v = Some j" by (rule is_record)
  show ?thesis
    by (simp only: Some option.map bind.bind_lunit parseCategory_def Let_def decision_category.simps parsed_option field_record_of)
      (simp add: v)
qed (simp add: no_record)

text \<open>A leaf of the tree is the leaf of the document.\<close>

lemma parsed_leaf:
  "Option.bind (option_node (parseDecisionTree raw) c k) (\<lambda>node. clip_at node t) = authored raw c k t"
proof (cases "record_of raw")
  case (Some r)
  then have raw: "raw = Some r" by (rule is_record)
  show ?thesis
  proof (cases "record_of (field r ''tree'')")
    case None
    then show ?thesis by (simp add: parseDecisionTree_def option_node_def authored_def raw Some [unfolded raw] no_record del: value_at.simps(3)) (simp add: no_record)
  next
    case (Some tree)
    then have "field r ''tree'' = Some tree" by (rule is_record)
    with Some \<open>record_of raw = Some r\<close> show ?thesis
      using parsed_category [of c "field tree (category_name c)" k t]
      by (simp add: parseDecisionTree_def option_node_def authored_def raw)
  qed
qed (simp add: parseDecisionTree_def option_node_def authored_def no_record)

definition authored_at :: "json option \<Rightarrow> category_key \<Rightarrow> option_key \<Rightarrow> string list" where
  "authored_at raw c k =
     concat (map (\<lambda>t. case authored raw c k t of Some clip \<Rightarrow> [clip] | None \<Rightarrow> []) TONE_KEYS)"

definition only :: "'a list \<Rightarrow> 'a option" where
  "only xs = (case xs of [x] \<Rightarrow> Some x | _ \<Rightarrow> None)"

definition authored_thinking :: "json option \<Rightarrow> string list" where
  "authored_thinking raw = concat (map (\<lambda>c. concat (map (\<lambda>k.
     case authored raw c k ToneT of Some clip \<Rightarrow> [clip] | None \<Rightarrow> []) OPTION_KEYS)) CATEGORY_KEYS)"

lemma authored_nonempty: "authored raw c k t = Some clip \<Longrightarrow> clip \<noteq> []"
  by (auto simp: authored_def elim!: text_leaf.elims split: if_splits)

lemma clips_of_node:
  "(case option_node (parseDecisionTree raw) c k of None \<Rightarrow> [] | Some node \<Rightarrow> authored_clips node) = authored_at raw c k"
proof (cases "option_node (parseDecisionTree raw) c k")
  case None
  then have "authored raw c k t = None" for t using parsed_leaf [of raw c k t] by simp
  with None show ?thesis by (simp add: authored_at_def)
next
  case (Some node)
  then have "authored raw c k = clip_at node" using parsed_leaf [of raw c k] by (intro ext) simp
  with Some show ?thesis by (simp add: authored_at_def authored_clips_def)
qed

lemma thinking_of_node:
  "thinking_clip (parseDecisionTree raw) c = (\<lambda>k. case authored raw c k ToneT of Some clip \<Rightarrow> [clip] | None \<Rightarrow> [])"
  by (rule ext) (auto simp: thinking_clip_def parsed_leaf dest: authored_nonempty split: option.splits)

lemma resolve_staged:
  "resolveClipId (parseDecisionTree raw) (Some c) (Some k) (Some t) = authored raw c k t"
  using parsed_leaf [of raw c k t] by (cases "option_node (parseDecisionTree raw) c k") (simp_all add: resolveClipId_def)

lemma resolve_unstaged:
  "resolveClipId (parseDecisionTree raw) (Some c) (Some k) None = only (authored_at raw c k)"
  using clips_of_node [of raw c k] by (auto simp: resolveClipId_def only_def split: option.splits)

lemma resolve_nothing: "resolveClipId tree None k t = None" "resolveClipId tree c None t = None"
  by (simp_all add: resolveClipId_def split: option.splits)

lemma resolved_is_authored:
  assumes "resolveClipId (parseDecisionTree raw) c k t = Some clip"
  shows "\<exists>c k t. authored raw c k t = Some clip"
proof -
  from assms obtain c' k' where ck: "c = Some c'" "k = Some k'"
    by (auto simp: resolveClipId_def split: option.splits)
  show ?thesis
  proof (cases t)
    case None
    with assms ck have "clip \<in> set (authored_at raw c' k')"
      by (auto simp: resolve_unstaged only_def split: list.splits)
    then obtain t where "authored raw c' k' t = Some clip" by (auto simp: authored_at_def split: option.splits)
    then show ?thesis by blast
  next
    case (Some t')
    with assms ck show ?thesis by (auto simp: resolve_staged)
  qed
qed

lemma thinking_is_authored:
  assumes "findThinkingClipId (parseDecisionTree raw) = Some clip"
  shows "\<exists>c k t. authored raw c k t = Some clip"
proof -
  have "findThinkingClipId (parseDecisionTree raw) = (case authored_thinking raw of [] \<Rightarrow> None | clip # rest \<Rightarrow> Some clip)"
    by (simp add: findThinkingClipId_def thinking_of_node authored_thinking_def)
  with assms have "clip \<in> set (authored_thinking raw)" by (cases "authored_thinking raw") simp_all
  then obtain c k where "authored raw c k ToneT = Some clip"
    by (auto simp: authored_thinking_def split: option.splits)
  then show ?thesis by blast
qed

text \<open>
  C32: the console plays what the author wrote. Whatever the document of a case looks like, the clip
  of a staged category, option and tone is the non-empty text at that path of the document, and
  none if there is none; without a tone it is the option's only clip, and none if the option has
  several; the thinking key finds the first thinking clip of the document. A malformed document
  can only make clips missing, it never gives an empty or a wrong one.
\<close>

theorem resolves_what_the_author_wrote:
  "resolveClipId (parseDecisionTree raw) c k t =
     (case (c, k, t) of
        (Some c, Some k, Some t) \<Rightarrow> authored raw c k t
      | (Some c, Some k, None) \<Rightarrow> only (authored_at raw c k)
      | _ \<Rightarrow> None) \<and>
   findThinkingClipId (parseDecisionTree raw) = (case authored_thinking raw of [] \<Rightarrow> None | clip # rest \<Rightarrow> Some clip)"
  by (intro conjI, cases c; cases k; cases t)
    (simp_all add: resolve_staged resolve_unstaged resolve_nothing findThinkingClipId_def thinking_of_node
      authored_thinking_def)

end
