(* ===== verification/WizardConsole.thy ===== *)
theory WizardConsole
  imports WizardSocket DecisionTree
begin

text \<open>
  \<open>apps/wizard/src/App.tsx\<close> with its join form and dialogs: the page that owns the keyboard. It
  stages a selection in the decision tree, decides which command the socket hook gets, restores or
  joins a session, loads its case and ends it. The hook is a part of the state; what the last
  rendering took from it is a part of its own, since a key press sees the values of that rendering
  while frames go on arriving. A request under way is a task. \<open>num\<close> is the text that \<open>String\<close> gives
  for a number.
\<close>

section \<open>State\<close>

record joined_console =
  jc_sessionId :: string
  jc_caseId :: string
  jc_accessToken :: string

record seen_view =
  pv_status :: connection_status
  pv_session_state :: session_state
  pv_playback_state :: playback_state
  pv_closed_reason :: "string option"
  pv_start_in_flight :: bool
  pv_threshold :: "rat option"
  pv_now :: ms

datatype modal_error = MissingFields | WrongRole string | JoinFailed api_text | JoinThrew string

datatype console_task = Restoring joined_session | LoadingTree | Joining string | FetchingInfo string string
  | EndingSession string

record console =
  co_hook :: wizard
  co_auth :: auth
  co_joined :: "joined_console option"
  co_restore_pending :: bool
  co_restore_error :: bool
  co_tree :: decision_tree
  co_tree_error :: "api_failure option"
  co_selection :: staged_selection
  co_pause_open :: bool
  co_uncovered_open :: bool
  co_end_open :: bool
  co_ending :: bool
  co_end_error :: "end_message option"
  co_ended_locally :: bool
  co_ending_ref :: bool
  co_active_since :: "ms option"
  co_seen :: seen_view
  co_effect_ended :: bool
  co_effect_state :: session_state
  co_tree_load :: "nat option"
  co_modal_busy :: bool
  co_modal_error :: "modal_error option"
  co_tasks :: "(nat \<times> console_task) list"
  co_next_task :: nat

definition seen_of :: "wizard \<Rightarrow> seen_view" where
  "seen_of h = \<lparr>pv_status = h_status h, pv_session_state = wv_session_state (wz_view h),
     pv_playback_state = wv_playback_state (wz_view h), pv_closed_reason = h_closed_reason h,
     pv_start_in_flight = wz_start_in_flight_shown h, pv_threshold = wz_threshold_alert h, pv_now = h_now h\<rparr>"

definition start_task :: "console_task \<Rightarrow> console \<Rightarrow> console" where
  "start_task t s = s\<lparr>co_tasks := co_tasks s @ [(co_next_task s, t)], co_next_task := co_next_task s + 1\<rparr>"

definition finish_task :: "nat \<Rightarrow> console \<Rightarrow> console" where
  "finish_task i s = s\<lparr>co_tasks := filter (\<lambda>e. fst e \<noteq> i) (co_tasks s)\<rparr>"

section \<open>What the page derives\<close>

definition connected :: "console \<Rightarrow> bool" where
  "connected s \<longleftrightarrow> pv_status (co_seen s) = CsOpen \<or> pv_status (co_seen s) = CsDegraded"

definition sessionEnded :: "console \<Rightarrow> bool" where
  "sessionEnded s \<longleftrightarrow> co_ended_locally s \<or> pv_session_state (co_seen s) = StEnded \<or>
     pv_closed_reason (co_seen s) = Some ''session_ended''"

definition paused :: "console \<Rightarrow> bool" where
  "paused s \<longleftrightarrow> pv_session_state (co_seen s) = StPaused \<and> \<not> sessionEnded s"

definition canCommand :: "console \<Rightarrow> bool" where
  "canCommand s \<longleftrightarrow> connected s \<and> \<not> paused s \<and> \<not> sessionEnded s"

definition header_state :: "console \<Rightarrow> session_state" where
  "header_state s = (if sessionEnded s then StEnded else pv_session_state (co_seen s))"

definition startUi :: "console \<Rightarrow> start_control" where
  "startUi s = startControl \<lparr>si_connected = connected s, si_session_state = header_state s,
     si_session_ended = sessionEnded s, si_start_in_flight = pv_start_in_flight (co_seen s),
     si_blocked = Some (co_end_open s \<or> co_ending s \<or> co_pause_open s \<or> co_uncovered_open s)\<rparr>"

definition resolvedClipId :: "console \<Rightarrow> string option" where
  "resolvedClipId s = resolveClipId (co_tree s) (sel_category (co_selection s)) (sel_option (co_selection s))
     (sel_tone (co_selection s))"

definition dialog_open :: "console \<Rightarrow> bool" where
  "dialog_open s \<longleftrightarrow> co_pause_open s \<or> co_uncovered_open s \<or> co_end_open s"

section \<open>Handlers\<close>

text \<open>A handler changes the page and may make one call of the socket hook.\<close>

type_synonym handled = "console \<times> wizard_call option"

definition select_category :: "category_key \<Rightarrow> console \<Rightarrow> console" where
  "select_category key s = s\<lparr>co_selection := \<lparr>sel_category = Some key, sel_option = None, sel_tone = None\<rparr>\<rparr>"

definition select_option :: "option_key \<Rightarrow> console \<Rightarrow> console" where
  "select_option key s = s\<lparr>co_selection := (co_selection s)\<lparr>sel_option := Some key, sel_tone := None\<rparr>\<rparr>"

definition select_tone :: "tone_key \<Rightarrow> console \<Rightarrow> console" where
  "select_tone key s = s\<lparr>co_selection := (co_selection s)\<lparr>sel_tone := Some key\<rparr>\<rparr>"

definition confirmStaged :: "console \<Rightarrow> handled" where
  "confirmStaged s =
     (case resolvedClipId s of
        None \<Rightarrow> (s, None)
      | Some clip \<Rightarrow>
          if \<not> canCommand s then (s, None)
          else (s\<lparr>co_selection := EMPTY_SELECTION\<rparr>, Some (SendClipCommand clip)))"

definition playThinking :: "console \<Rightarrow> handled" where
  "playThinking s =
     (case findThinkingClipId (co_tree s) of
        None \<Rightarrow> (s, None)
      | Some clip \<Rightarrow> if \<not> canCommand s then (s, None) else (s, Some (SendClipCommand clip)))"

definition submitUncovered :: "(string \<times> json) list \<Rightarrow> console \<Rightarrow> handled" where
  "submitUncovered payload s = (s\<lparr>co_uncovered_open := False\<rparr>, Some (SendUncoveredQuestion payload))"

definition submitPause :: "pause_reason \<Rightarrow> console \<Rightarrow> handled" where
  "submitPause reason s = (s\<lparr>co_pause_open := False\<rparr>, Some (SendSessionPaused reason))"

definition closeEndDialog :: "console \<Rightarrow> console" where
  "closeEndDialog s = (if co_ending_ref s then s else s\<lparr>co_end_open := False, co_end_error := None\<rparr>)"

definition openEndDialog :: "console \<Rightarrow> console" where
  "openEndDialog s =
     (if co_ending_ref s \<or> sessionEnded s then s else s\<lparr>co_end_error := None, co_end_open := True\<rparr>)"

definition confirmEndSession :: "console \<Rightarrow> console" where
  "confirmEndSession s =
     (case co_joined s of
        None \<Rightarrow> s
      | Some j \<Rightarrow>
          if co_ending_ref s \<or> sessionEnded s then s
          else start_task (EndingSession (jc_sessionId j))
            (s\<lparr>co_ending_ref := True, co_ending := True, co_end_error := None\<rparr>))"

definition session_end_answered :: "api_failure + session_infoW \<Rightarrow> console \<Rightarrow> console" where
  "session_end_answered r s =
     (let s1 = (case r of
          Inl cause \<Rightarrow> s\<lparr>co_end_error := Some (endSessionErrorMessage cause)\<rparr>
        | Inr info \<Rightarrow>
            if iw_status info \<noteq> ''ended'' then s\<lparr>co_end_error := Some EndNotMarked\<rparr>
            else s\<lparr>co_ended_locally := True, co_end_open := False, co_pause_open := False, co_uncovered_open := False\<rparr>)
      in s1\<lparr>co_ending_ref := False, co_ending := False\<rparr>)"

definition requestStart :: "console \<Rightarrow> handled" where
  "requestStart s = (s, if sc_enabled (startUi s) then Some SendSessionStarted else None)"

section \<open>The keyboard\<close>

definition if_can :: "wizard_call \<Rightarrow> console \<Rightarrow> wizard_call option" where
  "if_can c s = (if canCommand s then Some c else None)"

definition letter_key :: "string \<Rightarrow> console \<Rightarrow> handled" where
  "letter_key upper s =
     (if upper = ''I'' then
        (if canCommand s then (s\<lparr>co_selection := EMPTY_SELECTION\<rparr>, Some SendReturnToIdle) else (s, None))
      else if upper = ''T'' then playThinking s
      else if upper = ''B'' then (s, if_can (SendClipInterrupted ''student_barge_in'') s)
      else if upper = ''F'' then (s, if_can (SendRequestFallback Clarify None) s)
      else if upper = ''M'' then (s\<lparr>co_uncovered_open := True\<rparr>, None)
      else if upper = ''P'' then (s\<lparr>co_pause_open := True\<rparr>, None)
      else (s, None))"

definition escape_dialogs :: "console \<Rightarrow> console" where
  "escape_dialogs s = s\<lparr>co_pause_open := False, co_uncovered_open := False, co_end_open := False, co_end_error := None\<rparr>"

definition console_key :: "string \<Rightarrow> console \<Rightarrow> handled" where
  "console_key key s =
     (case category_of key of
        Some c \<Rightarrow> (select_category c s, None)
      | None \<Rightarrow>
          (case option_of key of
             Some k \<Rightarrow> (select_option k s, None)
           | None \<Rightarrow>
               if key = '' '' then confirmStaged s
               else if key = ''Escape'' then
                 (s\<lparr>co_selection := EMPTY_SELECTION\<rparr>,
                  if pv_playback_state (co_seen s) = PbPlaying then if_can SendReturnToIdle s else None)
               else
                 (case tone_of (toUpperCase key) of
                    Some t \<Rightarrow>
                      if sel_option (co_selection s) \<noteq> None then (select_tone t s, None)
                      else letter_key (toUpperCase key) s
                  | None \<Rightarrow> letter_key (toUpperCase key) s)))"

definition onKeyDown :: "string \<Rightarrow> bool \<Rightarrow> bool \<Rightarrow> console \<Rightarrow> handled" where
  "onKeyDown key modifier typing s =
     (if co_joined s = None \<or> modifier \<or> typing then (s, None)
      else if dialog_open s then
        (if key = ''Escape'' \<and> \<not> co_ending_ref s then escape_dialogs s else s, None)
      else console_key key s)"

section \<open>The join form and the restore\<close>

text \<open>A change of \<open>joined\<close>: the hook's effect runs with the new session, and the case is loaded.\<close>

definition load_tree :: "joined_console \<Rightarrow> console \<Rightarrow> console" where
  "load_tree j s =
     (if jc_caseId j = [] then s\<lparr>co_tree_load := None\<rparr>
      else start_task LoadingTree (s\<lparr>co_tree_load := Some (co_next_task s)\<rparr>))"

definition setJoined :: "joined_console \<Rightarrow> console \<Rightarrow> console" where
  "setJoined j s =
     load_tree j (s\<lparr>co_joined := Some j,
       co_hook := wizard_event (Mount (Some (jc_sessionId j)) (Some (jc_accessToken j)))
         (wizard_event Unmount (co_hook s))\<rparr>)"

definition handleJoined :: "joined_console \<Rightarrow> console \<Rightarrow> console" where
  "handleJoined j s =
     setJoined j (s\<lparr>co_auth := rememberJoinedSession
         \<lparr>j_sessionId = jc_sessionId j, j_role = ''wizard'', j_accessToken = jc_accessToken j\<rparr> (co_auth s),
       co_restore_error := False, co_ended_locally := False, co_end_error := None, co_end_open := False\<rparr>)"

definition tree_answered :: "nat \<Rightarrow> http_answer \<Rightarrow> console \<Rightarrow> console" where
  "tree_answered i ans s =
     (if co_tree_load s \<noteq> Some i then s
      else case fetchDecisionTree ans of
        Inr loaded \<Rightarrow> s\<lparr>co_tree := loaded, co_tree_error := None\<rparr>
      | Inl cause \<Rightarrow> s\<lparr>co_tree_error := Some cause\<rparr>)"

definition restore_answered :: "joined_session \<Rightarrow> api_failure + session_infoW \<Rightarrow> console \<Rightarrow> console" where
  "restore_answered stored r s =
     (let s1 = (case r of
          Inr info \<Rightarrow> setJoined \<lparr>jc_sessionId = j_sessionId stored, jc_caseId = iw_case_id info,
            jc_accessToken = j_accessToken stored\<rparr> s
        | Inl (ApiFailure code message) \<Rightarrow>
            if code = 401 \<or> code = 403 \<or> code = 404 then
              s\<lparr>co_auth := clearJoinedSession (Some (j_sessionId stored)) (co_auth s), co_restore_error := True\<rparr>
            else s
        | Inl (OtherError text) \<Rightarrow> s)
      in s1\<lparr>co_restore_pending := False\<rparr>)"

fun join_text :: "api_failure \<Rightarrow> modal_error" where
  "join_text (ApiFailure code message) = JoinFailed message"
| "join_text (OtherError text) = JoinThrew text"

definition form_failed :: "modal_error \<Rightarrow> console \<Rightarrow> console" where
  "form_failed e s = s\<lparr>co_modal_error := Some e, co_modal_busy := False\<rparr>"

definition handleSubmit :: "string \<Rightarrow> string \<Rightarrow> console \<Rightarrow> console" where
  "handleSubmit sessionId joinCode s =
     (if co_modal_busy s then s
      else if js_trim sessionId = [] \<or> js_trim joinCode = [] then s\<lparr>co_modal_error := Some MissingFields\<rparr>
      else start_task (Joining (js_trim sessionId)) (s\<lparr>co_modal_busy := True, co_modal_error := None\<rparr>))"

definition join_answered :: "string \<Rightarrow> (api_failure + join_resultW) \<times> auth \<Rightarrow> console \<Rightarrow> console" where
  "join_answered sid r s =
     (let s1 = s\<lparr>co_auth := snd r\<rparr>
      in case fst r of
        Inl cause \<Rightarrow> form_failed (join_text cause) s1
      | Inr result \<Rightarrow>
          if jw_role result \<noteq> ''wizard'' then
            form_failed (WrongRole (jw_role result))
              (s1\<lparr>co_auth := clearJoinedSession (Some (jw_session_id result)) (co_auth s1)\<rparr>)
          else start_task (FetchingInfo sid (jw_access_token result)) s1)"

definition info_answered :: "string \<Rightarrow> string \<Rightarrow> api_failure + session_infoW \<Rightarrow> console \<Rightarrow> console" where
  "info_answered sid token r s =
     (case r of
        Inl cause \<Rightarrow> form_failed (join_text cause) s
      | Inr info \<Rightarrow> (handleJoined \<lparr>jc_sessionId = sid, jc_caseId = iw_case_id info, jc_accessToken = token\<rparr> s)
          \<lparr>co_modal_busy := False\<rparr>)"

definition task_answered :: "(rat \<Rightarrow> string) \<Rightarrow> nat \<Rightarrow> http_answer \<Rightarrow> console \<Rightarrow> console" where
  "task_answered num i ans s =
     (case map_of (co_tasks s) i of
        None \<Rightarrow> s
      | Some t \<Rightarrow>
          let s1 = finish_task i s
          in case t of
            Restoring stored \<Rightarrow> restore_answered stored (fetchSessionW num (j_sessionId stored) ans) s1
          | LoadingTree \<Rightarrow> tree_answered i ans s1
          | Joining sid \<Rightarrow> join_answered sid (joinSessionW num sid ans (co_auth s1)) s1
          | FetchingInfo sid token \<Rightarrow> info_answered sid token (fetchSessionW num sid ans) s1
          | EndingSession sid \<Rightarrow> session_end_answered (endSession num sid ans) s1)"

section \<open>Events\<close>

text \<open>
  A key press has its key, whether a modifier is held and whether it goes to a text field. A click
  reaches a control that is shown and enabled; an open dialog covers the page, but what lies
  behind it can still be reached with the keyboard. \<open>Render\<close> is a rendering after the hook changed.
\<close>

datatype console_event =
    KeyDown string bool bool
  | ClickCategory category_key | ClickOption option_key | ClickTone tone_key | ClickConfirm
  | ClickFallback fallback_category "string option" | ClickDismiss | ClickResume | ClickStart | ClickEnd
  | ClickPause pause_reason | ClickClosePause
  | ClickMark string string string | ClickCloseMark
  | ClickConfirmEnd | ClickCloseEnd
  | SubmitJoin string string
  | AnswerTo nat http_answer
  | Render
  | Browser "wizard_call socket_event"

definition mark_payload :: "string \<Rightarrow> string \<Rightarrow> string \<Rightarrow> ms option \<Rightarrow> (string \<times> json) list" where
  "mark_payload questionText note segmentId elapsed =
     (if js_trim questionText \<noteq> [] then [(''question_text'', JStr (js_trim questionText))] else []) @
     (if js_trim note \<noteq> [] then [(''note'', JStr (js_trim note))] else []) @
     (if js_trim segmentId \<noteq> [] then [(''question_segment_id'', JStr (js_trim segmentId))] else []) @
     (case elapsed of None \<Rightarrow> [] | Some t \<Rightarrow> [(''timestamp_ms'', JNum (of_int t))])"

definition sessionElapsedMs :: "console \<Rightarrow> ms option" where
  "sessionElapsedMs s = map_option (\<lambda>t. pv_now (co_seen s) - t) (co_active_since s)"

definition offered_option :: "console \<Rightarrow> option_key \<Rightarrow> bool" where
  "offered_option s k =
     (case sel_category (co_selection s) of None \<Rightarrow> False | Some c \<Rightarrow> option_node (co_tree s) c k \<noteq> None)"

definition click :: "console_event \<Rightarrow> console \<Rightarrow> handled" where
  "click ev s =
     (case ev of
        ClickCategory c \<Rightarrow> (if co_tree s c \<noteq> None then select_category c s else s, None)
      | ClickOption k \<Rightarrow> (if offered_option s k then select_option k s else s, None)
      | ClickTone t \<Rightarrow> (select_tone t s, None)
      | ClickConfirm \<Rightarrow> confirmStaged s
      | ClickFallback c reason \<Rightarrow> (s, if_can (SendRequestFallback c reason) s)
      | ClickDismiss \<Rightarrow> (s, if pv_threshold (co_seen s) \<noteq> None then Some DismissThresholdAlert else None)
      | ClickResume \<Rightarrow> (s, if paused s \<and> connected s then Some SendSessionResumed else None)
      | ClickStart \<Rightarrow> requestStart s
      | ClickEnd \<Rightarrow> (if \<not> sessionEnded s \<and> \<not> co_ending s then openEndDialog s else s, None)
      | ClickPause reason \<Rightarrow> if co_pause_open s then submitPause reason s else (s, None)
      | ClickClosePause \<Rightarrow> (s\<lparr>co_pause_open := False\<rparr>, None)
      | ClickMark q n i \<Rightarrow>
          if co_uncovered_open s then submitUncovered (mark_payload q n i (sessionElapsedMs s)) s else (s, None)
      | ClickCloseMark \<Rightarrow> (s\<lparr>co_uncovered_open := False\<rparr>, None)
      | ClickConfirmEnd \<Rightarrow> (if co_end_open s \<and> \<not> co_ending s then confirmEndSession s else s, None)
      | ClickCloseEnd \<Rightarrow> (if co_end_open s \<and> \<not> co_ending s then closeEndDialog s else s, None)
      | _ \<Rightarrow> (s, None))"

text \<open>The effect on the session's state, and the one on its end.\<close>

definition active_effect :: "console \<Rightarrow> console" where
  "active_effect s =
     (let state = pv_session_state (co_seen s)
      in if state = co_effect_state s then s
         else let s1 = s\<lparr>co_effect_state := state\<rparr>
           in if state = StActive then
                s1\<lparr>co_active_since := Some (nullish (co_active_since s) (h_now (co_hook s)))\<rparr>
              else if state = StEnded then s1\<lparr>co_active_since := None\<rparr>
              else s1)"

definition ended_effect :: "console \<Rightarrow> console" where
  "ended_effect s =
     (if sessionEnded s = co_effect_ended s then s
      else let s1 = s\<lparr>co_effect_ended := sessionEnded s\<rparr>
        in if sessionEnded s then s1\<lparr>co_pause_open := False, co_uncovered_open := False, co_end_open := False\<rparr>
           else s1)"

definition from_outside :: "wizard_call socket_event \<Rightarrow> bool" where
  "from_outside ev = (case ev of Mount sid token \<Rightarrow> False | Unmount \<Rightarrow> False | App c \<Rightarrow> False | _ \<Rightarrow> True)"

definition page_handles :: "(rat \<Rightarrow> string) \<Rightarrow> console_event \<Rightarrow> console \<Rightarrow> handled" where
  "page_handles num ev s =
     (case ev of
        KeyDown key modifier typing \<Rightarrow> onKeyDown key modifier typing s
      | SubmitJoin sid code \<Rightarrow> (if co_joined s = None \<and> \<not> co_restore_pending s then handleSubmit sid code s else s, None)
      | AnswerTo i ans \<Rightarrow> (task_answered num i ans s, None)
      | Render \<Rightarrow> (active_effect (s\<lparr>co_seen := seen_of (co_hook s)\<rparr>), None)
      | Browser e \<Rightarrow> (if from_outside e then s\<lparr>co_hook := wizard_event e (co_hook s)\<rparr> else s, None)
      | _ \<Rightarrow> if co_joined s = None then (s, None) else click ev s)"

definition call_hook :: "wizard_call option \<Rightarrow> console \<Rightarrow> console" where
  "call_hook c s = (case c of None \<Rightarrow> s | Some made \<Rightarrow> s\<lparr>co_hook := wizard_event (App made) (co_hook s)\<rparr>)"

definition console_event :: "(rat \<Rightarrow> string) \<Rightarrow> console_event \<Rightarrow> console \<Rightarrow> console" where
  "console_event num ev s = (let (s1, c) = page_handles num ev s in ended_effect (call_hook c s1))"

definition console_run :: "(rat \<Rightarrow> string) \<Rightarrow> console_event list \<Rightarrow> console \<Rightarrow> console" where
  "console_run num = fold (console_event num)"

definition initial_console :: "auth \<Rightarrow> wizard \<Rightarrow> console" where
  "initial_console a h =
     (let (stored, a1) = readJoinedSession a;
          h1 = wizard_event (Mount None None) h;
          wizard_login = (case stored of Some j \<Rightarrow> j_role j = ''wizard'' | None \<Rightarrow> False);
          s = \<lparr>co_hook = h1, co_auth = a1, co_joined = None, co_restore_pending = wizard_login,
            co_restore_error = False, co_tree = (\<lambda>_. None), co_tree_error = None, co_selection = EMPTY_SELECTION,
            co_pause_open = False, co_uncovered_open = False, co_end_open = False, co_ending = False,
            co_end_error = None, co_ended_locally = False, co_ending_ref = False, co_active_since = None,
            co_seen = seen_of h1, co_effect_ended = False, co_effect_state = StCreated, co_tree_load = None,
            co_modal_busy = False, co_modal_error = None, co_tasks = [], co_next_task = 0\<rparr>
      in if wizard_login then start_task (Restoring (the stored)) s else s)"

section \<open>What every event keeps\<close>

text \<open>The parts of the page that only the answers and the end of a session change.\<close>

definition page_core :: "console \<Rightarrow> decision_tree \<times> bool \<times> bool \<times> (nat \<times> console_task) list \<times> nat" where
  "page_core s = (co_tree s, co_ending s, co_ending_ref s, co_tasks s, co_next_task s)"

lemma console_core_updates [simp]:
  "page_core (s\<lparr>co_hook := h\<rparr>) = page_core s" "page_core (s\<lparr>co_auth := a\<rparr>) = page_core s"
  "page_core (s\<lparr>co_joined := j\<rparr>) = page_core s" "page_core (s\<lparr>co_restore_pending := b\<rparr>) = page_core s"
  "page_core (s\<lparr>co_restore_error := b\<rparr>) = page_core s" "page_core (s\<lparr>co_tree_error := e\<rparr>) = page_core s"
  "page_core (s\<lparr>co_selection := x\<rparr>) = page_core s" "page_core (s\<lparr>co_pause_open := b\<rparr>) = page_core s"
  "page_core (s\<lparr>co_uncovered_open := b\<rparr>) = page_core s" "page_core (s\<lparr>co_end_open := b\<rparr>) = page_core s"
  "page_core (s\<lparr>co_end_error := m\<rparr>) = page_core s" "page_core (s\<lparr>co_ended_locally := b\<rparr>) = page_core s"
  "page_core (s\<lparr>co_active_since := t\<rparr>) = page_core s" "page_core (s\<lparr>co_seen := v\<rparr>) = page_core s"
  "page_core (s\<lparr>co_effect_ended := b\<rparr>) = page_core s" "page_core (s\<lparr>co_effect_state := z\<rparr>) = page_core s"
  "page_core (s\<lparr>co_tree_load := l\<rparr>) = page_core s" "page_core (s\<lparr>co_modal_busy := b\<rparr>) = page_core s"
  "page_core (s\<lparr>co_modal_error := f\<rparr>) = page_core s"
  by (simp_all add: page_core_def)

named_theorems page_handlers \<open>the handlers of the page\<close>
lemmas [page_handlers] = select_category_def select_option_def select_tone_def confirmStaged_def playThinking_def
  submitUncovered_def submitPause_def closeEndDialog_def openEndDialog_def requestStart_def escape_dialogs_def

lemma core_letter [simp]: "page_core (fst (letter_key u s)) = page_core s"
  by (simp add: letter_key_def playThinking_def split: option.splits)

lemma core_key [simp]: "page_core (fst (onKeyDown key modifier typing s)) = page_core s"
  by (simp add: onKeyDown_def console_key_def page_handlers split: option.splits)

lemma core_click: "ev \<noteq> ClickConfirmEnd \<Longrightarrow> page_core (fst (click ev s)) = page_core s"
  by (cases ev) (simp_all add: click_def page_handlers split: option.splits)

lemma core_effects [simp]:
  "page_core (ended_effect s) = page_core s" "page_core (active_effect s) = page_core s"
  "page_core (call_hook c s) = page_core s"
  by (simp_all add: ended_effect_def active_effect_def call_hook_def Let_def split: option.splits)

lemma console_core_event: "page_core (console_event num ev s) = page_core (fst (page_handles num ev s))"
  by (simp add: console_event_def split: prod.splits)

fun quiet_event :: "console_event \<Rightarrow> bool" where
  "quiet_event ClickConfirmEnd = False"
| "quiet_event (AnswerTo i ans) = False"
| "quiet_event (SubmitJoin sid code) = False"
| "quiet_event ev = True"

lemma loud_event:
  "\<not> quiet_event ev \<Longrightarrow> ev = ClickConfirmEnd \<or> (\<exists>i ans. ev = AnswerTo i ans) \<or> (\<exists>sid code. ev = SubmitJoin sid code)"
  by (cases ev) simp_all

lemma core_quiet:
  assumes "quiet_event ev"
  shows "page_core (console_event num ev s) = page_core s"
  using assms core_click [of ev s] by (cases ev) (simp_all add: console_core_event page_handles_def)

section \<open>Where the clips come from\<close>




lemma parse_None [simp]: "parseDecisionTree None = (\<lambda>c. None)"
  by (simp add: parseDecisionTree_def)


lemma tree_start [simp]: "co_tree (start_task t s) = co_tree s" "co_tree (finish_task i s) = co_tree s"
  by (simp_all add: start_task_def finish_task_def)

lemma tree_joined [simp]: "co_tree (setJoined j s) = co_tree s" "co_tree (handleJoined j s) = co_tree s"
  by (simp_all add: setJoined_def load_tree_def handleJoined_def)




lemma run_append: "console_run num (evs @ [ev]) s = console_event num ev (console_run num evs s)"
  by (simp add: console_run_def)



section \<open>Which calls the page makes\<close>











section \<open>An answer in two to three keys\<close>

definition commanding :: "json option \<Rightarrow> console \<Rightarrow> bool" where
  "commanding raw s \<longleftrightarrow> co_joined s \<noteq> None \<and> \<not> dialog_open s \<and> canCommand s \<and> co_tree s = parseDecisionTree raw"

abbreviation press :: "string \<Rightarrow> console_event" where
  "press key \<equiv> KeyDown key False False"

fun page_calls :: "(rat \<Rightarrow> string) \<Rightarrow> console_event list \<Rightarrow> console \<Rightarrow> wizard_call option list" where
  "page_calls num [] s = []"
| "page_calls num (ev # evs) s = snd (page_handles num ev s) # page_calls num evs (console_event num ev s)"

lemma key_of_name [simp]:
  "category_of (category_name c) = Some c" "option_of (option_name k) = Some k" "category_of (option_name k) = None"
  by (cases c; simp add: category_of_def CATEGORY_KEYS_def) (cases k; simp add: option_of_def OPTION_KEYS_def category_of_def CATEGORY_KEYS_def)+

lemma tone_of_name [simp]: "tone_of (tone_name t) = Some t"
  by (cases t) (simp_all add: tone_of_def TONE_KEYS_def)

lemma name_of_key: "category_of key = Some c \<Longrightarrow> key = category_name c" "option_of key = Some k \<Longrightarrow> key = option_name k"
  by (auto simp: category_of_def option_of_def find_Some_iff)

lemma upper_names:
  "toUpperCase (category_name c) = category_name c" "toUpperCase (option_name k) = option_name k"
  "toUpperCase '' '' = '' ''" "toUpperCase ''Escape'' = ''ESCAPE''"
proof -
  show "toUpperCase (category_name c) = category_name c" by (cases c) (simp_all add: toUpperCase_def upper_char_def)
  show "toUpperCase (option_name k) = option_name k" by (cases k) (simp_all add: toUpperCase_def upper_char_def)
  show "toUpperCase ''Escape'' = ''ESCAPE''" by code_simp
qed (simp add: toUpperCase_def upper_char_def)

lemma tone_names_apart:
  "tone_name t \<noteq> category_name c" "tone_name t \<noteq> option_name k" "tone_name t \<noteq> '' ''" "tone_name t \<noteq> ''ESCAPE''"
proof -
  show "tone_name t \<noteq> category_name c" by (cases t; cases c) simp_all
  show "tone_name t \<noteq> option_name k" by (cases t; cases k) simp_all
qed (cases t; simp)+

lemma tone_key:
  assumes "toUpperCase key = tone_name t" and "sel_option (co_selection s) \<noteq> None"
  shows "console_key key s = (select_tone t s, None)"
proof -
  have "category_of key = None" "option_of key = None" "key \<noteq> '' ''" "key \<noteq> ''Escape''"
    using assms(1) tone_names_apart [of t] upper_names name_of_key [of key] by (metis option.exhaust)+
  with assms show ?thesis by (simp add: console_key_def)
qed

lemma space_key: "console_key '' '' s = confirmStaged s"
  by (simp add: console_key_def category_of_def option_of_def CATEGORY_KEYS_def OPTION_KEYS_def)

lemma commanding_cong:
  assumes "commanding raw s" and "co_joined s' = co_joined s" "co_pause_open s' = co_pause_open s"
    "co_uncovered_open s' = co_uncovered_open s" "co_end_open s' = co_end_open s" "co_seen s' = co_seen s"
    "co_ended_locally s' = co_ended_locally s" "co_tree s' = co_tree s"
  shows "commanding raw s'"
  using assms unfolding commanding_def dialog_open_def canCommand_def connected_def paused_def sessionEnded_def by auto

lemma live_effect: "\<not> sessionEnded s \<Longrightarrow> ended_effect s = s\<lparr>co_effect_ended := False\<rparr>"
  by (cases "co_effect_ended s"; cases s) (simp_all add: ended_effect_def)

lemma pressed:
  assumes "commanding raw s" and "console_key key s = (s\<lparr>co_selection := x\<rparr>, c)"
  shows "snd (page_handles num (press key) s) = c"
    and "commanding raw (console_event num (press key) s)"
    and "co_selection (console_event num (press key) s) = x"
    and "co_hook (console_event num (press key) s) = co_hook (call_hook c s)"
proof -
  have h: "page_handles num (press key) s = (s\<lparr>co_selection := x\<rparr>, c)"
    using assms by (auto simp: page_handles_def onKeyDown_def commanding_def)
  then show "snd (page_handles num (press key) s) = c" by simp
  have n: "\<not> sessionEnded (call_hook c (s\<lparr>co_selection := x\<rparr>))"
    using assms(1) by (simp add: commanding_def canCommand_def sessionEnded_def call_hook_def split: option.splits)
  have e: "console_event num (press key) s = (call_hook c (s\<lparr>co_selection := x\<rparr>))\<lparr>co_effect_ended := False\<rparr>"
    using h by (simp add: console_event_def live_effect [OF n])
  show "commanding raw (console_event num (press key) s)"
    by (rule commanding_cong [OF assms(1)]) (simp_all add: e call_hook_def split: option.splits)
  show "co_selection (console_event num (press key) s) = x" "co_hook (console_event num (press key) s) = co_hook (call_hook c s)"
    by (simp_all add: e call_hook_def split: option.splits)
qed

lemma pressed_category:
  assumes "commanding raw s"
  shows "snd (page_handles num (press (category_name c)) s) = None"
    and "commanding raw (console_event num (press (category_name c)) s)"
    and "co_selection (console_event num (press (category_name c)) s) = \<lparr>sel_category = Some c, sel_option = None, sel_tone = None\<rparr>"
    and "co_hook (console_event num (press (category_name c)) s) = co_hook s"
  using pressed [OF assms, of "category_name c" _ None num]
  by (simp_all add: console_key_def select_category_def call_hook_def)

lemma pressed_option:
  assumes "commanding raw s"
  shows "snd (page_handles num (press (option_name k)) s) = None"
    and "commanding raw (console_event num (press (option_name k)) s)"
    and "co_selection (console_event num (press (option_name k)) s) = (co_selection s)\<lparr>sel_option := Some k, sel_tone := None\<rparr>"
    and "co_hook (console_event num (press (option_name k)) s) = co_hook s"
  using pressed [OF assms, of "option_name k" _ None num]
  by (simp_all add: console_key_def select_option_def call_hook_def)

lemma pressed_tone:
  assumes "commanding raw s" and "toUpperCase key = tone_name t" and "sel_option (co_selection s) \<noteq> None"
  shows "snd (page_handles num (press key) s) = None"
    and "commanding raw (console_event num (press key) s)"
    and "co_selection (console_event num (press key) s) = (co_selection s)\<lparr>sel_tone := Some t\<rparr>"
    and "co_hook (console_event num (press key) s) = co_hook s"
  using pressed [OF assms(1), of key _ None num] tone_key [OF assms(2,3)]
  by (simp_all add: select_tone_def call_hook_def)

lemma pressed_space:
  assumes "commanding raw s" and "resolvedClipId s = Some clip"
  shows "snd (page_handles num (press '' '') s) = Some (SendClipCommand clip)"
    and "commanding raw (console_event num (press '' '') s)"
    and "co_selection (console_event num (press '' '') s) = EMPTY_SELECTION"
    and "co_hook (console_event num (press '' '') s) = wizard_event (App (SendClipCommand clip)) (co_hook s)"
proof -
  have "console_key '' '' s = (s\<lparr>co_selection := EMPTY_SELECTION\<rparr>, Some (SendClipCommand clip))"
    using assms by (simp add: space_key confirmStaged_def commanding_def)
  from pressed [OF assms(1) this, of num]
  show "snd (page_handles num (press '' '') s) = Some (SendClipCommand clip)"
    and "commanding raw (console_event num (press '' '') s)"
    and "co_selection (console_event num (press '' '') s) = EMPTY_SELECTION"
    and "co_hook (console_event num (press '' '') s) = wizard_event (App (SendClipCommand clip)) (co_hook s)"
    by (simp_all add: call_hook_def)
qed

text \<open>What reaches the server on an admitted, open connection: one frame with that clip.\<close>

definition clip_frame :: "string \<Rightarrow> string \<Rightarrow> wizard \<Rightarrow> string \<Rightarrow> json" where
  "clip_frame sid commandId h clip = envelope sid WIZARD_ROLE (h_sequence h) (h_now h) ClipCommand
     [(''command_id'', JStr commandId), (''expires_at_ms'', JNum (of_int (serverMonotonicNow h + COMMAND_TTL_MS))),
      (''snapshot_revision'', JNum (h_revision h)), (''clip_id'', JStr clip)]"

definition commanded_on_the_wire :: "string \<Rightarrow> wizard \<Rightarrow> wizard \<Rightarrow> bool" where
  "commanded_on_the_wire clip h h' \<longleftrightarrow>
     (case (h_session h, h_socket h) of
        (Some sid, Some k) \<Rightarrow>
          if h_admitted h \<and> map_of (h_sockets h) k = Some ReadyOpen
          then \<exists>commandId. h_trace h' = Sent k (clip_frame sid commandId h clip) # h_trace h
          else h_trace h' = h_trace h
      | _ \<Rightarrow> h_trace h' = h_trace h)"

lemma trace_start_effect: "h_trace (start_effect h) = h_trace h"
  by (simp add: start_effect_def clearStartCheck_def clearRef_eq Let_def)

lemma clip_on_the_wire: "commanded_on_the_wire clip h (wizard_event (App (SendClipCommand clip)) h)"
  by (auto simp: commanded_on_the_wire_def wizard_event_def wizard_handles_def trace_start_effect sendClipCommand_def
      shortLivedPayload_def newId_def sendEnvelopeW_def rawSend_def setActiveClip_def appendLog_def trackPending_def
      clip_frame_def serverMonotonicNow_def Let_def split: option.splits prod.splits)

definition answer_keys :: "category_key \<Rightarrow> option_key \<Rightarrow> (tone_key \<times> string) option \<Rightarrow> console_event list" where
  "answer_keys c k tone =
     [press (category_name c), press (option_name k)] @ (case tone of None \<Rightarrow> [] | Some (t, key) \<Rightarrow> [press key])
       @ [press '' '']"

text \<open>
  C11: every answer that the author wrote can be given in two to three keys and a confirmation. On
  a connected, unpaused console with no dialog open, whatever was staged before: pressing the key
  of a category, of an option and of a tone (in either case), or of no tone where the option has
  one clip only, and then the space bar makes exactly one call of the socket hook, the command of
  the clip that the document has at that leaf, and leaves the console ready for the next answer. On
  a connection that is admitted and open that command is one frame with that clip, which expires
  after five seconds; without one nothing is sent.
\<close>

theorem keys_play_the_authored_clip:
  assumes "commanding raw s"
    and "case tone of Some (t, key) \<Rightarrow> toUpperCase key = tone_name t | None \<Rightarrow> True"
    and "(case tone of Some (t, key) \<Rightarrow> authored raw c k t | None \<Rightarrow> only (authored_at raw c k)) = Some clip"
  shows "let keys = answer_keys c k tone; s' = console_run num keys s in
     page_calls num keys s = replicate (length keys - 1) None @ [Some (SendClipCommand clip)] \<and>
     co_hook s' = wizard_event (App (SendClipCommand clip)) (co_hook s) \<and>
     commanded_on_the_wire clip (co_hook s) (co_hook s') \<and>
     co_selection s' = EMPTY_SELECTION \<and> commanding raw s'"
proof -
  define s1 where "s1 = console_event num (press (category_name c)) s"
  define s2 where "s2 = console_event num (press (option_name k)) s1"
  note e1 = pressed_category [OF assms(1), of num c, folded s1_def]
  note e2 = pressed_option [OF e1(2), of num k, folded s2_def]
  have sel2: "co_selection s2 = \<lparr>sel_category = Some c, sel_option = Some k, sel_tone = None\<rparr>"
    by (simp add: e1 e2)
  show ?thesis
  proof (cases tone)
    case None
    have "resolvedClipId s2 = Some clip"
      using assms(3) None e2(2) by (simp add: resolvedClipId_def sel2 commanding_def resolve_unstaged)
    from pressed_space [OF e2(2) this, of num] show ?thesis
      by (simp add: None answer_keys_def console_run_def e1 e2 clip_on_the_wire flip: s1_def s2_def)
  next
    case (Some p)
    obtain t key where p: "p = (t, key)" by fastforce
    define s3 where "s3 = console_event num (press key) s2"
    have "toUpperCase key = tone_name t" using assms(2) Some p by simp
    note e3 = pressed_tone [OF e2(2) this, of num, folded s3_def]
    have sel: "sel_option (co_selection s2) \<noteq> None" by (simp add: sel2)
    have "resolvedClipId s3 = Some clip"
      using assms(3) Some p e3(2) [OF sel] by (simp add: resolvedClipId_def sel2 e3(3) [OF sel] commanding_def resolve_staged)
    from pressed_space [OF e3(2) [OF sel] this, of num] show ?thesis
      by (simp add: Some p answer_keys_def console_run_def e1 e2 e3 [OF sel] clip_on_the_wire numeral_eq_Suc flip: s1_def s2_def s3_def)
  qed
qed

definition example_case :: "json option" where
  "example_case = Some (JObj [(''tree'', JObj [(''F3'', JObj [(''options'', JObj [(''1'', JObj [(''clips'',
     JObj [(''N'', JStr ''C1''), (''T'', JNull), (''D'', JStr ''C2'')])])])])])])"

definition example_console :: console where
  "example_console = (initial_console new_auth (initial_wizard 0 0 (\<lambda>n. [])))
     \<lparr>co_joined := Some \<lparr>jc_sessionId = ''S1'', jc_caseId = ''CASE1'', jc_accessToken = ''t''\<rparr>,
      co_tree := parseDecisionTree example_case,
      co_seen := \<lparr>pv_status = CsOpen, pv_session_state = StActive, pv_playback_state = PbIdle,
        pv_closed_reason = None, pv_start_in_flight = False, pv_threshold = None, pv_now = 0\<rparr>\<rparr>"

lemma example_commanding: "commanding example_case example_console"
  by (simp add: commanding_def example_console_def initial_console_def dialog_open_def canCommand_def connected_def
      paused_def sessionEnded_def start_task_def Let_def split: prod.splits)

theorem keys_play_the_authored_clip_witness:
  "page_calls (\<lambda>n. []) (answer_keys F3 Option1 (Some (ToneD, ''d''))) example_console =
     [None, None, None, Some (SendClipCommand ''C2'')]"
proof -
  have "toUpperCase ''d'' = tone_name ToneD" and "authored example_case F3 Option1 ToneD = Some ''C2''"
    by code_simp+
  with keys_play_the_authored_clip [of example_case example_console "Some (ToneD, ''d'')" F3 Option1 "''C2''" "\<lambda>n. []"]
  show ?thesis by (simp add: example_commanding answer_keys_def Let_def numeral_eq_Suc)
qed

section \<open>Ending the session\<close>

definition is_ending :: "console_task \<Rightarrow> bool" where
  "is_ending t = (case t of EndingSession sid \<Rightarrow> True | _ \<Rightarrow> False)"

definition endings :: "(nat \<times> console_task) list \<Rightarrow> (nat \<times> console_task) list" where
  "endings = filter (\<lambda>e. is_ending (snd e))"

definition end_inv :: "console \<Rightarrow> bool" where
  "end_inv s \<longleftrightarrow> co_ending s = co_ending_ref s \<and> length (endings (co_tasks s)) = (if co_ending s then 1 else 0) \<and>
     distinct (map fst (co_tasks s)) \<and> (\<forall>i \<in> fst ` set (co_tasks s). i < co_next_task s)"

lemma end_inv_core: "page_core s' = page_core s \<Longrightarrow> end_inv s \<Longrightarrow> end_inv s'"
  by (simp add: page_core_def end_inv_def)

lemma end_inv_start:
  assumes "end_inv s" and "\<not> is_ending t"
  shows "end_inv (start_task t s)"
  using assms by (force simp: end_inv_def start_task_def endings_def)

lemma count_finished:
  "distinct (map fst ts) \<Longrightarrow> map_of ts i = Some t \<Longrightarrow>
   length (endings ts) = (if is_ending t then 1 else 0) + length (endings (filter (\<lambda>e. fst e \<noteq> i) ts))"
proof (induction ts)
  case (Cons e ts)
  show ?case
  proof (cases "fst e = i")
    case True
    with Cons.prems have "i \<notin> fst ` set ts" by simp
    then have "filter (\<lambda>e. fst e \<noteq> i) ts = ts" by (force simp: filter_id_conv)
    with True Cons.prems show ?thesis by (cases e) (simp add: endings_def)
  next
    case False
    with Cons show ?thesis by (cases e) (simp add: endings_def)
  qed
qed simp

lemma finish_core:
  assumes "end_inv s" and "map_of (co_tasks s) i = Some t"
  shows "is_ending t \<Longrightarrow> end_inv ((finish_task i s)\<lparr>co_ending_ref := False, co_ending := False\<rparr>)"
    and "\<not> is_ending t \<Longrightarrow> end_inv (finish_task i s)"
  using assms count_finished [of "co_tasks s" i t]
  by (auto simp: end_inv_def finish_task_def distinct_map_filter split: if_splits)

lemma core_answer_parts [simp]:
  "page_core (tree_answered i ans s) = page_core (s\<lparr>co_tree := co_tree (tree_answered i ans s)\<rparr>)"
  "page_core (form_failed e s) = page_core s"
  by (auto simp: tree_answered_def form_failed_def page_core_def split: sum.splits)

lemma end_inv_tree: "end_inv (s\<lparr>co_tree := t\<rparr>) = end_inv s"
  by (simp add: end_inv_def)

lemma end_inv_joined:
  assumes "end_inv s"
  shows "end_inv (setJoined j s)" "end_inv (handleJoined j s)"
proof -
  have j: "end_inv (setJoined j s)" if "end_inv s" for s
  proof -
    have "end_inv (load_tree j s)" if "end_inv s" for s
      using end_inv_core [OF console_core_updates(17) that] by (auto simp: load_tree_def is_ending_def intro: end_inv_start)
    from this [OF end_inv_core [OF _ that]] show ?thesis by (simp add: setJoined_def)
  qed
  from j [OF assms] j [OF end_inv_core [OF _ assms]] show "end_inv (setJoined j s)" "end_inv (handleJoined j s)"
    by (simp_all add: handleJoined_def)
qed

lemma end_inv_parts:
  assumes "end_inv s"
  shows "end_inv (tree_answered i ans s)" "end_inv (restore_answered stored r1 s)"
    "end_inv (join_answered sid r2 s)" "end_inv (info_answered sid token r1 s)"
proof -
  note same = end_inv_core [OF _ assms]
  show "end_inv (tree_answered i ans s)"
    by (rule end_inv_core [OF core_answer_parts(1)]) (simp add: end_inv_tree assms)
  have "end_inv s' \<Longrightarrow> end_inv (s'\<lparr>co_restore_pending := False\<rparr>)" for s'
    by (rule end_inv_core) simp_all
  then show "end_inv (restore_answered stored r1 s)"
    by (auto simp: restore_answered_def Let_def same end_inv_joined [OF assms] split: sum.splits api_failure.splits)
  show "end_inv (join_answered sid r2 s)"
    by (auto simp: join_answered_def Let_def same is_ending_def intro!: end_inv_start split: sum.splits)
  have "end_inv s' \<Longrightarrow> end_inv (s'\<lparr>co_modal_busy := False\<rparr>)" for s'
    by (rule end_inv_core) simp_all
  then show "end_inv (info_answered sid token r1 s)"
    by (auto simp: info_answered_def same end_inv_joined [OF assms] split: sum.splits)
qed

lemma core_end_answered:
  "page_core (session_end_answered r s) = page_core (s\<lparr>co_ending_ref := False, co_ending := False\<rparr>)"
  by (simp add: session_end_answered_def page_core_def Let_def split: sum.splits)

lemma end_inv_answer:
  assumes "end_inv s"
  shows "end_inv (task_answered num i ans s)"
proof (cases "map_of (co_tasks s) i")
  case (Some t)
  show ?thesis
  proof (cases "is_ending t")
    case True
    then obtain sid where t: "t = EndingSession sid" by (cases t) (simp_all add: is_ending_def)
    from finish_core(1) [OF assms Some True] have "end_inv (session_end_answered r (finish_task i s))" for r
      by (rule end_inv_core [OF core_end_answered])
    with Some t show ?thesis by (simp add: task_answered_def Let_def)
  next
    case False
    from end_inv_parts [OF finish_core(2) [OF assms Some False]] Some False show ?thesis
      by (cases t) (simp_all add: task_answered_def Let_def is_ending_def)
  qed
qed (simp add: task_answered_def assms)

lemma end_inv_confirm:
  assumes "end_inv s"
  shows "end_inv (confirmEndSession s)"
proof (cases "co_joined s = None \<or> co_ending_ref s \<or> sessionEnded s")
  case True
  with assms show ?thesis by (auto simp: confirmEndSession_def split: option.splits)
next
  case False
  then obtain j where "co_joined s = Some j" by auto
  with False assms show ?thesis
    by (force simp: confirmEndSession_def end_inv_def start_task_def endings_def is_ending_def)
qed

lemma end_inv_submit:
  assumes "end_inv s"
  shows "end_inv (handleSubmit sid code s)"
proof -
  have "end_inv (s\<lparr>co_modal_busy := True, co_modal_error := None\<rparr>)" by (rule end_inv_core [OF _ assms]) simp
  from end_inv_start [OF this] end_inv_core [OF _ assms] assms show ?thesis
    by (simp add: handleSubmit_def is_ending_def)
qed

lemma end_inv_event:
  assumes "end_inv s"
  shows "end_inv (console_event num ev s)"
proof (cases "quiet_event ev")
  case True
  show ?thesis by (rule end_inv_core [OF core_quiet [OF True] assms])
next
  case False
  from loud_event [OF this] end_inv_answer [OF assms] end_inv_submit [OF assms] end_inv_confirm [OF assms] assms
  show ?thesis
    by (intro end_inv_core [OF console_core_event]) (auto simp: page_handles_def click_def)
qed

lemma end_inv_run: "end_inv (console_run num evs (initial_console a h))"
proof (induction evs rule: rev_induct)
  case Nil
  show ?case
    by (simp add: console_run_def initial_console_def end_inv_def start_task_def endings_def is_ending_def Let_def split: prod.splits)
next
  case (snoc ev evs)
  from end_inv_event [OF this] show ?case by (simp add: run_append)
qed

text \<open>
  C31: a session is ended once at a time, and every end request gives the dialog back. In every run
  there is an end request under way exactly while the page shows that it is ending the session,
  and never two. When its answer comes, whatever it says, the page no longer shows so, and it
  takes the session as ended if and only if the server marked it as ended (or it was so before).
\<close>

theorem end_requests_are_exclusive:
  "let s = console_run num evs (initial_console a h) in
     length (endings (co_tasks s)) = (if co_ending s then 1 else 0) \<and>
     (case map_of (co_tasks s) i of
        Some (EndingSession sid) \<Rightarrow>
          let s' = console_event num (AnswerTo i ans) s in
            \<not> co_ending s' \<and> endings (co_tasks s') = [] \<and>
            (co_ended_locally s' \<longleftrightarrow> co_ended_locally s \<or>
               (\<exists>info. endSession num sid ans = Inr info \<and> iw_status info = ''ended''))
      | _ \<Rightarrow> True)"
proof -
  define s where "s = console_run num evs (initial_console a h)"
  have inv: "end_inv s" by (simp add: s_def end_inv_run)
  show ?thesis
  proof (cases "map_of (co_tasks s) i")
    case None
    with inv show ?thesis by (simp add: end_inv_def flip: s_def)
  next
    case (Some t)
    show ?thesis
    proof (cases "is_ending t")
      case False
      with inv Some show ?thesis by (cases t) (simp_all add: end_inv_def is_ending_def flip: s_def)
    next
      case True
      then obtain sid where t: "t = EndingSession sid" by (cases t) (simp_all add: is_ending_def)
      let ?s' = "console_event num (AnswerTo i ans) s"
      have c: "page_core ?s' = page_core ((finish_task i s)\<lparr>co_ending_ref := False, co_ending := False\<rparr>)"
        using Some t by (simp add: console_core_event page_handles_def task_answered_def Let_def core_end_answered)
      then have "\<not> co_ending ?s'" by (simp add: page_core_def)
      moreover from this end_inv_event [OF inv, of num "AnswerTo i ans"] have "endings (co_tasks ?s') = []"
        by (simp add: end_inv_def)
      moreover have "co_ended_locally ?s' \<longleftrightarrow> co_ended_locally s \<or>
          (\<exists>info. endSession num sid ans = Inr info \<and> iw_status info = ''ended'')"
        using Some t
        by (auto simp: console_event_def page_handles_def task_answered_def session_end_answered_def call_hook_def
            ended_effect_def finish_task_def Let_def split: sum.splits)
      ultimately show ?thesis using Some t inv by (simp add: Let_def end_inv_def flip: s_def)
    qed
  qed
qed

end
