(* ===== verification/StudentPage.thy ===== *)
theory StudentPage
  imports StudentEntry StudentSocket RecordingTasks
begin

text \<open>
  \<open>apps/student/src/App.tsx\<close> and \<open>useMediaRecorder.ts\<close>: the page that connects the login, the socket
  hook and the recording controller. The hook is a part of the state, and so is what the controller
  published last; what the page asks of the controller is recorded as calls, in their order, with
  the controller's own events (\<open>RecordingTasks\<close>) as their names. Effects run after a rendering that
  changed what they depend on: first the cleanups of all that run, then their bodies, in the order of
  the code. Between two renderings everything else goes on. \<open>num\<close> is the text of a number.
\<close>

section \<open>What is played\<close>

record playback_clip =
  pc_clipId :: string
  pc_src :: "string option"
  pc_label :: string
  pc_loop :: bool

definition names_ambient :: "clip_entry \<Rightarrow> bool" where
  "names_ambient clip \<longleftrightarrow>
     (let t = toLowerCase (ce_clip_id clip @ '' '' @ ce_intent clip)
      in text_within ''idle'' t \<or> text_within ''loop'' t)"

definition findIdleClip :: "clip_entry list \<Rightarrow> clip_entry option" where
  "findIdleClip clips = List.find names_ambient clips"

text \<open>\<open>config.ts\<close>: \<open>base\<close> is the configured media host, and \<open>enc\<close> is \<open>encodeURIComponent\<close>.\<close>

definition studentMediaUrl :: "string \<Rightarrow> (string \<Rightarrow> string) \<Rightarrow> string \<Rightarrow> string \<Rightarrow> string" where
  "studentMediaUrl base enc caseId file =
     (if startsWith file ''http://'' \<or> startsWith file ''https://'' \<or> startsWith file ''/'' then file
      else base @ ''/cases/'' @ enc caseId @ ''/'' @ file)"

definition toPlaybackClip ::
  "(string \<Rightarrow> string \<Rightarrow> string) \<Rightarrow> string \<Rightarrow> clip_entry option \<Rightarrow> bool \<Rightarrow> playback_clip option" where
  "toPlaybackClip url caseId clip loop =
     map_option (\<lambda>c. \<lparr>pc_clipId = ce_clip_id c, pc_src = (if ce_file c \<noteq> [] then Some (url caseId (ce_file c)) else None),
       pc_label = (if ce_text c \<noteq> [] then ce_text c else ce_clip_id c), pc_loop = loop\<rparr>) clip"

section \<open>State\<close>

record joined_student =
  js_sessionId :: string
  js_caseId :: string
  js_clips :: "clip_entry list"
  js_accessToken :: string
  js_restored :: bool
  js_uploadOnly :: bool

datatype entry_error = EntryFailed cause | NotStudent string | LoginRejected

text \<open>A login under way waits for its next answer.\<close>

datatype page_task =
    Joining string | JoinedAwaitsSession join_result | JoinedAwaitsClips join_result session_info
  | LoggingIn string | Resuming string string
  | RestoringLogin joined_session | FindingUploads

text \<open>Who asks for the start of a take.\<close>

datatype start_reason = Automatic | Button | CameraRetry

datatype recorder_call = StartTake start_reason string | Asks page_event

text \<open>What a rendering saw, as far as effects depend on it.\<close>

record rendering =
  rd_joined :: "joined_student option"
  rd_restore_pending :: bool
  rd_status :: connection_status
  rd_admitted :: bool
  rd_notice :: "close_kind option"
  rd_closed_reason :: "string option"
  rd_view :: recording_view

record page =
  sp_hook :: student
  sp_auth :: auth
  sp_view :: recording_view
  sp_joined :: "joined_student option"
  sp_join_pending :: bool
  sp_join_error :: "entry_error option"
  sp_restore_pending :: bool
  sp_restore_error :: bool
  sp_recoveries :: "string list"
  sp_recovery_checked :: bool
  sp_prefer_join :: bool
  sp_camera_visible :: bool
  sp_attempted :: bool
  sp_previous :: recorder_status
  sp_rendered :: "rendering option"
  sp_restore_run :: "nat option"
  sp_recovery_run :: "nat option"
  sp_retrying :: "string option"
  sp_tasks :: "(nat \<times> page_task) list"
  sp_next :: nat
  sp_calls :: "recorder_call list"

definition begin_task :: "page_task \<Rightarrow> page \<Rightarrow> page" where
  "begin_task t s = s\<lparr>sp_tasks := sp_tasks s @ [(sp_next s, t)], sp_next := sp_next s + 1\<rparr>"

definition ask_recorder :: "recorder_call \<Rightarrow> page \<Rightarrow> page" where
  "ask_recorder c s = s\<lparr>sp_calls := sp_calls s @ [c]\<rparr>"

definition initial_page :: "auth \<Rightarrow> student \<Rightarrow> recording_view \<Rightarrow> page" where
  "initial_page a h v =
     (let (stored, a1) = readJoinedSession a
      in \<lparr>sp_hook = h, sp_auth = a1, sp_view = v, sp_joined = None, sp_join_pending = False, sp_join_error = None,
          sp_restore_pending = (map_option j_role stored = Some ''student''), sp_restore_error = False,
          sp_recoveries = [], sp_recovery_checked = False, sp_prefer_join = False, sp_camera_visible = True,
          sp_attempted = False, sp_previous = Idle, sp_rendered = None, sp_restore_run = None,
          sp_recovery_run = None, sp_retrying = None, sp_tasks = [], sp_next = 0, sp_calls = []\<rparr>)"

section \<open>What the page derives\<close>

datatype screen = RestoringScreen | UnreachableScreen | CheckingScreen | UploadForm | JoinForm | SessionScreen

definition screen :: "page \<Rightarrow> screen" where
  "screen s =
     (if sp_restore_pending s \<or> sp_joined s = None then
        if sp_restore_pending s \<and> sp_joined s = None then RestoringScreen
        else if sp_restore_error s \<and> sp_joined s = None then UnreachableScreen
        else if \<not> sp_recovery_checked s then CheckingScreen
        else if \<not> sp_prefer_join s \<and> sp_recoveries s \<noteq> [] then UploadForm
        else JoinForm
      else SessionScreen)"

definition live_id :: "joined_student option \<Rightarrow> string option" where
  "live_id joined = (case joined of Some j \<Rightarrow> if js_uploadOnly j then None else Some (js_sessionId j) | None \<Rightarrow> None)"

definition liveSessionId :: "rendering \<Rightarrow> string option" where
  "liveSessionId r = live_id (rd_joined r)"

definition socket_login :: "rendering \<Rightarrow> string option \<times> string option" where
  "socket_login r =
     (case rd_joined r of
        Some j \<Rightarrow> if js_uploadOnly j then (None, None) else (Some (js_sessionId j), Some (js_accessToken j))
      | None \<Rightarrow> (None, None))"

definition recorder_session :: "rendering \<Rightarrow> string option" where
  "recorder_session r = map_option js_sessionId (rd_joined r)"

definition rendering_of :: "page \<Rightarrow> rendering" where
  "rendering_of s =
     \<lparr>rd_joined = sp_joined s, rd_restore_pending = sp_restore_pending s, rd_status = h_status (sp_hook s),
      rd_admitted = shown_admitted (sp_hook s), rd_notice = h_notice (sp_hook s),
      rd_closed_reason = h_closed_reason (sp_hook s), rd_view = sp_view s\<rparr>"

text \<open>The clips that the stage is given.\<close>

definition page_idleClip :: "(string \<Rightarrow> string \<Rightarrow> string) \<Rightarrow> page \<Rightarrow> playback_clip option" where
  "page_idleClip url s =
     (case sp_joined s of None \<Rightarrow> None | Some j \<Rightarrow> toPlaybackClip url (js_caseId j) (findIdleClip (js_clips j)) True)"

definition clipLookup :: "clip_entry list \<Rightarrow> string \<Rightarrow> clip_entry option" where
  "clipLookup clips clipId = List.find (\<lambda>c. ce_clip_id c = clipId) (rev clips)"

definition page_activeClip :: "(string \<Rightarrow> string \<Rightarrow> string) \<Rightarrow> page \<Rightarrow> playback_clip option" where
  "page_activeClip url s =
     (case (sp_joined s, st_current_clip (sp_hook s)) of
        (Some j, Some clipId) \<Rightarrow>
          (case clipLookup (js_clips j) clipId of
             None \<Rightarrow> Some \<lparr>pc_clipId = clipId, pc_src = None, pc_label = clipId, pc_loop = False\<rparr>
           | Some clip \<Rightarrow> toPlaybackClip url (js_caseId j) (Some clip) False)
      | _ \<Rightarrow> None)"

section \<open>Entering\<close>

definition entry_failed :: "entry_error \<Rightarrow> page \<Rightarrow> page" where
  "entry_failed e s = s\<lparr>sp_join_error := Some e, sp_join_pending := False\<rparr>"

definition handleJoin :: "string \<Rightarrow> page \<Rightarrow> page" where
  "handleJoin sessionId s = begin_task (Joining sessionId) (s\<lparr>sp_join_pending := True, sp_join_error := None\<rparr>)"

definition student_join_answered :: "(cause + join_result) \<times> auth \<Rightarrow> page \<Rightarrow> page" where
  "student_join_answered r s =
     (let s1 = s\<lparr>sp_auth := snd r\<rparr>
      in case fst r of
        Inl e \<Rightarrow> entry_failed (EntryFailed e) s1
      | Inr join \<Rightarrow>
          if jr_role join \<noteq> ''student'' then
            entry_failed (NotStudent (jr_role join))
              (s1\<lparr>sp_auth := clearJoinedSession (Some (jr_session_id join)) (sp_auth s1)\<rparr>)
          else begin_task (JoinedAwaitsSession join) s1)"

definition join_session_answered :: "join_result \<Rightarrow> cause + session_info \<Rightarrow> page \<Rightarrow> page" where
  "join_session_answered join r s =
     (case r of Inl e \<Rightarrow> entry_failed (EntryFailed e) s | Inr session \<Rightarrow> begin_task (JoinedAwaitsClips join session) s)"

definition remember_student :: "string \<Rightarrow> string \<Rightarrow> page \<Rightarrow> page" where
  "remember_student sid token s =
     s\<lparr>sp_auth := rememberJoinedSession \<lparr>j_sessionId = sid, j_role = ''student'', j_accessToken = token\<rparr> (sp_auth s)\<rparr>"

definition join_clips_answered :: "join_result \<Rightarrow> session_info \<Rightarrow> cause + clip_entry list \<Rightarrow> page \<Rightarrow> page" where
  "join_clips_answered join session r s =
     (case r of
        Inl e \<Rightarrow> entry_failed (EntryFailed e) s
      | Inr clips \<Rightarrow>
          (remember_student (in_session_id session) (jr_access_token join) s)
            \<lparr>sp_joined := Some \<lparr>js_sessionId = in_session_id session, js_caseId = in_case_id session, js_clips = clips,
               js_accessToken = jr_access_token join, js_restored = False, js_uploadOnly = False\<rparr>,
             sp_join_pending := False\<rparr>)"

definition upload_only :: "string \<Rightarrow> string \<Rightarrow> joined_student" where
  "upload_only sid token =
     \<lparr>js_sessionId = sid, js_caseId = [], js_clips = [], js_accessToken = token, js_restored = True, js_uploadOnly = True\<rparr>"

definition handleUploadLogin :: "string \<Rightarrow> page \<Rightarrow> page" where
  "handleUploadLogin sessionId s =
     begin_task (LoggingIn sessionId) (s\<lparr>sp_join_pending := True, sp_join_error := None\<rparr>)"

definition upload_login_answered :: "string \<Rightarrow> (cause + upload_login_result) \<times> auth \<Rightarrow> page \<Rightarrow> page" where
  "upload_login_answered sid r s =
     (let s1 = s\<lparr>sp_auth := snd r\<rparr>
      in case fst r of
        Inl e \<Rightarrow> entry_failed (EntryFailed e) s1
      | Inr login \<Rightarrow>
          begin_task (Resuming sid (ul_access_token login)) (ask_recorder (Asks (UploadCode sid (h_now (sp_hook s1)))) s1))"

definition resumed :: "string \<Rightarrow> string \<Rightarrow> cause option \<Rightarrow> page \<Rightarrow> page" where
  "resumed sid token failure s =
     (case failure of
        Some e \<Rightarrow> entry_failed (EntryFailed e) s
      | None \<Rightarrow> (remember_student sid token s)\<lparr>sp_joined := Some (upload_only sid token), sp_join_pending := False\<rparr>)"

definition restored_as :: "restored \<Rightarrow> page \<Rightarrow> page" where
  "restored_as r s =
     (let s1 = (case r of
          restored.Live sid caseId clips token \<Rightarrow>
            s\<lparr>sp_restore_error := False, sp_joined := Some \<lparr>js_sessionId = sid, js_caseId = caseId, js_clips = clips,
              js_accessToken = token, js_restored = True, js_uploadOnly = False\<rparr>\<rparr>
        | UploadOnly sid token \<Rightarrow> s\<lparr>sp_restore_error := False, sp_joined := Some (upload_only sid token)\<rparr>
        | RestoreRejected \<Rightarrow> s\<lparr>sp_restore_error := False, sp_join_error := Some LoginRejected\<rparr>
        | RestoreUnavailable \<Rightarrow> s\<lparr>sp_restore_error := True\<rparr>)
      in s1\<lparr>sp_restore_pending := False\<rparr>)"

text \<open>A restore ends whether it was cancelled or not; only then the page takes no notice.\<close>

definition restore_ended :: "nat \<Rightarrow> restored \<times> auth \<Rightarrow> page \<Rightarrow> page" where
  "restore_ended i r s =
     (let s1 = s\<lparr>sp_auth := snd r\<rparr> in if sp_restore_run s \<noteq> Some i then s1 else restored_as (fst r) s1)"

definition uploads_found :: "nat \<Rightarrow> string + string list \<Rightarrow> page \<Rightarrow> page" where
  "uploads_found i r s =
     (if sp_recovery_run s \<noteq> Some i then s
      else s\<lparr>sp_recoveries := (case r of Inr found \<Rightarrow> found | Inl e \<Rightarrow> []), sp_recovery_checked := True\<rparr>)"

definition page_answered :: "(rat \<Rightarrow> string) \<Rightarrow> nat \<Rightarrow> http_answer \<Rightarrow> page \<Rightarrow> page" where
  "page_answered num i ans s =
     (case map_of (sp_tasks s) i of
        None \<Rightarrow> s
      | Some t \<Rightarrow>
          let s1 = s\<lparr>sp_tasks := filter (\<lambda>e. fst e \<noteq> i) (sp_tasks s)\<rparr>
          in case t of
            Joining sid \<Rightarrow> student_join_answered (joinSession num sid ans (sp_auth s1)) s1
          | JoinedAwaitsSession join \<Rightarrow> join_session_answered join (fetchSession num (jr_session_id join) ans) s1
          | JoinedAwaitsClips join session \<Rightarrow> join_clips_answered join session (fetchClipManifest num ans) s1
          | LoggingIn sid \<Rightarrow> upload_login_answered sid (uploadLogin sid ans (sp_auth s1)) s1
          | _ \<Rightarrow> s)"

section \<open>Effects\<close>

definition changed :: "(rendering \<Rightarrow> 'a) \<Rightarrow> rendering option \<Rightarrow> rendering \<Rightarrow> bool" where
  "changed f old new \<longleftrightarrow> (case old of None \<Rightarrow> True | Some r \<Rightarrow> f r \<noteq> f new)"

type_synonym page_effect = "rendering option \<Rightarrow> rendering \<Rightarrow> page \<Rightarrow> page"

text \<open>The effect of the socket hook, and the binding of the recorder to its session.\<close>

definition socket_cleanup :: page_effect where
  "socket_cleanup old new s =
     (if old \<noteq> None \<and> changed socket_login old new \<and> \<not> h_disposed (sp_hook s)
      then s\<lparr>sp_hook := student_event socket_event.Unmount (sp_hook s)\<rparr> else s)"

definition socket_effect :: page_effect where
  "socket_effect old new s =
     (if changed socket_login old new
      then s\<lparr>sp_hook := student_event (Mount (fst (socket_login new)) (snd (socket_login new))) (sp_hook s)\<rparr> else s)"

definition bind_cleanup :: page_effect where
  "bind_cleanup old new s =
     (case old of
        None \<Rightarrow> s
      | Some r \<Rightarrow> if recorder_session r \<noteq> None \<and> recorder_session r \<noteq> recorder_session new
          then ask_recorder (Asks page_event.Unmount) s else s)"

definition bind_effect :: page_effect where
  "bind_effect old new s =
     (if changed recorder_session old new
      then (case recorder_session new of None \<Rightarrow> s | Some sid \<Rightarrow> ask_recorder (Asks (Bind sid)) s) else s)"

text \<open>A camera that failed is tried again, every five seconds and when a device appears.\<close>

definition retry_effect :: "bool \<Rightarrow> page_effect" where
  "retry_effect errorIsRetryable old new s =
     (if changed (\<lambda>r. (recorder_session r, v_status (rd_view r))) old new
      then s\<lparr>sp_retrying := (if v_status (rd_view new) = ErrorStatus \<and> errorIsRetryable then recorder_session new else None)\<rparr>
      else s)"

text \<open>The restore of a saved login, and the search for unfinished uploads. A cleanup forgets the run.\<close>

definition restore_effect :: page_effect where
  "restore_effect old new s =
     (if changed rd_restore_pending old new
      then
        let s0 = s\<lparr>sp_restore_run := None\<rparr>
        in if \<not> rd_restore_pending new then s0
           else
             let (stored, a) = readJoinedSession (sp_auth s0); s1 = s0\<lparr>sp_auth := a\<rparr>
             in (case stored of
                   None \<Rightarrow> s1\<lparr>sp_restore_pending := False\<rparr>
                 | Some j \<Rightarrow>
                     if j_role j \<noteq> ''student'' then s1\<lparr>sp_restore_pending := False\<rparr>
                     else begin_task (RestoringLogin j) (s1\<lparr>sp_restore_run := Some (sp_next s1)\<rparr>))
      else s)"

definition recovery_effect :: page_effect where
  "recovery_effect old new s =
     (if changed (\<lambda>r. (rd_restore_pending r, rd_joined r)) old new
      then
        let s0 = s\<lparr>sp_recovery_run := None\<rparr>
        in if rd_restore_pending new \<or> rd_joined new \<noteq> None then s0
           else
             let (stored, a) = readJoinedSession (sp_auth s0); s1 = s0\<lparr>sp_auth := a\<rparr>
             in if stored \<noteq> None then s1
                else begin_task FindingUploads (s1\<lparr>sp_recovery_checked := False, sp_recovery_run := Some (sp_next s1)\<rparr>)
      else s)"

text \<open>Only an admitted socket may start a take.\<close>

definition admission_deps :: "rendering \<Rightarrow> string option \<times> bool" where
  "admission_deps r = (liveSessionId r, rd_admitted r)"

definition admission_cleanup :: page_effect where
  "admission_cleanup old new s =
     (case old of
        None \<Rightarrow> s
      | Some r \<Rightarrow> (case liveSessionId r of
          None \<Rightarrow> s
        | Some sid \<Rightarrow> if admission_deps r \<noteq> admission_deps new then ask_recorder (Asks (Admission sid False)) s else s))"

definition admission_effect :: page_effect where
  "admission_effect old new s =
     (if changed admission_deps old new
      then (case liveSessionId new of None \<Rightarrow> s | Some sid \<Rightarrow> ask_recorder (Asks (Admission sid (rd_admitted new))) s) else s)"

definition may_autostart :: "rendering \<Rightarrow> bool" where
  "may_autostart r \<longleftrightarrow>
     (case rd_joined r of
        None \<Rightarrow> False
      | Some j \<Rightarrow> \<not> js_restored j \<and> rd_admitted r \<and> v_take_check (rd_view r) = TakeFree \<and> v_can_start (rd_view r))"

definition autostart_effect :: page_effect where
  "autostart_effect old new s =
     (if changed (\<lambda>r. (rd_joined r, v_can_start (rd_view r), v_take_check (rd_view r), rd_admitted r)) old new \<and>
         may_autostart new \<and> \<not> sp_attempted s
      then ask_recorder (StartTake Automatic (js_sessionId (the (rd_joined new)))) (s\<lparr>sp_attempted := True\<rparr>) else s)"

definition replaced_effect :: page_effect where
  "replaced_effect old new s =
     (if changed (\<lambda>r. (liveSessionId r, rd_notice r, rd_status r)) old new \<and>
         rd_status new = CsClosed \<and> rd_notice new = Some CkReplaced
      then (case liveSessionId new of None \<Rightarrow> s | Some sid \<Rightarrow> ask_recorder (Asks (Replaced sid)) s) else s)"

definition revoked_effect :: page_effect where
  "revoked_effect old new s =
     (if changed (\<lambda>r. (liveSessionId r, rd_closed_reason r, rd_status r)) old new \<and>
         rd_status new = CsClosed \<and> isRevokedCloseReason (rd_closed_reason new)
      then (case liveSessionId new of None \<Rightarrow> s | Some sid \<Rightarrow> ask_recorder (Asks (Revoked sid)) s) else s)"

text \<open>The server hears of the recorder's transitions.\<close>

fun status_name :: "recorder_status \<Rightarrow> string" where
  "status_name Idle = ''idle''"
| "status_name Requesting = ''requesting''"
| "status_name Recording = ''recording''"
| "status_name Stopping = ''stopping''"
| "status_name Stopped = ''stopped''"
| "status_name ErrorStatus = ''error''"
| "status_name Unavailable = ''unavailable''"

definition report_effect :: page_effect where
  "report_effect old new s =
     (let previous = sp_previous s; st = v_status (rd_view new);
          s1 = s\<lparr>sp_previous := st\<rparr>;
          s2 = (if previous \<noteq> Recording \<and> st = Recording
            then s1\<lparr>sp_hook := student_event (App SendRecordingStarted) (sp_hook s1)\<rparr> else s1)
      in if (previous = Recording \<or> previous = Stopping) \<and> st \<in> {Stopped, ErrorStatus, Unavailable}
         then s2\<lparr>sp_hook := student_event (App (SendRecordingStopped (Some (status_name st)))) (sp_hook s2)\<rparr> else s2)"

definition page_render :: "bool \<Rightarrow> page \<Rightarrow> page" where
  "page_render errorIsRetryable s =
     (let old = sp_rendered s; new = rendering_of s;
          s1 = admission_cleanup old new (bind_cleanup old new (socket_cleanup old new (s\<lparr>sp_rendered := Some new\<rparr>)));
          s2 = retry_effect errorIsRetryable old new (bind_effect old new (socket_effect old new s1));
          s3 = admission_effect old new (recovery_effect old new (restore_effect old new s2))
      in report_effect old new (revoked_effect old new (replaced_effect old new (autostart_effect old new s3))))"

section \<open>Events\<close>

text \<open>
  A button or a form is reached on the screen that shows it. \<open>Rendered\<close> has the answer that the
  controller gives if the page asks whether its error is retryable; a restore ends with the answers
  to its probes.
\<close>

datatype student_page_event =
    SubmitJoin string string | SubmitUploadCode string string
  | ClickRetryRestore | ClickJoinAnother | ClickResumeUpload
  | ClickToggleCamera | ClickStart | ClickStop | ClickRetryFailed
  | AnswerTo nat http_answer
  | Resumed nat "cause option"
  | RestoreEnds nat http_answer http_answer http_answer
  | UploadsFound nat "string + string list"
  | Published recording_view
  | CameraRetryDue
  | HookCall student_call
  | Rendered bool
  | FromBrowser "student_call socket_event"

definition offers_start :: "rendering \<Rightarrow> bool" where
  "offers_start r \<longleftrightarrow>
     (case rd_joined r of
        None \<Rightarrow> False
      | Some j \<Rightarrow> \<not> js_restored j \<and> rd_admitted r \<and> v_can_start (rd_view r) \<and> v_status (rd_view r) \<noteq> Recording)"

definition click_recorder :: "student_page_event \<Rightarrow> rendering \<Rightarrow> page \<Rightarrow> page" where
  "click_recorder ev r s =
     (case ev of
        ClickStart \<Rightarrow> if offers_start r then ask_recorder (StartTake Button (js_sessionId (the (rd_joined r)))) s else s
      | ClickStop \<Rightarrow> if rd_joined r \<noteq> None \<and> v_status (rd_view r) = Recording then ask_recorder (Asks PressStop) s else s
      | ClickRetryFailed \<Rightarrow> if rd_joined r \<noteq> None \<and> v_failed (rd_view r) \<noteq> 0 then ask_recorder (Asks Retry) s else s
      | _ \<Rightarrow> s)"

definition calls_of_parts :: "student_call \<Rightarrow> bool" where
  "calls_of_parts c = (case c of SendRecordingStarted \<Rightarrow> False | SendRecordingStopped r \<Rightarrow> False | _ \<Rightarrow> True)"

definition outside :: "student_call socket_event \<Rightarrow> bool" where
  "outside ev = (case ev of Mount sid token \<Rightarrow> False | socket_event.Unmount \<Rightarrow> False | App c \<Rightarrow> False | _ \<Rightarrow> True)"

definition page_handles_event :: "(rat \<Rightarrow> string) \<Rightarrow> student_page_event \<Rightarrow> page \<Rightarrow> page" where
  "page_handles_event num ev s =
     (case ev of
        SubmitJoin sid code \<Rightarrow>
          if screen s = JoinForm \<and> \<not> sp_join_pending s \<and> js_trim sid \<noteq> [] \<and> js_trim code \<noteq> []
          then handleJoin (js_trim sid) s else s
      | SubmitUploadCode sid code \<Rightarrow>
          if screen s = UploadForm \<and> \<not> sp_join_pending s \<and> sid \<noteq> [] \<and> js_trim code \<noteq> [] then handleUploadLogin sid s else s
      | ClickRetryRestore \<Rightarrow>
          if screen s = UnreachableScreen then s\<lparr>sp_restore_error := False, sp_restore_pending := True\<rparr> else s
      | ClickJoinAnother \<Rightarrow>
          if screen s = UploadForm \<and> \<not> sp_join_pending s then s\<lparr>sp_join_error := None, sp_prefer_join := True\<rparr> else s
      | ClickResumeUpload \<Rightarrow>
          if screen s = JoinForm \<and> \<not> sp_join_pending s \<and> sp_recoveries s \<noteq> []
          then s\<lparr>sp_join_error := None, sp_prefer_join := False\<rparr> else s
      | ClickToggleCamera \<Rightarrow> s\<lparr>sp_camera_visible := \<not> sp_camera_visible s\<rparr>
      | AnswerTo i ans \<Rightarrow> page_answered num i ans s
      | Resumed i failure \<Rightarrow>
          (case map_of (sp_tasks s) i of
             Some (Resuming sid token) \<Rightarrow> resumed sid token failure (s\<lparr>sp_tasks := filter (\<lambda>e. fst e \<noteq> i) (sp_tasks s)\<rparr>)
           | _ \<Rightarrow> s)
      | RestoreEnds i sa ca ua \<Rightarrow>
          (case map_of (sp_tasks s) i of
             Some (RestoringLogin j) \<Rightarrow>
               restore_ended i (restoreStudentSession j (fetchSession num (j_sessionId j) sa) (fetchClipManifest num ca)
                 (upload_status_of ua) (sp_auth s)) (s\<lparr>sp_tasks := filter (\<lambda>e. fst e \<noteq> i) (sp_tasks s)\<rparr>)
           | _ \<Rightarrow> s)
      | UploadsFound i r \<Rightarrow>
          (case map_of (sp_tasks s) i of
             Some FindingUploads \<Rightarrow> uploads_found i r (s\<lparr>sp_tasks := filter (\<lambda>e. fst e \<noteq> i) (sp_tasks s)\<rparr>)
           | _ \<Rightarrow> s)
      | Published v \<Rightarrow> s\<lparr>sp_view := v\<rparr>
      | CameraRetryDue \<Rightarrow> (case sp_retrying s of None \<Rightarrow> s | Some sid \<Rightarrow> ask_recorder (StartTake CameraRetry sid) s)
      | HookCall c \<Rightarrow> if calls_of_parts c then s\<lparr>sp_hook := student_event (App c) (sp_hook s)\<rparr> else s
      | Rendered b \<Rightarrow> page_render b s
      | FromBrowser e \<Rightarrow> if outside e \<and> can_happen e (sp_hook s) then s\<lparr>sp_hook := student_event e (sp_hook s)\<rparr> else s
      | _ \<Rightarrow> (case sp_rendered s of None \<Rightarrow> s | Some r \<Rightarrow> click_recorder ev r s))"

text \<open>Until its first rendering there is nothing on the page that anything could happen to.\<close>

definition student_page_event :: "(rat \<Rightarrow> string) \<Rightarrow> student_page_event \<Rightarrow> page \<Rightarrow> page" where
  "student_page_event num ev s =
     (if sp_rendered s = None \<and> (case ev of Rendered b \<Rightarrow> False | _ \<Rightarrow> True) then s else page_handles_event num ev s)"

definition student_page_run :: "(rat \<Rightarrow> string) \<Rightarrow> student_page_event list \<Rightarrow> page \<Rightarrow> page" where
  "student_page_run num = fold (student_page_event num)"

section \<open>What the recorder hears\<close>

text \<open>What the controller is told about the admission of sessions, and whether each start came to an admitted one.\<close>

definition admits :: "recorder_call \<Rightarrow> string set \<Rightarrow> string set" where
  "admits c A =
     (case c of
        Asks e \<Rightarrow> (case e of Admission sid b \<Rightarrow> if b then insert sid A else A - {sid} | _ \<Rightarrow> A)
      | StartTake why sid \<Rightarrow> A)"

definition admitted_by :: "recorder_call list \<Rightarrow> string set" where
  "admitted_by calls = fold admits calls {}"

fun starts_gated :: "string set \<Rightarrow> recorder_call list \<Rightarrow> bool" where
  "starts_gated A [] \<longleftrightarrow> True"
| "starts_gated A (c # cs) \<longleftrightarrow>
     (case c of StartTake why sid \<Rightarrow> why = CameraRetry \<or> sid \<in> A | Asks e \<Rightarrow> True) \<and> starts_gated (admits c A) cs"

fun is_automatic :: "recorder_call \<Rightarrow> bool" where
  "is_automatic (StartTake why sid) \<longleftrightarrow> why = Automatic"
| "is_automatic (Asks e) \<longleftrightarrow> False"

definition shown_live :: "rendering option \<Rightarrow> string set" where
  "shown_live old =
     (case old of
        None \<Rightarrow> {}
      | Some r \<Rightarrow> (case liveSessionId r of Some sid \<Rightarrow> if rd_admitted r then {sid} else {} | None \<Rightarrow> {}))"

lemma gated_append: "starts_gated A (xs @ ys) \<longleftrightarrow> starts_gated A xs \<and> starts_gated (fold admits xs A) ys"
  by (induction xs arbitrary: A) auto

lemma admitted_append: "admitted_by (xs @ ys) = fold admits ys (admitted_by xs)"
  by (simp add: admitted_by_def)

named_theorems page_effects \<open>what an effect of the page asks and keeps\<close>

text \<open>The calls of the effects of a rendering: on leaving the last one, and on entering the new one.\<close>

definition opt_call :: "bool \<Rightarrow> (string \<Rightarrow> recorder_call) \<Rightarrow> string option \<Rightarrow> recorder_call list" where
  "opt_call b f sid = (case sid of Some i \<Rightarrow> if b then [f i] else [] | None \<Rightarrow> [])"

definition unbinds :: "rendering option \<Rightarrow> rendering \<Rightarrow> recorder_call list" where
  "unbinds old new =
     (case old of
        None \<Rightarrow> []
      | Some r \<Rightarrow> if recorder_session r \<noteq> None \<and> recorder_session r \<noteq> recorder_session new
          then [Asks page_event.Unmount] else [])"

definition unadmits :: "rendering option \<Rightarrow> rendering \<Rightarrow> recorder_call list" where
  "unadmits old new =
     (case old of
        None \<Rightarrow> []
      | Some r \<Rightarrow> opt_call (admission_deps r \<noteq> admission_deps new) (\<lambda>i. Asks (Admission i False)) (liveSessionId r))"

definition closes :: "rendering option \<Rightarrow> rendering \<Rightarrow> recorder_call list" where
  "closes old new =
     opt_call (changed (\<lambda>r. (liveSessionId r, rd_notice r, rd_status r)) old new \<and>
         rd_status new = CsClosed \<and> rd_notice new = Some CkReplaced) (Asks \<circ> Replaced) (liveSessionId new) @
     opt_call (changed (\<lambda>r. (liveSessionId r, rd_closed_reason r, rd_status r)) old new \<and>
         rd_status new = CsClosed \<and> isRevokedCloseReason (rd_closed_reason new)) (Asks \<circ> Revoked) (liveSessionId new)"

definition autostarts :: "rendering option \<Rightarrow> rendering \<Rightarrow> page \<Rightarrow> bool" where
  "autostarts old new s \<longleftrightarrow>
     changed (\<lambda>r. (rd_joined r, v_can_start (rd_view r), v_take_check (rd_view r), rd_admitted r)) old new \<and>
     may_autostart new \<and> \<not> sp_attempted s"

lemma effect_calls [page_effects]:
  "sp_calls (socket_cleanup old new s) = sp_calls s" "sp_calls (socket_effect old new s) = sp_calls s"
  "sp_calls (bind_cleanup old new s) = sp_calls s @ unbinds old new"
  "sp_calls (bind_effect old new s) = sp_calls s @ opt_call (changed recorder_session old new) (Asks \<circ> Bind) (recorder_session new)"
  "sp_calls (retry_effect b old new s) = sp_calls s" "sp_calls (restore_effect old new s) = sp_calls s"
  "sp_calls (recovery_effect old new s) = sp_calls s" "sp_calls (report_effect old new s) = sp_calls s"
  "sp_calls (admission_cleanup old new s) = sp_calls s @ unadmits old new"
  "sp_calls (admission_effect old new s) = sp_calls s @
     opt_call (changed admission_deps old new) (\<lambda>i. Asks (Admission i (rd_admitted new))) (liveSessionId new)"
  "sp_calls (autostart_effect old new s) = sp_calls s @
     (if autostarts old new s then [StartTake Automatic (js_sessionId (the (rd_joined new)))] else [])"
  by (simp_all add: socket_cleanup_def socket_effect_def bind_cleanup_def bind_effect_def retry_effect_def restore_effect_def
      recovery_effect_def report_effect_def admission_cleanup_def admission_effect_def autostart_effect_def
      ask_recorder_def begin_task_def opt_call_def unbinds_def unadmits_def autostarts_def Let_def split_beta split: option.split)

lemma closing_calls [page_effects]:
  "sp_calls (revoked_effect old new (replaced_effect old new s)) = sp_calls s @ closes old new"
  by (cases "liveSessionId new") (auto simp: revoked_effect_def replaced_effect_def ask_recorder_def opt_call_def closes_def)

lemma effect_attempts [page_effects]:
  "sp_attempted (socket_cleanup old new s) = sp_attempted s" "sp_attempted (socket_effect old new s) = sp_attempted s"
  "sp_attempted (bind_cleanup old new s) = sp_attempted s" "sp_attempted (bind_effect old new s) = sp_attempted s"
  "sp_attempted (retry_effect b old new s) = sp_attempted s" "sp_attempted (restore_effect old new s) = sp_attempted s"
  "sp_attempted (recovery_effect old new s) = sp_attempted s" "sp_attempted (report_effect old new s) = sp_attempted s"
  "sp_attempted (admission_cleanup old new s) = sp_attempted s" "sp_attempted (admission_effect old new s) = sp_attempted s"
  "sp_attempted (autostart_effect old new s) = (sp_attempted s \<or> autostarts old new s)"
  "sp_attempted (revoked_effect old new s) = sp_attempted s" "sp_attempted (replaced_effect old new s) = sp_attempted s"
  by (auto simp: socket_cleanup_def socket_effect_def bind_cleanup_def bind_effect_def retry_effect_def restore_effect_def
      recovery_effect_def report_effect_def admission_cleanup_def admission_effect_def autostart_effect_def
      revoked_effect_def replaced_effect_def ask_recorder_def begin_task_def autostarts_def Let_def split_beta split: option.split)

lemma effect_rendered [page_effects]:
  "sp_rendered (socket_cleanup old new s) = sp_rendered s" "sp_rendered (socket_effect old new s) = sp_rendered s"
  "sp_rendered (bind_cleanup old new s) = sp_rendered s" "sp_rendered (bind_effect old new s) = sp_rendered s"
  "sp_rendered (retry_effect b old new s) = sp_rendered s" "sp_rendered (restore_effect old new s) = sp_rendered s"
  "sp_rendered (recovery_effect old new s) = sp_rendered s" "sp_rendered (report_effect old new s) = sp_rendered s"
  "sp_rendered (admission_cleanup old new s) = sp_rendered s" "sp_rendered (admission_effect old new s) = sp_rendered s"
  "sp_rendered (autostart_effect old new s) = sp_rendered s"
  "sp_rendered (revoked_effect old new s) = sp_rendered s" "sp_rendered (replaced_effect old new s) = sp_rendered s"
  by (auto simp: socket_cleanup_def socket_effect_def bind_cleanup_def bind_effect_def retry_effect_def restore_effect_def
      recovery_effect_def report_effect_def admission_cleanup_def admission_effect_def autostart_effect_def
      revoked_effect_def replaced_effect_def ask_recorder_def begin_task_def Let_def split_beta split: option.split)

lemma page_render_frame:
  "sp_rendered (page_render b s) = Some (rendering_of s)"
  "sp_attempted (page_render b s) = (sp_attempted s \<or> autostarts (sp_rendered s) (rendering_of s) s)"
  by (simp_all add: page_render_def Let_def page_effects autostarts_def)

lemma render_calls:
  "sp_calls (page_render b s) = sp_calls s @ unbinds (sp_rendered s) (rendering_of s) @
     unadmits (sp_rendered s) (rendering_of s) @
     opt_call (changed recorder_session (sp_rendered s) (rendering_of s)) (Asks \<circ> Bind) (recorder_session (rendering_of s)) @
     opt_call (changed admission_deps (sp_rendered s) (rendering_of s))
       (\<lambda>i. Asks (Admission i (rd_admitted (rendering_of s)))) (liveSessionId (rendering_of s)) @
     (if autostarts (sp_rendered s) (rendering_of s) s
      then [StartTake Automatic (js_sessionId (the (rd_joined (rendering_of s))))] else []) @
     closes (sp_rendered s) (rendering_of s)"
  by (simp add: page_render_def Let_def page_effects autostarts_def)

fun is_admission :: "recorder_call \<Rightarrow> bool" where
  "is_admission (Asks (Admission sid b)) \<longleftrightarrow> True"
| "is_admission c \<longleftrightarrow> False"

lemma admits_other: "\<not> is_admission c \<Longrightarrow> admits c A = A"
  by (cases c) (auto simp: admits_def split: page_event.split)

lemma fold_admits: "list_all (\<lambda>c. \<not> is_admission c) cs \<Longrightarrow> fold admits cs A = A"
  by (induction cs) (simp_all add: admits_other)

lemma gated_other:
  "list_all (\<lambda>c. \<not> is_admission c \<and> (case c of StartTake why sid \<Rightarrow> why = CameraRetry \<or> sid \<in> A | Asks e \<Rightarrow> True)) cs \<Longrightarrow>
     starts_gated A cs"
  by (induction cs) (auto simp: admits_other)

lemma opt_call_all: "list_all P (opt_call b f sid) \<longleftrightarrow> (b \<longrightarrow> (case sid of Some i \<Rightarrow> P (f i) | None \<Rightarrow> True))"
  by (simp add: opt_call_def split: option.split)

lemma plain_calls:
  "fold admits (unbinds old new) A = A" "starts_gated A (unbinds old new)" "filter is_automatic (unbinds old new) = []"
  "fold admits (opt_call b (Asks \<circ> Bind) sid) A = A" "starts_gated A (opt_call b (Asks \<circ> Bind) sid)"
  "filter is_automatic (opt_call b (Asks \<circ> Bind) sid) = []"
  "fold admits (closes old new) A = A" "starts_gated A (closes old new)" "filter is_automatic (closes old new) = []"
  "starts_gated A (unadmits old new)" "filter is_automatic (unadmits old new) = []"
  "starts_gated A (opt_call b (\<lambda>i. Asks (Admission i c)) sid)"
  "filter is_automatic (opt_call b (\<lambda>i. Asks (Admission i c)) sid) = []"
  by (auto simp: unbinds_def closes_def unadmits_def opt_call_def admits_def split: option.split)

lemma readmitted:
  "fold admits (opt_call (changed admission_deps old new) (\<lambda>i. Asks (Admission i (rd_admitted new))) (liveSessionId new))
     (fold admits (unadmits old new) (shown_live old)) = shown_live (Some new)"
  by (cases old)
    (auto simp: shown_live_def changed_def unadmits_def opt_call_def admits_def admission_deps_def split: option.splits if_splits)

section \<open>What every event keeps\<close>

text \<open>Only a restored login is for uploads only.\<close>

definition fits :: "joined_student option \<Rightarrow> bool" where
  "fits joined \<longleftrightarrow> (case joined of Some j \<Rightarrow> js_uploadOnly j \<longrightarrow> js_restored j | None \<Rightarrow> True)"

definition may_start_take :: "rendering option \<Rightarrow> string \<Rightarrow> bool" where
  "may_start_take shown sid \<longleftrightarrow>
     (case shown of
        None \<Rightarrow> False
      | Some r \<Rightarrow> (case rd_joined r of
          None \<Rightarrow> False
        | Some j \<Rightarrow> js_sessionId j = sid \<and> \<not> js_restored j \<and> rd_admitted r \<and> v_can_start (rd_view r)))"

definition start_allowed :: "rendering option \<Rightarrow> recorder_call \<Rightarrow> bool" where
  "start_allowed shown c \<longleftrightarrow> (case c of StartTake why sid \<Rightarrow> why = CameraRetry \<or> may_start_take shown sid | Asks e \<Rightarrow> True)"

lemma may_start_live: "may_start_take shown sid \<Longrightarrow> fits (Option.bind shown rd_joined) \<Longrightarrow> sid \<in> shown_live shown"
  by (auto simp: may_start_take_def fits_def shown_live_def liveSessionId_def live_id_def split: option.splits)

definition asks_only :: "page \<Rightarrow> page \<Rightarrow> bool" where
  "asks_only s s' \<longleftrightarrow>
     sp_rendered s' = sp_rendered s \<and> sp_attempted s' = sp_attempted s \<and> (fits (sp_joined s) \<longrightarrow> fits (sp_joined s')) \<and>
     (\<exists>cs. sp_calls s' = sp_calls s @ cs \<and>
       list_all (\<lambda>c. \<not> is_admission c \<and> \<not> is_automatic c \<and> start_allowed (sp_rendered s) c) cs)"

lemma asks_answered: "asks_only s (page_answered num i ans s)"
  by (auto simp: asks_only_def page_answered_def student_join_answered_def join_session_answered_def join_clips_answered_def
      upload_login_answered_def entry_failed_def begin_task_def remember_student_def ask_recorder_def fits_def start_allowed_def
      Let_def split: option.split page_task.split sum.split)

lemma asks_entered:
  "asks_only s (resumed sid token failure (s\<lparr>sp_tasks := ts\<rparr>))" "asks_only s (restore_ended i r (s\<lparr>sp_tasks := ts\<rparr>))"
  "asks_only s (uploads_found i found (s\<lparr>sp_tasks := ts\<rparr>))"
  by (auto simp: asks_only_def resumed_def restore_ended_def restored_as_def uploads_found_def entry_failed_def
      remember_student_def upload_only_def fits_def Let_def split: option.split restored.split)

lemma asks_click: "sp_rendered s = Some r \<Longrightarrow> asks_only s (click_recorder ev r s)"
  by (auto simp: asks_only_def click_recorder_def ask_recorder_def start_allowed_def may_start_take_def offers_start_def
      split: student_page_event.split option.splits)

lemma asks_event: "case ev of Rendered b \<Rightarrow> False | _ \<Rightarrow> True \<Longrightarrow> asks_only s (student_page_event num ev s)"
proof -
  assume other: "case ev of Rendered b \<Rightarrow> False | _ \<Rightarrow> True"
  have same: "asks_only s s" "asks_only s (s\<lparr>sp_hook := h\<rparr>)" "asks_only s (s\<lparr>sp_view := v\<rparr>)"
    "asks_only s (s\<lparr>sp_camera_visible := b\<rparr>)" "asks_only s (s\<lparr>sp_restore_error := b, sp_restore_pending := b'\<rparr>)"
    "asks_only s (s\<lparr>sp_join_error := e, sp_prefer_join := b\<rparr>)" "asks_only s (ask_recorder (StartTake CameraRetry sid) s)"
    "asks_only s (handleJoin sid s)" "asks_only s (handleUploadLogin sid s)"
    for h v b b' e sid
    by (simp_all add: asks_only_def ask_recorder_def start_allowed_def handleJoin_def handleUploadLogin_def begin_task_def)
  show ?thesis
    using other
    by (cases ev) (simp_all add: student_page_event_def page_handles_event_def same asks_answered asks_entered asks_click
        split: option.split page_task.split)
qed

text \<open>A closed socket of the session that is shown has reached the recorder.\<close>

definition closing_asked :: "rendering \<Rightarrow> recorder_call list \<Rightarrow> bool" where
  "closing_asked r calls \<longleftrightarrow>
     (case liveSessionId r of
        None \<Rightarrow> True
      | Some sid \<Rightarrow>
          \<not> (rd_status r = CsClosed \<and> isRevokedCloseReason (rd_closed_reason r) \<and> Asks (Revoked sid) \<notin> set calls) \<and>
          \<not> (rd_status r = CsClosed \<and> rd_notice r = Some CkReplaced \<and> Asks (Replaced sid) \<notin> set calls))"

definition page_ok :: "page \<Rightarrow> bool" where
  "page_ok s \<longleftrightarrow>
     starts_gated {} (sp_calls s) \<and> admitted_by (sp_calls s) = shown_live (sp_rendered s) \<and>
     length (filter is_automatic (sp_calls s)) = (if sp_attempted s then 1 else 0) \<and>
     fits (sp_joined s) \<and> fits (Option.bind (sp_rendered s) rd_joined) \<and>
     (case sp_rendered s of None \<Rightarrow> True | Some r \<Rightarrow> closing_asked r (sp_calls s))"

lemma closing_more: "closing_asked r xs \<Longrightarrow> closing_asked r (xs @ ys)"
  by (auto simp: closing_asked_def split: option.splits)

lemma ok_asks:
  assumes "page_ok s" "asks_only s s'"
  shows "page_ok s'"
proof -
  from assms(2) obtain cs where cs: "sp_calls s' = sp_calls s @ cs"
    "list_all (\<lambda>c. \<not> is_admission c \<and> \<not> is_automatic c \<and> start_allowed (sp_rendered s) c) cs"
    and same: "sp_rendered s' = sp_rendered s" "sp_attempted s' = sp_attempted s"
    and fit: "fits (sp_joined s) \<longrightarrow> fits (sp_joined s')"
    by (auto simp: asks_only_def)
  have live: "admitted_by (sp_calls s) = shown_live (sp_rendered s)" "fits (Option.bind (sp_rendered s) rd_joined)"
    using assms(1) by (auto simp: page_ok_def)
  have "list_all (\<lambda>c. \<not> is_admission c) cs" using cs(2) by (auto simp: list_all_iff)
  moreover have "filter is_automatic cs = []" using cs(2) by (simp add: list_all_iff filter_empty_conv)
  moreover have "\<not> is_admission c \<and> (case c of StartTake why sid \<Rightarrow> why = CameraRetry \<or> sid \<in> shown_live (sp_rendered s) | Asks e \<Rightarrow> True)"
    if "c \<in> set cs" for c
  proof -
    from cs(2) that have "\<not> is_admission c" "start_allowed (sp_rendered s) c" by (simp_all add: list_all_iff)
    then show ?thesis using may_start_live [OF _ live(2)] by (cases c) (auto simp: start_allowed_def)
  qed
  then have "starts_gated (shown_live (sp_rendered s)) cs" by (intro gated_other) (simp add: list_all_iff)
  ultimately show ?thesis
    using assms(1) fit live cs(1) same
    by (auto simp: page_ok_def admitted_by_def gated_append fold_admits closing_more split: option.split)
qed


lemma effect_joined:
  "sp_joined (socket_cleanup old new s) = sp_joined s" "sp_joined (socket_effect old new s) = sp_joined s"
  "sp_joined (bind_cleanup old new s) = sp_joined s" "sp_joined (bind_effect old new s) = sp_joined s"
  "sp_joined (retry_effect b old new s) = sp_joined s" "sp_joined (restore_effect old new s) = sp_joined s"
  "sp_joined (recovery_effect old new s) = sp_joined s" "sp_joined (report_effect old new s) = sp_joined s"
  "sp_joined (admission_cleanup old new s) = sp_joined s" "sp_joined (admission_effect old new s) = sp_joined s"
  "sp_joined (autostart_effect old new s) = sp_joined s"
  "sp_joined (revoked_effect old new s) = sp_joined s" "sp_joined (replaced_effect old new s) = sp_joined s"
  by (simp_all add: socket_cleanup_def socket_effect_def bind_cleanup_def bind_effect_def retry_effect_def restore_effect_def
      recovery_effect_def report_effect_def admission_cleanup_def admission_effect_def autostart_effect_def
      revoked_effect_def replaced_effect_def ask_recorder_def begin_task_def Let_def split_beta split: option.split)

lemma closing_new:
  assumes "case old of None \<Rightarrow> True | Some r \<Rightarrow> closing_asked r calls" "set calls \<subseteq> set all" "set (closes old new) \<subseteq> set all"
  shows "closing_asked new all"
  using assms by (cases old; cases "liveSessionId new")
    (auto simp: closing_asked_def closes_def opt_call_def changed_def split: option.splits if_splits)

lemma autostart_allowed: "autostarts old new s \<Longrightarrow> may_start_take (Some new) (js_sessionId (the (rd_joined new)))"
  by (auto simp: autostarts_def may_autostart_def may_start_take_def split: option.splits)

lemma ok_render:
  assumes "page_ok s"
  shows "page_ok (page_render b s)"
proof -
  let ?old = "sp_rendered s" and ?new = "rendering_of s"
  have fit: "fits (rd_joined ?new)" using assms by (simp add: page_ok_def rendering_of_def)
  have live: "admitted_by (sp_calls s) = shown_live ?old" using assms by (simp add: page_ok_def)
  have start: "js_sessionId (the (rd_joined ?new)) \<in> shown_live (Some ?new)" if "autostarts ?old ?new s"
    using may_start_live [OF autostart_allowed [OF that]] fit by simp
  have gated: "starts_gated {} (sp_calls (page_render b s))"
    using assms start live unfolding page_ok_def admitted_by_def
    by (simp add: render_calls gated_append plain_calls readmitted)
  have admitted: "admitted_by (sp_calls (page_render b s)) = shown_live (Some ?new)"
    using live by (simp add: render_calls admitted_append plain_calls readmitted admits_def)
  have once: "length (filter is_automatic (sp_calls (page_render b s))) = (if sp_attempted (page_render b s) then 1 else 0)"
    using assms by (auto simp: page_ok_def render_calls page_render_frame plain_calls autostarts_def)
  have joined: "fits (sp_joined (page_render b s))"
    using assms by (simp add: page_ok_def page_render_def Let_def effect_joined)
  have "case ?old of None \<Rightarrow> True | Some r \<Rightarrow> closing_asked r (sp_calls s)" using assms by (simp add: page_ok_def)
  then have "closing_asked ?new (sp_calls (page_render b s))"
    by (rule closing_new) (auto simp: render_calls)
  with gated admitted once joined fit show ?thesis by (simp add: page_ok_def page_render_frame)
qed

lemma ok_event: "page_ok s \<Longrightarrow> page_ok (student_page_event num ev s)"
proof (cases "case ev of Rendered b \<Rightarrow> False | _ \<Rightarrow> True")
  case True
  assume "page_ok s"
  then show ?thesis by (rule ok_asks) (rule asks_event [OF True])
next
  case False
  assume "page_ok s"
  with False show ?thesis by (cases ev) (simp_all add: student_page_event_def page_handles_event_def ok_render)
qed

lemma ok_initial: "page_ok (initial_page a h v)"
  by (simp add: page_ok_def initial_page_def fits_def admitted_by_def shown_live_def split_def Let_def)

lemma ok_run: "page_ok s \<Longrightarrow> page_ok (student_page_run num evs s)"
  by (induction evs arbitrary: s) (simp_all add: student_page_run_def ok_event)

section \<open>The recorder follows the socket\<close>

text \<open>
  C8: the recorder follows the socket. Whatever happens, and in whatever order: the sessions that
  the controller has been told are admitted are exactly the live session of the last rendering, if
  its socket was admitted there, so never two, and none on the login forms or in an upload-only
  page; and when that rendering showed that the session's token was revoked, or that another device
  took the role over, the controller has been asked to interrupt that session's take, or to stop it.
\<close>

theorem recorder_follows_the_socket:
  "let s = student_page_run num evs (initial_page a h v) in
     admitted_by (sp_calls s) =
       (case sp_rendered s of
          None \<Rightarrow> {}
        | Some r \<Rightarrow> (case liveSessionId r of Some sid \<Rightarrow> if rd_admitted r then {sid} else {} | None \<Rightarrow> {})) \<and>
     (case Option.bind (sp_rendered s) (\<lambda>r. map_option (Pair r) (liveSessionId r)) of
        None \<Rightarrow> True
      | Some (r, sid) \<Rightarrow>
          \<not> (rd_status r = CsClosed \<and> rd_closed_reason r = Some ''token_revoked'' \<and> Asks (Revoked sid) \<notin> set (sp_calls s)) \<and>
          \<not> (rd_status r = CsClosed \<and> rd_notice r = Some CkReplaced \<and> Asks (Replaced sid) \<notin> set (sp_calls s)))"
  using ok_run [OF ok_initial, of num evs a h v] unfolding Let_def page_ok_def shown_live_def
  by (auto simp: closing_asked_def isRevokedCloseReason_def split: option.splits)

text \<open>
  C7: a take starts only where it may. At most one start is automatic in the life of the page.
  Every start that the page or its button asks for comes while the controller has that session as
  admitted, and out of a rendering that shows that session as joined with a code in this page (so
  after a reload neither starts a take), admitted, and free to start. What is left is the retry of a
  camera that failed, which the controller itself holds to the admission.
\<close>

theorem takes_start_only_where_they_may:
  "let s = student_page_run num evs (initial_page a h v); s' = student_page_event num ev s;
       new = drop (length (sp_calls s)) (sp_calls s')
   in length (filter is_automatic (sp_calls s')) \<le> 1 \<and> starts_gated {} (sp_calls s') \<and>
      list_all (\<lambda>c. case c of
        StartTake why sid \<Rightarrow> why = CameraRetry \<or>
          (\<exists>r j. sp_rendered s' = Some r \<and> rd_joined r = Some j \<and> js_sessionId j = sid \<and> \<not> js_restored j \<and>
             rd_admitted r \<and> v_can_start (rd_view r))
      | Asks e \<Rightarrow> True) new"
proof -
  define s where "s = student_page_run num evs (initial_page a h v)"
  let ?s' = "student_page_event num ev s"
  have "page_ok ?s'" unfolding s_def by (intro ok_event ok_run ok_initial)
  then have counted: "length (filter is_automatic (sp_calls ?s')) \<le> 1" "starts_gated {} (sp_calls ?s')"
    by (auto simp: page_ok_def split: if_splits)
  have "list_all (start_allowed (sp_rendered ?s')) (drop (length (sp_calls s)) (sp_calls ?s'))"
  proof (cases "case ev of Rendered b \<Rightarrow> False | _ \<Rightarrow> True")
    case True
    from asks_event [OF this] obtain cs where "sp_calls ?s' = sp_calls s @ cs" "list_all (start_allowed (sp_rendered s)) cs"
      "sp_rendered ?s' = sp_rendered s" by (force simp: asks_only_def list_all_iff)
    then show ?thesis by simp
  next
    case False
    then obtain b where "ev = Rendered b" by (cases ev) simp_all
    then have s': "?s' = page_render b s" by (simp add: student_page_event_def page_handles_event_def)
    show ?thesis
      unfolding s' using autostart_allowed
      by (auto simp: render_calls page_render_frame start_allowed_def unbinds_def unadmits_def opt_call_all closes_def
          split: option.split)
  qed
  then have "list_all (\<lambda>c. case c of
        StartTake why sid \<Rightarrow> why = CameraRetry \<or>
          (\<exists>r j. sp_rendered ?s' = Some r \<and> rd_joined r = Some j \<and> js_sessionId j = sid \<and> \<not> js_restored j \<and>
             rd_admitted r \<and> v_can_start (rd_view r))
      | Asks e \<Rightarrow> True) (drop (length (sp_calls s)) (sp_calls ?s'))"
    by (rule list.pred_mono_strong) (auto simp: start_allowed_def may_start_take_def split: recorder_call.splits option.splits)
  with counted show ?thesis unfolding s_def Let_def by (intro conjI)
qed

section \<open>The login of another role\<close>

lemma read_again: "readJoinedSession a0 = (Some j, a) \<Longrightarrow> fst (readJoinedSession a) = Some j"
  using joined_nonempty [of a0 j a] by (auto simp: readJoinedSession_def remembered_reads)

definition blocked_by :: "joined_session \<Rightarrow> page \<Rightarrow> bool" where
  "blocked_by j s \<longleftrightarrow> \<not> sp_restore_pending s \<and> sp_joined s = None \<and> \<not> sp_restore_error s \<and> \<not> sp_recovery_checked s \<and>
     sp_tasks s = [] \<and> fst (readJoinedSession (sp_auth s)) = Some j"

lemma blocked_effects:
  assumes "blocked_by j s"
  shows "blocked_by j (socket_cleanup old new s)" "blocked_by j (socket_effect old new s)" "blocked_by j (bind_cleanup old new s)"
    "blocked_by j (bind_effect old new s)" "blocked_by j (retry_effect b old new s)" "blocked_by j (report_effect old new s)"
    "blocked_by j (admission_cleanup old new s)" "blocked_by j (admission_effect old new s)"
    "blocked_by j (autostart_effect old new s)" "blocked_by j (replaced_effect old new s)" "blocked_by j (revoked_effect old new s)"
  using assms
  by (simp_all add: blocked_by_def socket_cleanup_def socket_effect_def bind_cleanup_def bind_effect_def retry_effect_def
      report_effect_def admission_cleanup_def admission_effect_def autostart_effect_def revoked_effect_def
      replaced_effect_def ask_recorder_def Let_def split: option.split)

lemma blocked_reads:
  assumes "blocked_by j s"
  shows "\<not> rd_restore_pending new \<Longrightarrow> blocked_by j (restore_effect old new s)" "blocked_by j (recovery_effect old new s)"
proof -
  obtain a where a: "readJoinedSession (sp_auth s) = (Some j, a)"
    using assms by (metis blocked_by_def prod.collapse)
  show "blocked_by j (recovery_effect old new s)" using assms read_again [OF a] a
    by (simp add: blocked_by_def recovery_effect_def Let_def)
  show "blocked_by j (restore_effect old new s)" if "\<not> rd_restore_pending new"
    using assms that by (simp add: blocked_by_def restore_effect_def Let_def)
qed

lemma blocked_event: "blocked_by j s \<Longrightarrow> blocked_by j (student_page_event num ev s)"
proof -
  assume b: "blocked_by j s"
  then have off: "\<not> rd_restore_pending (rendering_of s)" by (simp add: blocked_by_def rendering_of_def)
  have "blocked_by j (s\<lparr>sp_rendered := Some (rendering_of s)\<rparr>)" using b by (simp add: blocked_by_def)
  then have "blocked_by j (page_render e s)" for e
    unfolding page_render_def Let_def by (intro blocked_effects blocked_reads off)
  then show ?thesis using b
    by (cases ev) (auto simp: student_page_event_def page_handles_event_def blocked_by_def screen_def page_answered_def
        click_recorder_def ask_recorder_def split: option.split)
qed

text \<open>
  A saved login of another role blocks the page: it is neither restored nor searched past, so the
  page checks for local recordings for ever, without a form.
\<close>

lemma other_login_blocks_the_page:
  assumes "readJoinedSession a = (Some j, a1)" "j_role j \<noteq> ''student''"
  shows "screen (student_page_run num evs (initial_page a h v)) = CheckingScreen"
proof -
  have "blocked_by j (initial_page a h v)"
    using assms read_again [OF assms(1)] by (simp add: initial_page_def blocked_by_def)
  then have "blocked_by j (student_page_run num evs (initial_page a h v))"
    unfolding student_page_run_def by (induction evs rule: rev_induct) (simp_all add: blocked_event)
  then show ?thesis by (simp add: blocked_by_def screen_def)
qed

section \<open>The page and its hook\<close>

definition drives :: "student \<Rightarrow> student \<Rightarrow> bool" where
  "drives h h' \<longleftrightarrow> (\<exists>hevs. h' = student_run hevs h)"


lemma drives_refl [simp]: "drives h h"
  unfolding drives_def by (rule exI [of _ "[]"]) simp




lemma hook_kept [page_effects]:
  "sp_hook (bind_cleanup old new s) = sp_hook s" "sp_hook (bind_effect old new s) = sp_hook s"
  "sp_hook (retry_effect b old new s) = sp_hook s" "sp_hook (restore_effect old new s) = sp_hook s"
  "sp_hook (recovery_effect old new s) = sp_hook s" "sp_hook (admission_cleanup old new s) = sp_hook s"
  "sp_hook (admission_effect old new s) = sp_hook s" "sp_hook (autostart_effect old new s) = sp_hook s"
  "sp_hook (replaced_effect old new s) = sp_hook s" "sp_hook (revoked_effect old new s) = sp_hook s"
  by (simp_all add: bind_cleanup_def bind_effect_def retry_effect_def restore_effect_def recovery_effect_def
      admission_cleanup_def admission_effect_def autostart_effect_def replaced_effect_def revoked_effect_def ask_recorder_def
      begin_task_def Let_def split_beta split: option.split)






end
