(* ===== verification/SuspectPlayer.thy ===== *)
theory SuspectPlayer
  imports StudentPage
begin

text \<open>
  \<open>apps/student/src/components/SuspectVideoPlayer.tsx\<close>: the stage, on which two video elements take
  turns. The next clip is loaded into the element that is hidden, which is shown when it plays; 280 ms
  later the other one is stopped. A load waits until the element can play, and then until its play
  has begun. \<open>Stage\<close> is a rendering with the clip that is wanted and whether the interview is paused.
\<close>

section \<open>State\<close>

record stage_video =
  vd_src :: "string option"
  vd_loop :: bool
  vd_paused :: bool

datatype stage_phase = AwaitsCanPlay | AwaitsPlay

record stage_load =
  ld_slot :: bool
  ld_clip :: playback_clip
  ld_phase :: stage_phase

datatype stage_report = ReportsStarted string | ReportsEnded string

record stage =
  ss_activeSlot :: bool
  ss_displayed :: "playback_clip option"
  ss_playError :: bool
  ss_current :: "playback_clip option"
  ss_video :: "bool \<Rightarrow> stage_video"
  ss_load_deps :: "(bool \<times> playback_clip option) option"
  ss_play_deps :: "(bool \<times> string option \<times> bool) option"
  ss_run :: "nat option"
  ss_loads :: "(nat \<times> stage_load) list"
  ss_pauses :: "bool list"
  ss_next :: nat
  ss_reports :: "stage_report list"

definition initial_stage :: stage where
  "initial_stage =
     \<lparr>ss_activeSlot = False, ss_displayed = None, ss_playError = False, ss_current = None,
      ss_video = (\<lambda>_. \<lparr>vd_src = None, vd_loop = False, vd_paused = True\<rparr>), ss_load_deps = None, ss_play_deps = None,
      ss_run = None, ss_loads = [], ss_pauses = [], ss_next = 0, ss_reports = []\<rparr>"

definition on_video :: "bool \<Rightarrow> (stage_video \<Rightarrow> stage_video) \<Rightarrow> stage \<Rightarrow> stage" where
  "on_video slot f s = s\<lparr>ss_video := (ss_video s)(slot := f (ss_video s slot))\<rparr>"

definition pause_video :: "stage_video \<Rightarrow> stage_video" where
  "pause_video v = v\<lparr>vd_paused := True\<rparr>"

definition play_video :: "stage_video \<Rightarrow> stage_video" where
  "play_video v = v\<lparr>vd_paused := False\<rparr>"

section \<open>Effects\<close>

text \<open>The load of the wanted clip. Its cleanup cancels the run of the last one.\<close>

definition load_clip :: "playback_clip option \<Rightarrow> stage \<Rightarrow> stage" where
  "load_clip desired s =
     (if desired \<noteq> None \<and> map_option pc_clipId desired = map_option pc_clipId (ss_current s) then s
      else
        let s1 = s\<lparr>ss_current := desired, ss_displayed := desired, ss_playError := False\<rparr>
        in case desired of
          None \<Rightarrow> on_video False pause_video (on_video True pause_video s1)
        | Some clip \<Rightarrow>
            (case pc_src clip of
               None \<Rightarrow> on_video False pause_video (on_video True pause_video s1)
             | Some src \<Rightarrow>
                 let nextSlot = (\<not> ss_activeSlot s1);
                     s2 = on_video nextSlot (\<lambda>v. v\<lparr>vd_loop := pc_loop clip, vd_src := Some src, vd_paused := True\<rparr>) s1
                 in s2\<lparr>ss_run := Some (ss_next s2), ss_next := ss_next s2 + 1,
                       ss_loads := ss_loads s2 @ [(ss_next s2, \<lparr>ld_slot = nextSlot, ld_clip = clip, ld_phase = AwaitsCanPlay\<rparr>)]\<rparr>))"

definition stage_load_effect :: "playback_clip option \<Rightarrow> stage \<Rightarrow> stage" where
  "stage_load_effect desired s =
     (let deps = Some (ss_activeSlot s, desired)
      in if ss_load_deps s = deps then s else load_clip desired (s\<lparr>ss_load_deps := deps, ss_run := None\<rparr>))"

definition displayed_src :: "stage \<Rightarrow> string option" where
  "displayed_src s = Option.bind (ss_displayed s) pc_src"

text \<open>What the rendering saw of the displayed clip is what it was before the load effect ran.\<close>

definition play_effect :: "string option \<Rightarrow> bool \<Rightarrow> stage \<Rightarrow> stage" where
  "play_effect seen isPaused s =
     (let deps = Some (ss_activeSlot s, seen, isPaused)
      in if ss_play_deps s = deps then s
         else
           let s1 = s\<lparr>ss_play_deps := deps\<rparr>
           in if isPaused then on_video (ss_activeSlot s) pause_video s1
              else if truthy seen then on_video (ss_activeSlot s) play_video s1
              else s1)"

definition stage_render :: "playback_clip option \<Rightarrow> bool \<Rightarrow> stage \<Rightarrow> stage" where
  "stage_render desired isPaused s = play_effect (displayed_src s) isPaused (stage_load_effect desired s)"

section \<open>Events\<close>

definition drop_stage_load :: "nat \<Rightarrow> stage \<Rightarrow> stage" where
  "drop_stage_load i s = s\<lparr>ss_loads := filter (\<lambda>e. fst e \<noteq> i) (ss_loads s)\<rparr>"

definition can_play :: "nat \<Rightarrow> stage \<Rightarrow> stage" where
  "can_play i s =
     (case map_of (ss_loads s) i of
        None \<Rightarrow> s
      | Some l \<Rightarrow>
          if ld_phase l \<noteq> AwaitsCanPlay then s
          else if ss_run s \<noteq> Some i then drop_stage_load i s
          else on_video (ld_slot l) play_video
            (s\<lparr>ss_loads := map (\<lambda>e. if fst e = i then (i, (snd e)\<lparr>ld_phase := AwaitsPlay\<rparr>) else e) (ss_loads s)\<rparr>))"

definition play_settled :: "nat \<Rightarrow> bool \<Rightarrow> stage \<Rightarrow> stage" where
  "play_settled i ok s =
     (case map_of (ss_loads s) i of
        None \<Rightarrow> s
      | Some l \<Rightarrow>
          if ld_phase l \<noteq> AwaitsPlay then s
          else
            let s1 = drop_stage_load i s
            in if ss_run s \<noteq> Some i then s1
               else if \<not> ok then s1\<lparr>ss_playError := True\<rparr>
               else s1\<lparr>ss_activeSlot := ld_slot l,
                 ss_reports := ss_reports s1 @ (if pc_loop (ld_clip l) then [] else [ReportsStarted (pc_clipId (ld_clip l))]),
                 ss_pauses := ss_pauses s1 @ [\<not> ld_slot l]\<rparr>)"

text \<open>The end of a video that does not loop, which stops it. The page hears it of the slot that it last rendered.\<close>

definition rendered_slot :: "stage \<Rightarrow> bool" where
  "rendered_slot s = (case ss_load_deps s of Some (slot, desired) \<Rightarrow> slot | None \<Rightarrow> False)"

definition handleEnded :: "bool \<Rightarrow> stage \<Rightarrow> stage" where
  "handleEnded slot s =
     (if slot \<noteq> rendered_slot s then s
      else case ss_current s of
        None \<Rightarrow> s
      | Some clip \<Rightarrow> if pc_loop clip then s else s\<lparr>ss_reports := ss_reports s @ [ReportsEnded (pc_clipId clip)]\<rparr>)"

datatype stage_event =
    Stage "playback_clip option" bool | CanPlay nat | PlaySettled nat bool | PlayRejected | PauseDue bool | Ended bool

definition stage_event :: "stage_event \<Rightarrow> stage \<Rightarrow> stage" where
  "stage_event ev s =
     (case ev of
        Stage desired isPaused \<Rightarrow> stage_render desired isPaused s
      | CanPlay i \<Rightarrow> can_play i s
      | PlaySettled i ok \<Rightarrow> play_settled i ok s
      | PlayRejected \<Rightarrow> s\<lparr>ss_playError := True\<rparr>
      | PauseDue slot \<Rightarrow>
          if slot \<in> set (ss_pauses s) then on_video slot pause_video (s\<lparr>ss_pauses := remove1 slot (ss_pauses s)\<rparr>) else s
      | Ended slot \<Rightarrow>
          let v = ss_video s slot
          in if vd_src v = None \<or> vd_loop v \<or> vd_paused v then s else handleEnded slot (on_video slot pause_video s))"

definition stage_run :: "stage_event list \<Rightarrow> stage \<Rightarrow> stage" where
  "stage_run = fold stage_event"

section \<open>What every event keeps\<close>


definition shows_clip :: "bool \<Rightarrow> playback_clip \<Rightarrow> stage \<Rightarrow> bool" where
  "shows_clip slot clip s \<longleftrightarrow> vd_src (ss_video s slot) = pc_src clip \<and> vd_loop (ss_video s slot) = pc_loop clip"

definition live_load :: "stage \<Rightarrow> stage_load option" where
  "live_load s = Option.bind (ss_run s) (map_of (ss_loads s))"



lemma video_updates [simp]:
  "shows_clip slot clip (on_video slot' pause_video s) = shows_clip slot clip s"
  "shows_clip slot clip (on_video slot' play_video s) = shows_clip slot clip s"
  by (simp_all add: shows_clip_def on_video_def pause_video_def play_video_def)

lemma on_video_fields [simp]:
  "ss_activeSlot (on_video slot f s) = ss_activeSlot s" "ss_displayed (on_video slot f s) = ss_displayed s"
  "ss_playError (on_video slot f s) = ss_playError s" "ss_current (on_video slot f s) = ss_current s"
  "ss_load_deps (on_video slot f s) = ss_load_deps s" "ss_play_deps (on_video slot f s) = ss_play_deps s"
  "ss_run (on_video slot f s) = ss_run s" "ss_loads (on_video slot f s) = ss_loads s"
  "ss_pauses (on_video slot f s) = ss_pauses s" "ss_next (on_video slot f s) = ss_next s"
  "ss_reports (on_video slot f s) = ss_reports s"
  by (simp_all add: on_video_def)





lemma stage_drop_fields [simp]:
  "ss_next (drop_stage_load i s) = ss_next s" "ss_current (drop_stage_load i s) = ss_current s"
  "ss_activeSlot (drop_stage_load i s) = ss_activeSlot s" "ss_playError (drop_stage_load i s) = ss_playError s"
  "ss_load_deps (drop_stage_load i s) = ss_load_deps s" "ss_run (drop_stage_load i s) = ss_run s"
  "ss_video (drop_stage_load i s) = ss_video s" "ss_reports (drop_stage_load i s) = ss_reports s"
  "shows_clip slot clip (drop_stage_load i s) = shows_clip slot clip s"
  by (simp_all add: drop_stage_load_def shows_clip_def)











lemma error_fields [simp]:
  "live_load (s\<lparr>ss_playError := e\<rparr>) = live_load s" "shows_clip slot clip (s\<lparr>ss_playError := e\<rparr>) = shows_clip slot clip s"
  by (simp_all add: live_load_def shows_clip_def)












section \<open>The stage shows what is commanded\<close>












definition clip_A :: playback_clip where
  "clip_A = \<lparr>pc_clipId = ''A'', pc_src = Some ''/a.mp4'', pc_label = ''A'', pc_loop = False\<rparr>"

definition clip_B :: playback_clip where
  "clip_B = \<lparr>pc_clipId = ''B'', pc_src = Some ''/b.mp4'', pc_label = ''B'', pc_loop = False\<rparr>"

definition A_on_stage :: "stage_event list" where
  "A_on_stage = [Stage (Some clip_A) False, CanPlay 0, PlaySettled 0 True, Stage (Some clip_A) False]"


section \<open>What the stage reports\<close>



section \<open>Where the stage falls short\<close>

text \<open>The end of the clip that is shown is reported for the clip that is loading, which has not started.\<close>

lemma end_is_reported_for_the_next_clip:
  "ss_reports (stage_run (A_on_stage @ [Stage (Some clip_B) False, Ended True]) initial_stage) =
     [ReportsStarted ''A'', ReportsEnded ''B'']"
  by code_simp

text \<open>The timer that stops the slot of the clip before the last one stops the last one, which took that slot.\<close>

lemma late_pause_stops_the_next_clip:
  "let s = stage_run (A_on_stage @ [Stage (Some clip_B) False, CanPlay 1, PlaySettled 1 True, Stage (Some clip_B) False,
     PauseDue False]) initial_stage
   in ss_reports s = [ReportsStarted ''A'', ReportsStarted ''B''] \<and> vd_src (ss_video s (ss_activeSlot s)) = Some ''/b.mp4'' \<and>
      vd_paused (ss_video s (ss_activeSlot s)) \<and> ss_loads s = []"
  by code_simp

text \<open>A clip that has ended is played again while the next one loads.\<close>

lemma ended_clip_is_played_again:
  "let s = stage_run (A_on_stage @ [Ended True, Stage (Some clip_B) False, Stage (Some clip_B) False]) initial_stage
   in vd_src (ss_video s (ss_activeSlot s)) = Some ''/a.mp4'' \<and> \<not> vd_paused (ss_video s (ss_activeSlot s))"
  by code_simp

end
