(* ===== verification/ReplayTimeline.thy ===== *)
theory ReplayTimeline
  imports Prelude
begin

text \<open>
  The geometry of a review (\<open>apps/teacher/src/components/InteractiveTimeline.tsx\<close>): how the entries
  of a session and the spans of its recording are laid out on the timeline, and what a click on it
  seeks. Times are rationals, since the server's numbers may be fractions.
\<close>

section \<open>The timeline of a session\<close>

datatype entry_kind = ClipKind | WizardActionKind | SyncKind | LifecycleKind

record clip_metadata =
  cm_manifest_duration_ms :: "rat option"
  cm_duration_ms :: "rat option"
  cm_file :: "string option"

record timeline_entry =
  te_kind :: entry_kind
  te_t_ms :: "rat option"
  te_end_t_ms :: "rat option"
  te_clip :: "clip_metadata option"
  te_action :: string
  te_reason :: "string option"
  te_fallback_category :: "string option"

record recording_span =
  rs_start_ms :: "rat option"
  rs_end_ms :: "rat option"

record timeline =
  tl_entries :: "timeline_entry list"
  tl_spans :: "recording_span list"

record teacher_marker =
  tm_t_ms :: rat
  tm_note :: string

section \<open>Times and labels\<close>

definition padStart2 :: "string \<Rightarrow> string" where
  "padStart2 t = replicate (2 - length t) CHR ''0'' @ t"

definition formatTime :: "rat option \<Rightarrow> string" where
  "formatTime ms =
     (case ms of
        None \<Rightarrow> ''--:--''
      | Some t \<Rightarrow>
          let absoluteSeconds = \<lfloor>\<bar>t\<bar> / 1000\<rfloor>
          in (if t < 0 then ''-'' else []) @ string_of_int (absoluteSeconds div 60) @ '':'' @
             padStart2 (string_of_int (absoluteSeconds mod 60)))"

definition entryTime :: "timeline_entry \<Rightarrow> rat" where
  "entryTime entry = max 0 (nullish (te_t_ms entry) 0)"

definition spanStart :: "recording_span \<Rightarrow> rat" where
  "spanStart piece = max 0 (nullish (rs_start_ms piece) 0)"

definition spanEnd :: "recording_span \<Rightarrow> rat" where
  "spanEnd piece = max (spanStart piece + 250) (nullish (rs_end_ms piece) (spanStart piece + 250))"

definition replaceUnderscores :: "string \<Rightarrow> string" where
  "replaceUnderscores = map (\<lambda>c. if c = CHR ''_'' then CHR '' '' else c)"

definition labelForAction :: "timeline_entry \<Rightarrow> string" where
  "labelForAction entry =
     (if te_action entry = ''fallback_used'' then js_trim (''Fallback '' @ nullish (te_fallback_category entry) [])
      else if te_action entry = ''uncovered_question'' then ''Uncovered question''
      else if te_action entry = ''session_paused'' then js_trim (''Paused '' @ nullish (te_reason entry) [])
      else replaceUnderscores (te_action entry))"

definition entry_extent :: "timeline_entry \<Rightarrow> rat" where
  "entry_extent entry =
     (if te_kind entry = ClipKind then max (entryTime entry) (max 0 (nullish (te_end_t_ms entry) 0))
      else entryTime entry)"

definition timelineDuration :: "timeline \<Rightarrow> rat" where
  "timelineDuration chart =
     (let entryMax = foldl (\<lambda>m entry. max m (entry_extent entry)) 0 (tl_entries chart);
          spanMax = foldl (\<lambda>m piece. max m (spanEnd piece)) 0 (tl_spans chart)
      in max entryMax (max spanMax 1000))"

section \<open>Positions\<close>

text \<open>A bar from its left edge, with its width, both in percent of the timeline.\<close>

definition percent :: "timeline \<Rightarrow> rat \<Rightarrow> rat" where
  "percent chart t = t / timelineDuration chart * 100"

definition bar_width :: "timeline \<Rightarrow> rat \<Rightarrow> rat \<Rightarrow> rat" where
  "bar_width chart start stop = max (3 / 2) ((stop - start) / timelineDuration chart * 100)"

definition cursorLeft :: "timeline \<Rightarrow> rat \<Rightarrow> rat" where
  "cursorLeft chart currentTimeMs = min 100 (max 0 (percent chart currentTimeMs))"

definition ticks :: "timeline \<Rightarrow> int list" where
  "ticks chart = map (\<lambda>index. js_round (timelineDuration chart / 5 * of_nat index)) [0..<6]"

text \<open>A click at the given part of the width of the canvas.\<close>

definition clickSeek :: "timeline \<Rightarrow> rat \<Rightarrow> int" where
  "clickSeek chart ratio = js_round (max 0 (min 1 ratio) * timelineDuration chart)"

definition clip_end :: "timeline_entry \<Rightarrow> rat" where
  "clip_end clip =
     (let manifestDurationMs =
            (case te_clip clip of
               None \<Rightarrow> 1000
             | Some c \<Rightarrow> nullish (or_else (cm_manifest_duration_ms c) (cm_duration_ms c)) 1000)
      in max (entryTime clip + 250) (nullish (te_end_t_ms clip) (entryTime clip + manifestDurationMs)))"

definition clip_bar :: "timeline \<Rightarrow> timeline_entry \<Rightarrow> rat \<times> rat" where
  "clip_bar chart clip = (percent chart (entryTime clip), bar_width chart (entryTime clip) (clip_end clip))"

definition entry_left :: "timeline \<Rightarrow> timeline_entry \<Rightarrow> rat" where
  "entry_left chart entry = percent chart (entryTime entry)"

definition span_bar :: "timeline \<Rightarrow> recording_span \<Rightarrow> rat \<times> rat" where
  "span_bar chart piece = (percent chart (spanStart piece), bar_width chart (spanStart piece) (spanEnd piece))"

section \<open>Everything lies on the timeline\<close>

lemma foldl_max_ge: "(a :: rat) \<le> foldl (\<lambda>m x. max m (f x)) a xs"
  by (induction xs arbitrary: a) (auto intro: order_trans [OF max.cobounded1])

lemma foldl_max_member: "x \<in> set xs \<Longrightarrow> (f x :: rat) \<le> foldl (\<lambda>m x. max m (f x)) a xs"
proof (induction xs arbitrary: a)
  case (Cons y ys)
  then show ?case
    by (cases "x = y") (auto intro: order_trans [OF _ foldl_max_ge])
qed simp

lemma duration_positive: "1000 \<le> timelineDuration chart"
  by (simp add: timelineDuration_def Let_def)

lemma entry_within: "entry \<in> set (tl_entries chart) \<Longrightarrow> entry_extent entry \<le> timelineDuration chart"
  unfolding timelineDuration_def Let_def
  by (rule order_trans [OF foldl_max_member [of entry _ entry_extent 0]], assumption) (rule max.cobounded1)

lemma span_within: "piece \<in> set (tl_spans chart) \<Longrightarrow> spanEnd piece \<le> timelineDuration chart"
  unfolding timelineDuration_def Let_def
  by (rule order_trans [OF foldl_max_member [of piece _ spanEnd 0]], assumption)
    (rule max.coboundedI2, rule max.cobounded1)

lemma percent_bounds:
  assumes "0 \<le> t" and "t \<le> timelineDuration chart"
  shows "0 \<le> percent chart t" and "percent chart t \<le> 100"
  using assms duration_positive [of chart] by (simp_all add: percent_def divide_simps)

lemma percent_add: "percent chart t + (u - t) / timelineDuration chart * 100 = percent chart u"
  by (simp add: percent_def diff_divide_distrib algebra_simps)

lemma extent_time: "entryTime entry \<le> entry_extent entry" "0 \<le> entryTime entry"
  by (simp_all add: entry_extent_def entryTime_def le_max_iff_disj)

lemma span_order: "spanStart piece \<le> spanEnd piece" "0 \<le> spanStart piece"
  by (simp_all add: spanEnd_def spanStart_def le_max_iff_disj)

lemma clickSeek_bounds: "0 \<le> clickSeek chart ratio \<and> clickSeek chart ratio \<le> js_round (timelineDuration chart)"
proof -
  have d: "0 \<le> timelineDuration chart" using duration_positive [of chart] by simp
  let ?x = "max 0 (min 1 ratio) * timelineDuration chart"
  have "0 \<le> ?x" using d by simp
  moreover have "?x \<le> 1 * timelineDuration chart" by (rule mult_right_mono [OF _ d]) simp
  ultimately have "js_round 0 \<le> js_round ?x" "js_round ?x \<le> js_round (timelineDuration chart)"
    by (auto intro: js_round_mono)
  then show ?thesis using js_round_of_int [of 0] by (simp add: clickSeek_def)
qed

text \<open>
  C36: everything lies on the timeline. For whatever entries and spans the server sends, with
  negative, missing or disordered times: the marks of all entries and the spans of the recording
  lie between 0 and 100 percent, a span's true width (above its minimum) does not run past the
  end, nor does the bar of a clip whose end is known and at least a quarter of a second after its
  start; the cursor stays on the timeline wherever the player is, and a click anywhere seeks a time
  between zero and the rounded duration.
\<close>

theorem everything_lies_on_the_timeline:
  "list_all (\<lambda>entry. 0 \<le> entry_left chart entry \<and> entry_left chart entry \<le> 100 \<and>
      (if te_kind entry = ClipKind \<and> (case te_end_t_ms entry of Some e \<Rightarrow> entryTime entry + 250 \<le> e | None \<Rightarrow> False)
       then fst (clip_bar chart entry) + snd (clip_bar chart entry) \<le> max 100 (fst (clip_bar chart entry) + 3 / 2) else True))
     (tl_entries chart) \<and>
   list_all (\<lambda>piece. 0 \<le> fst (span_bar chart piece) \<and>
      fst (span_bar chart piece) + snd (span_bar chart piece) \<le> max 100 (fst (span_bar chart piece) + 3 / 2)) (tl_spans chart) \<and>
   0 \<le> cursorLeft chart t \<and> cursorLeft chart t \<le> 100 \<and>
   0 \<le> clickSeek chart ratio \<and> clickSeek chart ratio \<le> js_round (timelineDuration chart)"
proof (intro conjI)
  have bar: "percent chart a + bar_width chart a b \<le> max 100 (percent chart a + 3 / 2)" if "b \<le> timelineDuration chart" for a b
  proof -
    have "percent chart b \<le> 100" using that duration_positive [of chart] by (simp add: percent_def divide_simps)
    define w where "w = (b - a) / timelineDuration chart * 100"
    with percent_add [of chart a b] \<open>percent chart b \<le> 100\<close> have "percent chart a + w \<le> 100" by simp
    then show ?thesis unfolding bar_width_def w_def [symmetric] by (simp add: max_def)
  qed
  show "list_all (\<lambda>entry. 0 \<le> entry_left chart entry \<and> entry_left chart entry \<le> 100 \<and>
      (if te_kind entry = ClipKind \<and> (case te_end_t_ms entry of Some e \<Rightarrow> entryTime entry + 250 \<le> e | None \<Rightarrow> False)
       then fst (clip_bar chart entry) + snd (clip_bar chart entry) \<le> max 100 (fst (clip_bar chart entry) + 3 / 2) else True))
     (tl_entries chart)"
    unfolding list_all_iff
  proof (intro ballI conjI)
    fix entry assume e: "entry \<in> set (tl_entries chart)"
    have x: "entryTime entry \<le> timelineDuration chart"
      using extent_time(1) [of entry] entry_within [OF e] by simp
    show "0 \<le> entry_left chart entry" "entry_left chart entry \<le> 100"
      using percent_bounds [OF extent_time(2) x] by (simp_all add: entry_left_def)
    show "if te_kind entry = ClipKind \<and> (case te_end_t_ms entry of Some e \<Rightarrow> entryTime entry + 250 \<le> e | None \<Rightarrow> False)
       then fst (clip_bar chart entry) + snd (clip_bar chart entry) \<le> max 100 (fst (clip_bar chart entry) + 3 / 2) else True"
    proof (cases "te_kind entry = ClipKind \<and> (case te_end_t_ms entry of Some e \<Rightarrow> entryTime entry + 250 \<le> e | None \<Rightarrow> False)")
      case True
      then obtain u where u: "te_end_t_ms entry = Some u" "entryTime entry + 250 \<le> u" "te_kind entry = ClipKind"
        by (auto split: option.splits)
      then have "clip_end entry = u" "u \<le> entry_extent entry"
        by (simp_all add: clip_end_def entry_extent_def max_def)
      with entry_within [OF e] bar [of "clip_end entry"] True show ?thesis by (simp add: clip_bar_def)
    next
      case False
      then show ?thesis by (simp only: if_False simp_thms)
    qed
  qed
  show "list_all (\<lambda>piece. 0 \<le> fst (span_bar chart piece) \<and>
      fst (span_bar chart piece) + snd (span_bar chart piece) \<le> max 100 (fst (span_bar chart piece) + 3 / 2)) (tl_spans chart)"
    unfolding list_all_iff
  proof (intro ballI conjI)
    fix piece assume s: "piece \<in> set (tl_spans chart)"
    have "spanStart piece \<le> timelineDuration chart" "0 \<le> spanStart piece"
      using span_within [OF s] span_order [of piece] by simp_all
    from percent_bounds(1) [OF this(2,1)] bar [OF span_within [OF s]]
    show "0 \<le> fst (span_bar chart piece)"
      and "fst (span_bar chart piece) + snd (span_bar chart piece) \<le> max 100 (fst (span_bar chart piece) + 3 / 2)"
      by (simp_all add: span_bar_def)
  qed
qed (simp_all add: cursorLeft_def clickSeek_bounds)

end
