(* ===== verification/ReplayPlayer.thy ===== *)
theory ReplayPlayer
  imports ReplayTimeline
begin

text \<open>
  \<open>apps/teacher/src/components/DualVideoPlayer.tsx\<close>: the replay of a review, in which the video of
  the character follows that of the student, and the loading, refreshing and deletion of the
  recording. A media element is a record of what the code sets and reads of it; a request under
  way is a task, and an event is a change of the session, a click, a timer or an answer.
\<close>

section \<open>Which clip belongs to a time\<close>





definition clipEntries :: "timeline option \<Rightarrow> timeline_entry list" where
  "clipEntries chart = (case chart of None \<Rightarrow> [] | Some c \<Rightarrow> filter (\<lambda>e. te_kind e = ClipKind) (tl_entries c))"

record manifest_clip =
  mc_category :: "string option"
  mc_intent :: "string option"
  mc_file :: string

definition is_idle :: "manifest_clip \<Rightarrow> bool" where
  "is_idle clip \<longleftrightarrow>
     map_option toLowerCase (mc_category clip) = Some ''idle'' \<or>
     (case mc_intent clip of Some t \<Rightarrow> text_within ''idle'' (toLowerCase t) | None \<Rightarrow> False)"

definition idleClip :: "manifest_clip list \<Rightarrow> manifest_clip option" where
  "idleClip clips = List.find is_idle clips"

section \<open>The character follows the student\<close>

text \<open>
  \<open>config.ts\<close>: the URL of a clip's file. \<open>base\<close> is the configured media host without a slash at
  its end, and \<open>enc\<close> is \<open>encodeURIComponent\<close>.
\<close>

definition is_http_url :: "string \<Rightarrow> bool" where
  "is_http_url u \<longleftrightarrow> startsWith (toLowerCase u) ''http://'' \<or> startsWith (toLowerCase u) ''https://''"

definition mediaUrl :: "string \<Rightarrow> (string \<Rightarrow> string) \<Rightarrow> string \<Rightarrow> string \<Rightarrow> string" where
  "mediaUrl base enc caseId file =
     (if is_http_url file \<or> startsWith file ''/'' then file
      else base @ ''/cases/'' @ enc caseId @ ''/'' @ dropWhile (\<lambda>c. c = CHR ''/'') file)"

text \<open>
  A new source stops the element and takes it to the beginning. \<open>md_src\<close> is also the ref that
  remembers the source; it is empty when there is none.
\<close>

record media =
  md_src :: string
  md_time :: rat
  md_paused :: bool
  md_loop :: bool
  md_rate :: rat

definition load_src :: "string \<Rightarrow> media \<Rightarrow> media" where
  "load_src src m = m\<lparr>md_src := src, md_time := 0, md_paused := True\<rparr>"

definition initial_suspect :: "(string \<Rightarrow> string) \<Rightarrow> string \<Rightarrow> manifest_clip option \<Rightarrow> media \<Rightarrow> media" where
  "initial_suspect url caseId idle m =
     (case idle of
        None \<Rightarrow> m
      | Some clip \<Rightarrow>
          if caseId \<noteq> [] \<and> mc_file clip \<noteq> [] \<and> md_src m = [] then (load_src (url (mc_file clip)) m)\<lparr>md_loop := True\<rparr> else m)"






section \<open>The recording\<close>

text \<open>
  The state of the component. Controllers (of requests that can be aborted) and poll effects are
  numbered; \<open>pl_answers\<close> records which URL the server gave for which session.
\<close>

datatype player_message = Problem string | NotPlayable

datatype player_task = LoadingUrl nat string | RefreshingUrl nat string | Deleting string | PollingStatus nat

record player =
  pl_session :: "string option"
  pl_src :: string
  pl_error :: "player_message option"
  pl_confirm :: string
  pl_deletion :: string
  pl_controller :: "nat option"
  pl_aborted :: "nat list"
  pl_poll :: "nat option"
  pl_poll_waits :: bool
  pl_next :: nat
  pl_refreshing :: bool
  pl_last_refresh :: ms
  pl_restore :: "(rat \<times> bool) option"
  pl_tasks :: "(nat \<times> player_task) list"
  pl_answers :: "(string \<times> string) list"

definition initial_player :: player where
  "initial_player = \<lparr>pl_session = None, pl_src = [], pl_error = None, pl_confirm = [], pl_deletion = ''none'',
     pl_controller = None, pl_aborted = [], pl_poll = None, pl_poll_waits = False, pl_next = 0,
     pl_refreshing = False, pl_last_refresh = 0, pl_restore = None, pl_tasks = [], pl_answers = []\<rparr>"

definition new_task :: "player_task \<Rightarrow> player \<Rightarrow> player" where
  "new_task t p = p\<lparr>pl_tasks := pl_tasks p @ [(pl_next p, t)], pl_next := pl_next p + 1\<rparr>"

definition abort_current :: "player \<Rightarrow> player" where
  "abort_current p = (case pl_controller p of None \<Rightarrow> p | Some c \<Rightarrow> p\<lparr>pl_aborted := c # pl_aborted p\<rparr>)"

text \<open>The effect that polls the deletion: its cleanup, and its start.\<close>

definition stop_poll :: "player \<Rightarrow> player" where
  "stop_poll p = p\<lparr>pl_poll := None, pl_poll_waits := False\<rparr>"

definition poll_effect :: "player \<Rightarrow> player" where
  "poll_effect p =
     (let p1 = stop_poll p
      in if pl_deletion p \<noteq> ''deleting'' \<or> \<not> truthy (pl_session p) then p1
         else let k = pl_next p1 in new_task (PollingStatus k) (p1\<lparr>pl_poll := Some k, pl_next := k + 1\<rparr>))"

definition setDeletionState :: "string \<Rightarrow> player \<Rightarrow> player" where
  "setDeletionState d p = (if d = pl_deletion p then p else poll_effect (p\<lparr>pl_deletion := d\<rparr>))"

text \<open>A change of the session or of the token.\<close>

definition load_effect :: "player \<Rightarrow> player" where
  "load_effect p =
     (let p1 = p\<lparr>pl_error := None, pl_src := [], pl_confirm := [], pl_restore := None, pl_last_refresh := 0\<rparr>
      in case pl_session p of
        None \<Rightarrow> p1
      | Some sid \<Rightarrow>
          if sid = [] then p1
          else let c = pl_next p1
            in new_task (LoadingUrl c sid) (p1\<lparr>pl_controller := Some c, pl_next := c + 1\<rparr>))"

definition open_session :: "string option \<Rightarrow> player \<Rightarrow> player" where
  "open_session sid p =
     (let p1 = (abort_current p)\<lparr>pl_controller := None, pl_session := sid\<rparr>
      in setDeletionState ''none'' (poll_effect (load_effect p1)))"

definition url_answered :: "nat \<Rightarrow> player_message + string \<Rightarrow> player \<Rightarrow> player" where
  "url_answered c r p =
     (if c \<in> set (pl_aborted p) then p
      else case r of Inr url \<Rightarrow> p\<lparr>pl_src := url\<rparr> | Inl e \<Rightarrow> p\<lparr>pl_error := Some e\<rparr>)"

definition refreshPlayback :: "ms \<Rightarrow> rat \<Rightarrow> bool \<Rightarrow> player \<Rightarrow> player" where
  "refreshPlayback now currentTime isPaused p =
     (case (pl_session p, pl_controller p) of
        (Some sid, Some c) \<Rightarrow>
          if sid = [] \<or> c \<in> set (pl_aborted p) \<or> pl_refreshing p then p
          else if now - pl_last_refresh p < 5000 then p\<lparr>pl_error := Some NotPlayable\<rparr>
          else new_task (RefreshingUrl c sid)
            (p\<lparr>pl_last_refresh := now, pl_refreshing := True, pl_restore := Some (currentTime, \<not> isPaused)\<rparr>)
      | _ \<Rightarrow> p)"

definition refresh_answered :: "nat \<Rightarrow> player_message + string \<Rightarrow> player \<Rightarrow> player" where
  "refresh_answered c r p =
     (let p1 = (if c \<in> set (pl_aborted p) then p
          else case r of Inr url \<Rightarrow> p\<lparr>pl_error := None, pl_src := url\<rparr> | Inl e \<Rightarrow> p\<lparr>pl_error := Some e\<rparr>)
      in p1\<lparr>pl_refreshing := False\<rparr>)"

definition requestDeletion :: "player \<Rightarrow> player" where
  "requestDeletion p =
     (case pl_session p of
        None \<Rightarrow> p
      | Some sid \<Rightarrow> if sid = [] \<or> pl_confirm p \<noteq> sid then p else new_task (Deleting sid) p)"

definition deletion_answered :: "player_message + string \<Rightarrow> player \<Rightarrow> player" where
  "deletion_answered r p =
     (case r of
        Inr state \<Rightarrow> setDeletionState state ((abort_current p)\<lparr>pl_src := [], pl_error := None\<rparr>)
      | Inl e \<Rightarrow> p\<lparr>pl_error := Some e\<rparr>)"

definition poll_answered :: "nat \<Rightarrow> player_message + string \<Rightarrow> player \<Rightarrow> player" where
  "poll_answered k r p =
     (if pl_poll p \<noteq> Some k then p
      else case r of
        Inr state \<Rightarrow> if state = ''deleted'' then setDeletionState ''deleted'' p else p\<lparr>pl_poll_waits := True\<rparr>
      | Inl e \<Rightarrow> p\<lparr>pl_error := Some e\<rparr>)"

definition poll_timer :: "player \<Rightarrow> player" where
  "poll_timer p =
     (case pl_poll p of
        None \<Rightarrow> p
      | Some k \<Rightarrow> if pl_poll_waits p then new_task (PollingStatus k) (p\<lparr>pl_poll_waits := False\<rparr>) else p)"

text \<open>The URL of a loading or refreshing task is noted before the code sees it.\<close>

definition note_url :: "player_task \<Rightarrow> player_message + string \<Rightarrow> player \<Rightarrow> player" where
  "note_url t r p =
     (case (t, r) of
        (LoadingUrl c sid, Inr url) \<Rightarrow> p\<lparr>pl_answers := (sid, url) # pl_answers p\<rparr>
      | (RefreshingUrl c sid, Inr url) \<Rightarrow> p\<lparr>pl_answers := (sid, url) # pl_answers p\<rparr>
      | _ \<Rightarrow> p)"

definition player_answered :: "nat \<Rightarrow> player_message + string \<Rightarrow> player \<Rightarrow> player" where
  "player_answered i r p =
     (case map_of (pl_tasks p) i of
        None \<Rightarrow> p
      | Some t \<Rightarrow>
          let p1 = note_url t r (p\<lparr>pl_tasks := filter (\<lambda>e. fst e \<noteq> i) (pl_tasks p)\<rparr>)
          in case t of
            LoadingUrl c sid \<Rightarrow> url_answered c r p1
          | RefreshingUrl c sid \<Rightarrow> refresh_answered c r p1
          | Deleting sid \<Rightarrow> deletion_answered r p1
          | PollingStatus k \<Rightarrow> poll_answered k r p1)"

datatype player_event =
    OpenSession "string option"
  | VideoError ms rat bool
  | MetadataLoaded
  | TypeConfirm string
  | ClickDelete
  | PollTimer
  | TaskAnswer nat "player_message + string"

definition player_event :: "player_event \<Rightarrow> player \<Rightarrow> player" where
  "player_event ev p =
     (case ev of
        OpenSession sid \<Rightarrow> open_session sid p
      | VideoError now t isPaused \<Rightarrow> if pl_src p \<noteq> [] then refreshPlayback now t isPaused p else p
      | MetadataLoaded \<Rightarrow> p\<lparr>pl_restore := None\<rparr>
      | TypeConfirm t \<Rightarrow> p\<lparr>pl_confirm := t\<rparr>
      | ClickDelete \<Rightarrow> requestDeletion p
      | PollTimer \<Rightarrow> poll_timer p
      | TaskAnswer i r \<Rightarrow> player_answered i r p)"

definition player_run :: "player_event list \<Rightarrow> player" where
  "player_run evs = fold player_event evs initial_player"

section \<open>The video shown is that of the session shown\<close>

definition src_ok :: "player \<Rightarrow> bool" where
  "src_ok p \<longleftrightarrow> pl_src p = [] \<or> (\<exists>sid. pl_session p = Some sid \<and> (sid, pl_src p) \<in> set (pl_answers p))"

fun task_ok :: "player \<Rightarrow> player_task \<Rightarrow> bool" where
  "task_ok p (LoadingUrl c sid) \<longleftrightarrow> c < pl_next p \<and> (c \<notin> set (pl_aborted p) \<longrightarrow> pl_controller p = Some c \<and> pl_session p = Some sid)"
| "task_ok p (RefreshingUrl c sid) \<longleftrightarrow> c < pl_next p \<and> (c \<notin> set (pl_aborted p) \<longrightarrow> pl_controller p = Some c \<and> pl_session p = Some sid)"
| "task_ok p t = True"

definition player_inv :: "player \<Rightarrow> bool" where
  "player_inv p \<longleftrightarrow> src_ok p \<and> (\<forall>e \<in> set (pl_tasks p). task_ok p (snd e)) \<and>
     (\<forall>c \<in> set (pl_aborted p). c < pl_next p) \<and> (\<forall>c. pl_controller p = Some c \<longrightarrow> c < pl_next p)"

text \<open>What the invariant reads: a step that keeps it all, keeps the invariant.\<close>

definition player_core where
  "player_core p = (pl_session p, pl_src p, pl_controller p, pl_aborted p, pl_next p, pl_tasks p, pl_answers p)"

lemma task_ok_core: "player_core p = player_core q \<Longrightarrow> task_ok p t = task_ok q t"
  by (cases t) (simp_all add: player_core_def)

lemma inv_core: "player_core p = player_core q \<Longrightarrow> player_inv q \<Longrightarrow> player_inv p"
  using task_ok_core [of p q] by (simp add: player_core_def player_inv_def src_ok_def)

lemma player_core_updates [simp]:
  "player_core (p\<lparr>pl_error := e\<rparr>) = player_core p" "player_core (p\<lparr>pl_confirm := t\<rparr>) = player_core p"
  "player_core (p\<lparr>pl_deletion := d\<rparr>) = player_core p" "player_core (p\<lparr>pl_poll := k\<rparr>) = player_core p"
  "player_core (p\<lparr>pl_poll_waits := b\<rparr>) = player_core p" "player_core (p\<lparr>pl_refreshing := b\<rparr>) = player_core p"
  "player_core (p\<lparr>pl_last_refresh := n\<rparr>) = player_core p" "player_core (p\<lparr>pl_restore := r\<rparr>) = player_core p"
  by (simp_all add: player_core_def)

lemma task_ok_later: "task_ok p t \<Longrightarrow> task_ok (p\<lparr>pl_tasks := ts, pl_next := Suc (pl_next p)\<rparr>) t"
  by (cases t) auto

lemma inv_next:
  assumes "player_inv p"
  shows "player_inv (p\<lparr>pl_next := pl_next p + n\<rparr>)"
proof -
  have "task_ok p t \<Longrightarrow> task_ok (p\<lparr>pl_next := pl_next p + n\<rparr>) t" for t by (cases t) auto
  with assms show ?thesis by (auto simp: player_inv_def src_ok_def)
qed

lemma inv_new_task:
  assumes "player_inv p" and "task_ok p t"
  shows "player_inv (new_task t p)"
  using assms task_ok_later [of p] by (auto simp: player_inv_def src_ok_def new_task_def)

lemma inv_poll:
  assumes "player_inv p"
  shows "player_inv (stop_poll p)" "player_inv (poll_effect p)" "player_inv (setDeletionState d p)"
proof -
  have s: "player_inv (stop_poll p)" if "player_inv p" for p
    by (rule inv_core [OF _ that]) (simp add: stop_poll_def)
  have n: "player_inv (q\<lparr>pl_poll := x, pl_next := pl_next q + 1\<rparr>)" if "player_inv q" for q x
    by (rule inv_core [OF _ inv_next [OF that, of 1]]) (simp add: player_core_def)
  have e: "player_inv (poll_effect p)" if "player_inv p" for p
    using n [OF s [OF that]] s [OF that] by (simp add: poll_effect_def Let_def inv_new_task)
  have "player_inv (p\<lparr>pl_deletion := d\<rparr>)" by (rule inv_core [OF _ assms]) simp
  from e [OF this] s [OF assms] e [OF assms] assms
  show "player_inv (stop_poll p)" "player_inv (poll_effect p)" "player_inv (setDeletionState d p)"
    by (simp_all add: setDeletionState_def)
qed

lemma inv_abort:
  assumes "player_inv p"
  shows "player_inv (abort_current p)"
proof (cases "pl_controller p")
  case (Some c)
  have "task_ok p t \<Longrightarrow> task_ok (p\<lparr>pl_aborted := c # pl_aborted p\<rparr>) t" for t by (cases t) auto
  with assms Some show ?thesis by (auto simp: player_inv_def src_ok_def abort_current_def)
qed (simp add: abort_current_def assms)

lemma inv_clear_src: "player_inv p \<Longrightarrow> player_inv (p\<lparr>pl_src := []\<rparr>)"
proof -
  have "task_ok (p\<lparr>pl_src := []\<rparr>) t = task_ok p t" for t by (cases t) simp_all
  then show "player_inv p \<Longrightarrow> player_inv (p\<lparr>pl_src := []\<rparr>)" by (simp add: player_inv_def src_ok_def)
qed

text \<open>After its cleanup the old requests are all aborted, so the session may change.\<close>

lemma inv_detached:
  assumes "player_inv p"
  shows "player_inv ((abort_current p)\<lparr>pl_controller := None, pl_session := sid, pl_src := []\<rparr>)"
proof -
  let ?q = "(abort_current p)\<lparr>pl_controller := None, pl_session := sid, pl_src := []\<rparr>"
  have "task_ok p t \<Longrightarrow> task_ok ?q t" for t
    by (cases t; cases "pl_controller p") (auto simp: abort_current_def)
  with inv_abort [OF assms] assms show ?thesis
    by (cases "pl_controller p") (auto simp: player_inv_def src_ok_def abort_current_def)
qed

lemma inv_controller:
  assumes "player_inv p" and "pl_controller p = None" and "pl_session p = Some sid"
  shows "player_inv (new_task (LoadingUrl (pl_next p) sid) (p\<lparr>pl_controller := Some (pl_next p), pl_next := pl_next p + 1\<rparr>))"
proof (rule inv_new_task)
  let ?q = "p\<lparr>pl_controller := Some (pl_next p), pl_next := pl_next p + 1\<rparr>"
  have "task_ok p t \<Longrightarrow> task_ok ?q t" for t using assms(2) by (cases t) auto
  with assms(1) show "player_inv ?q" by (auto simp: player_inv_def src_ok_def)
qed (simp add: assms(3))

lemma inv_load:
  assumes "player_inv (p\<lparr>pl_src := []\<rparr>)" and "pl_controller p = None"
  shows "player_inv (load_effect p)"
proof -
  let ?q = "p\<lparr>pl_error := None, pl_src := [], pl_confirm := [], pl_restore := None, pl_last_refresh := 0\<rparr>"
  have q: "player_inv ?q" by (rule inv_core [OF _ assms(1)]) (simp add: player_core_def)
  from inv_controller [OF this] assms(2) q show ?thesis
    by (auto simp: load_effect_def Let_def split: option.splits)
qed

lemma inv_open:
  assumes "player_inv p"
  shows "player_inv (open_session sid p)"
proof -
  have "player_inv (load_effect ((abort_current p)\<lparr>pl_controller := None, pl_session := sid\<rparr>))"
    by (rule inv_load) (use inv_detached [OF assms, of sid] in simp_all)
  from inv_poll(3) [OF inv_poll(2) [OF this]] show ?thesis by (simp add: open_session_def Let_def)
qed

lemma inv_refreshPlayback:
  assumes "player_inv p"
  shows "player_inv (refreshPlayback now t isPaused p)"
proof -
  note same = inv_core [OF _ assms]
  have "player_inv (p\<lparr>pl_last_refresh := now, pl_refreshing := True, pl_restore := r\<rparr>)" for r
    by (rule same) (simp add: player_core_def)
  moreover have "task_ok (p\<lparr>pl_last_refresh := now, pl_refreshing := True, pl_restore := r\<rparr>) (RefreshingUrl c sid)"
    if "pl_session p = Some sid" "pl_controller p = Some c" for c sid r
    using that assms by (simp add: player_inv_def)
  ultimately have n: "player_inv (new_task (RefreshingUrl c sid)
      (p\<lparr>pl_last_refresh := now, pl_refreshing := True, pl_restore := r\<rparr>))"
    if "pl_session p = Some sid" "pl_controller p = Some c" for c sid r
    using that by (intro inv_new_task)
  have "player_inv (p\<lparr>pl_error := e\<rparr>)" for e by (rule same) simp
  with n assms show ?thesis by (simp add: refreshPlayback_def split: option.splits)
qed

lemma inv_shown:
  assumes "player_inv p" and "(sid, url) \<in> set (pl_answers p)" and "pl_session p = Some sid"
  shows "player_inv (p\<lparr>pl_src := url\<rparr>)"
proof -
  have "task_ok (p\<lparr>pl_src := url\<rparr>) t = task_ok p t" for t by (cases t) simp_all
  with assms show ?thesis by (auto simp: player_inv_def src_ok_def)
qed

lemma inv_noted:
  assumes "player_inv p" and "set ts \<subseteq> set (pl_tasks p)"
  shows "player_inv (note_url t r (p\<lparr>pl_tasks := ts\<rparr>))"
proof -
  have "task_ok (p\<lparr>pl_tasks := ts, pl_answers := a\<rparr>) u = task_ok p u" "task_ok (p\<lparr>pl_tasks := ts\<rparr>) u = task_ok p u" for u a
    by (cases u; simp)+
  with assms show ?thesis
    by (cases t; cases r) (auto simp: note_url_def player_inv_def src_ok_def)
qed

lemma noted_fields [simp]:
  "pl_session (note_url t r p) = pl_session p" "pl_aborted (note_url t r p) = pl_aborted p"
  by (simp_all add: note_url_def split: player_task.splits sum.splits)

lemma inv_answered:
  assumes "player_inv p"
  shows "player_inv (player_answered i r p)"
proof (cases "map_of (pl_tasks p) i")
  case (Some t)
  let ?p = "note_url t r (p\<lparr>pl_tasks := filter (\<lambda>e. fst e \<noteq> i) (pl_tasks p)\<rparr>)"
  have inv: "player_inv ?p" by (rule inv_noted [OF assms]) auto
  from assms map_of_SomeD [OF Some] have t: "task_ok p t" by (force simp: player_inv_def)
  have url: "player_inv (?p\<lparr>pl_src := url\<rparr>)"
    if "r = Inr url" "t = LoadingUrl c sid \<or> t = RefreshingUrl c sid" "c \<notin> set (pl_aborted p)" for c sid url
    by (rule inv_shown [OF inv, of sid]) (use that t in \<open>auto simp: note_url_def\<close>)
  have same: "player_core q = player_core q' \<Longrightarrow> player_inv q' \<Longrightarrow> player_inv q" for q q' by (rule inv_core)
  show ?thesis
  proof (cases t)
    case (LoadingUrl c sid)
    with url inv Some show ?thesis
      by (auto simp: player_answered_def url_answered_def Let_def intro: inv_core [OF _ inv] split: sum.splits)
  next
    case (RefreshingUrl c sid)
    have "player_inv q \<Longrightarrow> player_inv (q\<lparr>pl_refreshing := b\<rparr>)" "player_inv q \<Longrightarrow> player_inv (q\<lparr>pl_error := e\<rparr>)" for q b e
      by (rule inv_core; simp)+
    moreover have "player_inv (?p\<lparr>pl_error := None, pl_src := u\<rparr>)" if "r = Inr u" "c \<notin> set (pl_aborted p)" for u
      by (rule inv_core [OF _ url [OF that(1) _ that(2), of sid]]) (use RefreshingUrl in \<open>simp_all add: player_core_def\<close>)
    ultimately show ?thesis using inv Some RefreshingUrl
      by (auto simp: player_answered_def refresh_answered_def Let_def split: sum.splits)
  next
    case (Deleting sid)
    have "player_inv ((abort_current ?p)\<lparr>pl_src := [], pl_error := None\<rparr>)"
      by (rule inv_core [OF _ inv_clear_src [OF inv_abort [OF inv]]]) (simp add: player_core_def)
    from inv_poll(3) [OF this] inv Some Deleting show ?thesis
      by (auto simp: player_answered_def deletion_answered_def Let_def intro: inv_core [OF _ inv] split: sum.splits)
  next
    case (PollingStatus k)
    with inv_poll(3) [OF inv] inv Some show ?thesis
      by (auto simp: player_answered_def poll_answered_def Let_def intro: inv_core [OF _ inv] split: sum.splits)
  qed
qed (simp add: player_answered_def assms)

lemma inv_player_event:
  assumes "player_inv p"
  shows "player_inv (player_event ev p)"
proof -
  note same = inv_core [OF _ assms]
  have d: "player_inv (requestDeletion p)" using assms by (auto simp: requestDeletion_def intro: inv_new_task split: option.splits)
  have "player_inv (p\<lparr>pl_poll_waits := False\<rparr>)" by (rule same) simp
  then have t: "player_inv (poll_timer p)" using assms by (auto simp: poll_timer_def intro: inv_new_task split: option.splits)
  show ?thesis using assms inv_open [OF assms] inv_refreshPlayback [OF assms] inv_answered [OF assms] d t
    by (cases ev) (auto simp: player_event_def intro: same)
qed

lemma inv_player_run: "player_inv (player_run evs)"
proof -
  have "player_inv p \<Longrightarrow> player_inv (fold player_event evs p)" for p
    by (induction evs arbitrary: p) (simp_all add: inv_player_event)
  then show ?thesis
    by (simp add: player_run_def player_inv_def src_ok_def initial_player_def)
qed

text \<open>
  C16: the recording shown is that of the session shown. In every run, whatever sessions are opened
  while requests for others are under way, whichever videos fail and are refreshed, and whatever is
  deleted: the player's source is empty, or a URL that the server gave for the session that is
  open now. No late answer for a session that was left puts its student's video on the screen.
\<close>

theorem recording_belongs_to_the_session:
  "pl_src (player_run evs) = [] \<or>
   (\<exists>sid. pl_session (player_run evs) = Some sid \<and> (sid, pl_src (player_run evs)) \<in> set (pl_answers (player_run evs)))"
  using inv_player_run [of evs] by (simp add: player_inv_def src_ok_def)

end
