(* ===== verification/RubricPanel.thy ===== *)
theory RubricPanel
  imports ReplayTimeline
begin

text \<open>
  \<open>apps/teacher/src/components/RubricScoringPanel.tsx\<close>: the scores and comments that a teacher
  gives, and the reports that are exported from them. A number typed is \<open>None\<close> when it is not finite.
  \<open>label\<close> gives the text of the label of a default category, \<open>num\<close> the text of a number and \<open>fixed1\<close>
  its content with one decimal.
\<close>

section \<open>The scores\<close>

record rubric_category =
  rc_key :: string
  rc_label :: string
  rc_max :: rat

record rubric =
  ru_total :: rat
  ru_categories :: "rubric_category list"

definition DEFAULT_CATEGORIES :: "(string \<Rightarrow> string) \<Rightarrow> rubric_category list" where
  "DEFAULT_CATEGORIES label =
     map (\<lambda>(key, highest). \<lparr>rc_key = key, rc_label = label key, rc_max = highest\<rparr>)
       [(''opening'', 10), (''rapport'', 10), (''questioning'', 20), (''active_listening'', 15), (''follow_up'', 15),
        (''evidence_strategy'', 10), (''avoid_coercion'', 10), (''closing'', 5), (''reflection'', 5)]"

definition clampScore :: "rat option \<Rightarrow> rat \<Rightarrow> rat" where
  "clampScore v highest = (case v of None \<Rightarrow> 0 | Some x \<Rightarrow> min highest (max 0 x))"

record scoring =
  sg_session :: string
  sg_case :: string
  sg_rubric :: "rubric option"
  sg_markers :: "teacher_marker list"
  sg_scores :: "(string \<times> rat) list"
  sg_comments :: "(string \<times> string) list"
  sg_overall :: string

definition categories_of :: "(string \<Rightarrow> string) \<Rightarrow> rubric option \<Rightarrow> rubric_category list" where
  "categories_of label r =
     (case r of Some u \<Rightarrow> if ru_categories u \<noteq> [] then ru_categories u else DEFAULT_CATEGORIES label
      | None \<Rightarrow> DEFAULT_CATEGORIES label)"

definition from_entries :: "('k \<times> 'v) list \<Rightarrow> ('k \<times> 'v) list" where
  "from_entries es = fold (\<lambda>e. map_set (fst e) (snd e)) es []"

text \<open>The effect of a change of the categories.\<close>

definition categories_effect :: "(string \<Rightarrow> string) \<Rightarrow> scoring \<Rightarrow> scoring" where
  "categories_effect label s =
     (let cats = categories_of label (sg_rubric s)
      in s\<lparr>sg_scores := from_entries (map (\<lambda>c.
             (rc_key c, clampScore (Some (nullish (map_of (sg_scores s) (rc_key c)) 0)) (rc_max c))) cats),
           sg_comments := from_entries (map (\<lambda>c. (rc_key c, nullish (map_of (sg_comments s) (rc_key c)) [])) cats)\<rparr>)"

definition score_of :: "scoring \<Rightarrow> rubric_category \<Rightarrow> rat" where
  "score_of s c = clampScore (Some (nullish (map_of (sg_scores s) (rc_key c)) 0)) (rc_max c)"

definition totalScore :: "(string \<Rightarrow> string) \<Rightarrow> scoring \<Rightarrow> rat" where
  "totalScore label s = foldl (\<lambda>total c. total + score_of s c) 0 (categories_of label (sg_rubric s))"

definition totalPossible :: "(string \<Rightarrow> string) \<Rightarrow> scoring \<Rightarrow> rat" where
  "totalPossible label s =
     (case sg_rubric s of
        Some r \<Rightarrow> ru_total r
      | None \<Rightarrow> foldl (\<lambda>total c. total + rc_max c) 0 (categories_of label (sg_rubric s)))"

definition setScore :: "rubric_category \<Rightarrow> rat option \<Rightarrow> scoring \<Rightarrow> scoring" where
  "setScore c v s = s\<lparr>sg_scores := map_set (rc_key c) (clampScore v (rc_max c)) (sg_scores s)\<rparr>"

definition setComment :: "rubric_category \<Rightarrow> string \<Rightarrow> scoring \<Rightarrow> scoring" where
  "setComment c t s = s\<lparr>sg_comments := map_set (rc_key c) t (sg_comments s)\<rparr>"

section \<open>The report and its exports\<close>

record score_item =
  si_key :: string
  si_label :: string
  si_score :: rat
  si_max :: rat
  si_comment :: string

record evaluation_report =
  ev_session_id :: string
  ev_case_id :: string
  ev_exported_at :: string
  ev_total_score :: rat
  ev_total_possible :: rat
  ev_items :: "score_item list"
  ev_overall_comment :: string
  ev_teacher_markers :: "teacher_marker list"

definition buildReport :: "(string \<Rightarrow> string) \<Rightarrow> string \<Rightarrow> scoring \<Rightarrow> evaluation_report" where
  "buildReport label now s =
     \<lparr>ev_session_id = sg_session s, ev_case_id = sg_case s, ev_exported_at = now,
      ev_total_score = totalScore label s, ev_total_possible = totalPossible label s,
      ev_items = map (\<lambda>c. \<lparr>si_key = rc_key c, si_label = rc_label c, si_score = score_of s c, si_max = rc_max c,
        si_comment = nullish (map_of (sg_comments s) (rc_key c)) []\<rparr>) (categories_of label (sg_rubric s)),
      ev_overall_comment = sg_overall s, ev_teacher_markers = sg_markers s\<rparr>"

definition QUOTE :: char where "QUOTE = CHR 0x22"
definition CR :: char where "CR = CHR 0x0D"
definition LF :: char where "LF = CHR 0x0A"

definition csvCell :: "string \<Rightarrow> string" where
  "csvCell content = [QUOTE] @ concat (map (\<lambda>c. if c = QUOTE then [QUOTE, QUOTE] else [c]) content) @ [QUOTE]"

definition csv_rows :: "(rat \<Rightarrow> string) \<Rightarrow> evaluation_report \<Rightarrow> string list list" where
  "csv_rows num r =
     [''session_id'', ''case_id'', ''exported_at'', ''criterion_key'', ''criterion'', ''score'', ''maximum'',
      ''comment'', ''overall_comment''] #
     map (\<lambda>i. [ev_session_id r, ev_case_id r, ev_exported_at r, si_key i, si_label i, num (si_score i), num (si_max i),
       si_comment i, ev_overall_comment r]) (ev_items r)"

text \<open>The text that follows the byte order mark.\<close>

definition exportCsv :: "(rat \<Rightarrow> string) \<Rightarrow> evaluation_report \<Rightarrow> string" where
  "exportCsv num r = js_join [CR, LF] (map (\<lambda>row. js_join '','' (map csvCell row)) (csv_rows num r))"

definition or_dash :: "string \<Rightarrow> string" where
  "or_dash t = (if t = [] then ''-'' else t)"

text \<open>The dash between the time and the note of a marker is an argument: it is not a Latin-1 character.\<close>

definition exportTextReport :: "string \<Rightarrow> (rat \<Rightarrow> string) \<Rightarrow> (rat \<Rightarrow> string) \<Rightarrow> evaluation_report \<Rightarrow> string" where
  "exportTextReport dash num fixed1 r = js_join [CR, LF]
     ([''Mind Probe scoring report'', ''Session: '' @ ev_session_id r, ''Case: '' @ ev_case_id r,
       ''Exported: '' @ ev_exported_at r,
       ''Total: '' @ num (ev_total_score r) @ '' / '' @ num (ev_total_possible r), []] @
      concat (map (\<lambda>i. [si_label i @ '': '' @ num (si_score i) @ '' / '' @ num (si_max i),
        ''Comment: '' @ or_dash (si_comment i), []]) (ev_items r)) @
      [''Overall remarks: '' @ or_dash (ev_overall_comment r), [], ''Teacher markers:''] @
      map (\<lambda>m. fixed1 (tm_t_ms m / 1000) @ ''s '' @ dash @ '' '' @ tm_note m) (ev_teacher_markers r))"

section \<open>The scores stay in their range\<close>

datatype scoring_event =
    OpenReview string string "rubric option" "teacher_marker list"
  | SetScore rubric_category "rat option"
  | SetComment rubric_category string
  | SetOverall string

text \<open>New properties of the panel; its effect runs when the rubric, and so the categories, changed.\<close>

definition scoring_event :: "(string \<Rightarrow> string) \<Rightarrow> scoring_event \<Rightarrow> scoring \<Rightarrow> scoring" where
  "scoring_event label ev s =
     (case ev of
        OpenReview sid cid r markers \<Rightarrow>
          let s1 = s\<lparr>sg_session := sid, sg_case := cid, sg_rubric := r, sg_markers := markers\<rparr>
          in if categories_of label r = categories_of label (sg_rubric s) then s1 else categories_effect label s1
      | SetScore c v \<Rightarrow> setScore c v s
      | SetComment c t \<Rightarrow> setComment c t s
      | SetOverall t \<Rightarrow> s\<lparr>sg_overall := t\<rparr>)"

lemma clamp_bounds: "clampScore (Some x) m \<le> m" "0 \<le> m \<Longrightarrow> 0 \<le> clampScore v m"
  by (simp_all add: clampScore_def split: option.split)

lemma foldl_plus: "foldl (\<lambda>t c. t + (f c :: rat)) a xs = a + sum_list (map f xs)"
  by (induction xs arbitrary: a) (simp_all add: add.assoc)

text \<open>
  C37: a report adds up. Whatever was typed, whichever rubrics came and went, and whatever the panel
  kept from before: no item of a report has more than its maximum, none has less than nothing unless
  its maximum is negative; the total is the sum of the items and at most the sum of their maxima;
  there is one item for each category of the rubric that is shown, in its order.
\<close>

theorem report_adds_up:
  "let s = fold (scoring_event label) evs s0; r = buildReport label now s in
     list_all (\<lambda>i. si_score i \<le> si_max i \<and> (0 \<le> si_score i \<or> si_max i < 0)) (ev_items r) \<and>
     ev_total_score r = sum_list (map si_score (ev_items r)) \<and>
     ev_total_score r \<le> sum_list (map si_max (ev_items r)) \<and>
     map si_key (ev_items r) = map rc_key (categories_of label (sg_rubric s))"
proof -
  have total: "ev_total_score (buildReport label now s) = sum_list (map si_score (ev_items (buildReport label now s)))" for s
    by (simp add: buildReport_def totalScore_def foldl_plus comp_def)
  have items: "list_all (\<lambda>i. si_score i \<le> si_max i \<and> (0 \<le> si_score i \<or> si_max i < 0)) (ev_items (buildReport label now s))" for s
    by (auto simp: buildReport_def list_all_iff score_of_def clampScore_def)
  have sums: "sum_list (map si_score xs) \<le> sum_list (map si_max xs)" if "list_all (\<lambda>i. si_score i \<le> si_max i) xs" for xs
    using that by (induction xs) (simp_all add: add_mono)
  have "list_all (\<lambda>i. si_score i \<le> si_max i) (ev_items (buildReport label now s))" for s
    using items [of s] by (simp add: list_all_iff)
  then have most: "ev_total_score (buildReport label now s) \<le> sum_list (map si_max (ev_items (buildReport label now s)))" for s
    unfolding total by (rule sums)
  have keys: "map si_key (ev_items (buildReport label now s)) = map rc_key (categories_of label (sg_rubric s))" for s
    by (simp add: buildReport_def comp_def)
  show ?thesis unfolding Let_def by (intro conjI items total most keys)
qed

section \<open>The exported table is readable\<close>

text \<open>
  A reader of comma-separated tables whose cells are all quoted, as RFC 4180 describes them: a
  machine over the characters. It holds the rows that are complete, the cells of the current row
  and the current cell.
\<close>

datatype csv_mode = CellStart | Inside | QuoteSeen | CrSeen

type_synonym csv_state = "csv_mode \<times> string \<times> string list \<times> string list list"

fun csv_step :: "char \<Rightarrow> csv_state option \<Rightarrow> csv_state option" where
  "csv_step c None = None"
| "csv_step c (Some (CellStart, cell, row, rows)) = (if c = QUOTE then Some (Inside, [], row, rows) else None)"
| "csv_step c (Some (Inside, cell, row, rows)) =
     (if c = QUOTE then Some (QuoteSeen, cell, row, rows) else Some (Inside, cell @ [c], row, rows))"
| "csv_step c (Some (QuoteSeen, cell, row, rows)) =
     (if c = QUOTE then Some (Inside, cell @ [QUOTE], row, rows)
      else if c = CHR '','' then Some (CellStart, [], row @ [cell], rows)
      else if c = CR then Some (CrSeen, [], [], rows @ [row @ [cell]])
      else None)"
| "csv_step c (Some (CrSeen, cell, row, rows)) = (if c = LF then Some (CellStart, [], [], rows) else None)"

definition csv_read :: "string \<Rightarrow> string list list option" where
  "csv_read content =
     (case fold csv_step content (Some (CellStart, [], [], [])) of
        Some (QuoteSeen, cell, row, rows) \<Rightarrow> Some (rows @ [row @ [cell]])
      | _ \<Rightarrow> None)"

lemma separators [simp]: "CHR '','' \<noteq> QUOTE" "CR \<noteq> QUOTE" "LF \<noteq> QUOTE" "CR \<noteq> CHR '',''"
  by (simp_all add: QUOTE_def CR_def LF_def)

lemma read_body:
  "fold csv_step (concat (map (\<lambda>c. if c = QUOTE then [QUOTE, QUOTE] else [c]) content)) (Some (Inside, cell, row, rows)) =
     Some (Inside, cell @ content, row, rows)"
  by (induction content arbitrary: cell) simp_all

lemma read_csvCell:
  "fold csv_step (csvCell content) (Some (CellStart, cell, row, rows)) = Some (QuoteSeen, content, row, rows)"
  by (simp add: csvCell_def read_body)

lemma read_row:
  "cells \<noteq> [] \<Longrightarrow> fold csv_step (js_join '','' (map csvCell cells)) (Some (CellStart, cell, row, rows)) =
     Some (QuoteSeen, last cells, row @ butlast cells, rows)"
proof (induction cells arbitrary: cell row)
  case (Cons c cs)
  then show ?case by (cases cs) (simp_all add: read_csvCell)
qed simp

lemma read_rows:
  "table \<noteq> [] \<Longrightarrow> list_all (\<lambda>cells. cells \<noteq> []) table \<Longrightarrow>
   fold csv_step (js_join [CR, LF] (map (\<lambda>cells. js_join '','' (map csvCell cells)) table)) (Some (CellStart, cell, [], rows)) =
     Some (QuoteSeen, last (last table), butlast (last table), rows @ butlast table)"
proof (induction table arbitrary: cell rows)
  case (Cons r rs)
  then show ?case by (cases rs) (simp_all add: read_row append_butlast_last_id)
qed simp

text \<open>
  C38: the export loses nothing. Whatever the teacher wrote into the comments and remarks (quotes,
  commas, line ends), and whatever the ids and labels contain, a reader of such tables gets back
  from the exported text exactly the header and one row for each item of the report.
\<close>

theorem exported_table_reads_back: "csv_read (exportCsv num r) = Some (csv_rows num r)"
proof -
  let ?t = "csv_rows num r"
  have t: "?t \<noteq> []" "list_all (\<lambda>cells. cells \<noteq> []) ?t" by (auto simp: csv_rows_def list_all_iff)
  then have "last ?t \<noteq> []" by (simp add: list_all_iff)
  with t show ?thesis
    by (simp add: csv_read_def exportCsv_def read_rows append_butlast_last_id)
qed

text \<open>
  Nothing in the panel belongs to a session: what was scored in one review is still there, and is
  exported, in the next one with the same categories.
\<close>

lemma scores_survive_a_change_of_session:
  "categories_of label r = categories_of label (sg_rubric s) \<Longrightarrow>
   map si_score (ev_items (buildReport label now (scoring_event label (OpenReview sid cid r markers) s))) =
     map si_score (ev_items (buildReport label now s))"
  by (simp add: scoring_event_def buildReport_def score_of_def comp_def Let_def)

end
