(* ===== verification/TeacherPage.thy ===== *)
theory TeacherPage
  imports ReviewSession
begin

text \<open>
  \<open>apps/teacher/src/App.tsx\<close> with \<open>api.ts\<close>, \<open>reviewErrors.ts\<close> and \<open>sessionAuthMode.ts\<close>: the page of the
  teacher. It logs in, loads the parts of a review one after the other, shows them, and logs out.
  The module state of the review login (\<open>ReviewSession\<close>) is a part of the page; its own requests
  and refreshes go on between the page's steps, and what they notify abandons the review. A load
  and a logout under way are tasks. A body of the server is a value of \<open>json\<close>, whose fields are read
  as the texts that the server promises.
\<close>

section \<open>Errors\<close>

text \<open>\<open>reviewErrors.ts\<close>: the texts are constructors, an unknown detail is its own text.\<close>

datatype error_text = RateLimited | InvalidCode | Revoked | RefreshReused | NoLongerValid | Expired | Verbatim string

definition reviewErrorMessage :: "string \<Rightarrow> error_text" where
  "reviewErrorMessage detail =
     (if detail = ''rate_limited'' then RateLimited
      else if detail = ''invalid_review_code'' then InvalidCode
      else if detail = ''revoked_session_token'' then Revoked
      else if detail = ''refresh_reused'' then RefreshReused
      else if detail = ''expired_session_token'' \<or> detail = ''expired'' then Expired
      else if detail = ''invalid_refresh_token'' \<or> detail = ''review session missing'' \<or>
        detail = ''review refresh incomplete'' then NoLongerValid
      else Verbatim detail)"

definition shouldReturnToReviewLogin :: "string \<Rightarrow> bool" where
  "shouldReturnToReviewLogin detail \<longleftrightarrow>
     detail \<in> {''revoked_session_token'', ''refresh_reused'', ''invalid_refresh_token'', ''expired_session_token'',
       ''expired'', ''invalid_review_code'', ''rate_limited''}"

datatype load_error = ReviewRequestError string error_text | PlainError string

fun errorText :: "load_error \<Rightarrow> error_text" where
  "errorText (ReviewRequestError detail message) =
     (if message = Verbatim [] then Verbatim ''Unable to load review session.'' else message)"
| "errorText (PlainError message) =
     Verbatim (if message = [] then ''Unable to load review session.'' else message)"

section \<open>Requests\<close>

text \<open>\<open>dec\<close> is \<open>decodeURIComponent\<close>, which fails on a malformed text.\<close>

definition sessionIdFromPath :: "(string \<Rightarrow> string option) \<Rightarrow> string \<Rightarrow> string option" where
  "sessionIdFromPath dec path =
     (if \<not> startsWith path ''/sessions/'' then None
      else let found = takeWhile (\<lambda>c. c \<notin> set ''/?#'') (drop (length ''/sessions/'') path)
        in if found = [] then None else Some (nullish (dec found) found))"

definition bearerFrom :: "string option \<Rightarrow> string" where
  "bearerFrom authorization =
     (let v = nullish authorization []
      in if toLowerCase (take 7 v) \<noteq> ''bearer '' then [] else js_trim (drop 7 v))"

text \<open>
  An error response, whose body is parsed as JSON or is not JSON. Reading the text of a body that
  was already read rejects. \<open>stringify\<close> is \<open>JSON.stringify\<close>, \<open>status_text\<close> the status line.
\<close>

definition js_falsy :: "json \<Rightarrow> bool" where
  "js_falsy v \<longleftrightarrow> v = JNull \<or> v = JBool False \<or> v = JNum 0 \<or> v = JStr []"

definition responseError :: "(json \<Rightarrow> string) \<Rightarrow> string \<Rightarrow> json option \<Rightarrow> load_error" where
  "responseError stringify status_text body =
     (case body of
        None \<Rightarrow> PlainError ''body stream already read''
      | Some JNull \<Rightarrow> PlainError ''body stream already read''
      | Some b \<Rightarrow>
          (case field b ''detail'' of
             Some d \<Rightarrow>
               if js_falsy d then ReviewRequestError status_text (Verbatim status_text)
               else (case d of
                   JStr detail \<Rightarrow> ReviewRequestError detail (reviewErrorMessage detail)
                 | _ \<Rightarrow> ReviewRequestError (stringify d) (Verbatim (stringify d)))
           | None \<Rightarrow> ReviewRequestError status_text (Verbatim status_text)))"

definition readDetail :: "json option \<Rightarrow> string" where
  "readDetail body = (case body of Some b \<Rightarrow> nullish (string_field b ''detail'') [] | None \<Rightarrow> [])"

definition ok_status :: "int \<Rightarrow> bool" where
  "ok_status http \<longleftrightarrow> 200 \<le> http \<and> http < 300"

text \<open>A response: its status, status line and body.\<close>

record response =
  rp_status :: int
  rp_status_text :: string
  rp_body :: "json option"

definition fetchJson :: "(json \<Rightarrow> string) \<Rightarrow> response \<Rightarrow> load_error + json" where
  "fetchJson stringify r =
     (if \<not> ok_status (rp_status r) then Inl (responseError stringify (rp_status_text r) (rp_body r))
      else case rp_body r of Some b \<Rightarrow> Inr b | None \<Rightarrow> Inl (PlainError ''Unexpected token''))"

text \<open>A deleted recording is a status with no chunks.\<close>

datatype recording_status = NoRecording "string option" | StatusBody json

definition fetchRecordingStatus :: "(json \<Rightarrow> string) \<Rightarrow> response \<Rightarrow> load_error + recording_status" where
  "fetchRecordingStatus stringify r =
     (if rp_status r = 410 then
        (case Option.bind (rp_body r) (\<lambda>b. field b ''detail'') of
           None \<Rightarrow> Inl (PlainError ''Cannot read properties'')
         | Some d \<Rightarrow>
             if d = JNull then Inl (PlainError ''Cannot read properties'')
             else Inr (NoRecording (string_field d ''recording_state'')))
      else (case fetchJson stringify r of Inl e \<Rightarrow> Inl e | Inr b \<Rightarrow> Inr (StatusBody b)))"

text \<open>The audit log may be refused without failing the load, unless the login itself is gone.\<close>

definition fetchAuditLogs :: "(json \<Rightarrow> string) \<Rightarrow> response \<Rightarrow> load_error + json option" where
  "fetchAuditLogs stringify r =
     (let detail = readDetail (rp_body r)
      in if rp_status r = 401 \<and> (isUnrecoverableReviewDetail detail \<or> isExpiredReviewDetail detail)
         then Inl (ReviewRequestError detail (reviewErrorMessage detail))
         else if rp_status r = 401 \<or> rp_status r = 403 then Inr None
         else (case fetchJson stringify r of Inl e \<Rightarrow> Inl e | Inr b \<Rightarrow> Inr (Some b)))"






section \<open>The page\<close>

datatype auth_mode = JoinCode | Bearer | ReviewCode

fun auth_mode_name :: "auth_mode \<Rightarrow> string" where
  "auth_mode_name JoinCode = ''join_code''"
| "auth_mode_name Bearer = ''bearer''"
| "auth_mode_name ReviewCode = ''review_code''"

definition AUTH_MODE_KEY :: string where
  "AUTH_MODE_KEY = ''mindprobe.teacher_auth_mode''"

definition readAuthMode :: "web_storage \<Rightarrow> auth_mode" where
  "readAuthMode st =
     (let v = readStorage AUTH_MODE_KEY st
      in if v = Some ''bearer'' then Bearer else if v = Some ''review_code'' then ReviewCode else JoinCode)"

record load_request =
  lr_sessionId :: string
  lr_authMode :: auth_mode
  lr_credential :: string

text \<open>
  A load: of the login that the page found when it was opened, or of a request of the form. It waits
  for its login, or has read some of the six parts with its token.
\<close>

datatype load_phase = AwaitingLogin | Reading string "json list"

record load =
  ld_boot :: bool
  ld_request :: load_request
  ld_phase :: load_phase

text \<open>\<open>th_loaded\<close> records the completed loads, and \<open>th_review\<close> is the state of the login module.\<close>

record teacher =
  th_review :: review
  th_mode :: auth_mode
  th_auth :: string
  th_session :: "json option"
  th_timeline :: "json option"
  th_status :: "json option"
  th_rubric :: "json option"
  th_clips :: "json option"
  th_audit :: "json option"
  th_markers :: json
  th_time :: rat
  th_seek :: "rat option"
  th_loading :: bool
  th_error :: "error_text option"
  th_signed_in :: bool
  th_logout_pending :: bool
  th_nonce :: nat
  th_loads :: "(nat \<times> load) list"
  th_logouts :: "nat list"
  th_next :: nat
  th_loaded :: "(string \<times> json list) list"

definition in_review :: "(review \<Rightarrow> review) \<Rightarrow> teacher \<Rightarrow> teacher" where
  "in_review f s = s\<lparr>th_review := f (th_review s)\<rparr>"

definition rememberAuthMode :: "auth_mode \<Rightarrow> review \<Rightarrow> review" where
  "rememberAuthMode mode = in_storage (writeStorage AUTH_MODE_KEY (auth_mode_name mode))"

definition setMode :: "auth_mode \<Rightarrow> teacher \<Rightarrow> teacher" where
  "setMode mode s = in_review (rememberAuthMode mode) (s\<lparr>th_mode := mode\<rparr>)"

definition stored_login :: "teacher \<Rightarrow> review_session option \<times> teacher" where
  "stored_login s = (let (stored, r) = readReviewSession (th_review s) in (stored, s\<lparr>th_review := r\<rparr>))"

definition clear_parts :: "teacher \<Rightarrow> teacher" where
  "clear_parts s = s\<lparr>th_session := None, th_timeline := None, th_status := None, th_rubric := None,
     th_audit := None, th_clips := None, th_markers := JArr []\<rparr>"

definition abandonReview :: "error_text option \<Rightarrow> teacher \<Rightarrow> teacher" where
  "abandonReview message s =
     setMode ReviewCode ((clear_parts s)\<lparr>th_auth := [], th_time := 0, th_seek := None, th_loading := False,
       th_signed_in := False, th_error := message, th_nonce := th_nonce s + 1\<rparr>)"

text \<open>What the login module notified since \<open>before\<close> reaches the page's listener.\<close>

definition hear :: "teacher \<Rightarrow> teacher \<Rightarrow> teacher" where
  "hear before s =
     fold (\<lambda>note. abandonReview (Some (reviewErrorMessage (snd note))))
       (drop (length (rv_notified (th_review before))) (rv_notified (th_review s))) s"

section \<open>Loading\<close>

definition begin_load :: "load \<Rightarrow> teacher \<Rightarrow> teacher" where
  "begin_load l s = s\<lparr>th_loads := th_loads s @ [(th_next s, l)], th_next := th_next s + 1\<rparr>"

definition drop_load :: "nat \<Rightarrow> teacher \<Rightarrow> teacher" where
  "drop_load i s = s\<lparr>th_loads := filter (\<lambda>e. fst e \<noteq> i) (th_loads s)\<rparr>"

definition advance_load :: "nat \<Rightarrow> load_phase \<Rightarrow> teacher \<Rightarrow> teacher" where
  "advance_load i phase s =
     s\<lparr>th_loads := map (\<lambda>e. if fst e = i then (i, (snd e)\<lparr>ld_phase := phase\<rparr>) else e) (th_loads s)\<rparr>"

text \<open>The end of \<open>applyLoaded\<close>. \<open>markers\<close> is what the local storage holds for the session, if it parses.\<close>

definition apply_loaded :: "string \<Rightarrow> string \<Rightarrow> json list \<Rightarrow> json option \<Rightarrow> teacher \<Rightarrow> teacher" where
  "apply_loaded sid token parts markers s =
     (let (stored, s1) = stored_login s;
          accessToken = (case stored of Some r \<Rightarrow> if rs_sessionId r = sid then rs_accessToken r else token | None \<Rightarrow> token);
          s2 = in_review (rememberAccessToken sid accessToken) s1
      in s2\<lparr>th_auth := accessToken, th_session := Some (parts ! 0), th_timeline := Some (parts ! 1),
          th_status := Some (parts ! 2), th_rubric := Some (parts ! 3), th_clips := Some (parts ! 4),
          th_audit := (if parts ! 5 = JNull then None else Some (parts ! 5)), th_time := 0, th_seek := Some 0,
          th_markers := (case markers of Some (JArr ms) \<Rightarrow> JArr ms | _ \<Rightarrow> JArr []),
          th_loaded := (sid, parts) # th_loaded s2\<rparr>)"

definition load_done :: "string \<Rightarrow> teacher \<Rightarrow> teacher" where
  "load_done sid s =
     (let (stored, s1) = stored_login s
      in s1\<lparr>th_signed_in := (map_option rs_sessionId stored = Some sid), th_loading := False\<rparr>)"

definition returns_to_login :: "load_error \<Rightarrow> bool" where
  "returns_to_login e = (case e of ReviewRequestError detail message \<Rightarrow> shouldReturnToReviewLogin detail | PlainError m \<Rightarrow> False)"

definition load_failed :: "load \<Rightarrow> load_error \<Rightarrow> teacher \<Rightarrow> teacher" where
  "load_failed l e s =
     (let (stored, s1) = stored_login s;
          s2 = (if ld_boot l then
              (if stored = None \<or> returns_to_login e then (setMode ReviewCode s1)\<lparr>th_signed_in := False\<rparr> else s1)
            else
              let s3 = (if lr_authMode (ld_request l) = ReviewCode \<or> returns_to_login e then setMode ReviewCode s1 else s1)
              in if stored = None then s3\<lparr>th_signed_in := False\<rparr> else s3)
      in s2\<lparr>th_error := Some (errorText e), th_loading := False\<rparr>)"

text \<open>\<open>loadSession\<close> up to its first await.\<close>

definition loadSession :: "load_request \<Rightarrow> teacher \<Rightarrow> teacher" where
  "loadSession req s =
     (let s0 = in_review clearReviewSession (clear_parts (s\<lparr>th_loading := True, th_error := None\<rparr>));
          s1 = (if lr_authMode req = JoinCode then in_review clearReviewSession s0 else s0)
      in begin_load \<lparr>ld_boot = False, ld_request = req,
           ld_phase = (if lr_authMode req = Bearer then Reading (lr_credential req) [] else AwaitingLogin)\<rparr> s1)"

text \<open>The answer to a login: what it throws, or the token and what it keeps.\<close>

definition quoted :: "string \<Rightarrow> string" where
  "quoted t = [CHR 0x27] @ t @ [CHR 0x27]"

definition joined_as :: "load_request \<Rightarrow> json \<Rightarrow> teacher \<Rightarrow> (load_error + string) \<times> teacher" where
  "joined_as req body s =
     (if \<not> truthy (string_field body ''access_token'') then
        (Inl (PlainError ''Join response did not include an access token.''), s)
      else
        let token = the (string_field body ''access_token'');
            sid = (if truthy (string_field body ''session_id'') then the (string_field body ''session_id'') else lr_sessionId req);
            s1 = in_review (rememberAccessToken sid token) s
        in case string_field body ''role'' of
             Some role \<Rightarrow>
               if role = ''teacher'' \<or> role = ''observer'' then (Inr token, s1)
               else (Inl (PlainError (''Join code opened role '' @ quoted role @ '', not a review role.'')), s1)
           | None \<Rightarrow> (Inl (PlainError (''Join code opened role '' @ quoted ''undefined'' @ '', not a review role.'')), s1))"

definition logged_as :: "load_request \<Rightarrow> json \<Rightarrow> teacher \<Rightarrow> (load_error + string) \<times> teacher" where
  "logged_as req body s =
     (if \<not> truthy (string_field body ''access_token'') \<or> \<not> truthy (string_field body ''refresh_token'') then
        (Inl (PlainError ''Review login did not include tokens.''), s)
      else
        let token = the (string_field body ''access_token'');
            login = \<lparr>rs_sessionId = lr_sessionId req, rs_role = nullish (string_field body ''role'') [],
              rs_accessToken = token, rs_refreshToken = the (string_field body ''refresh_token''),
              rs_expiresAt = number_field body ''expires_at''\<rparr>
        in (Inr token, in_review (rememberAccessToken (lr_sessionId req) token \<circ> rememberReviewSession login) s))"

definition login_answered :: "load_request \<Rightarrow> json \<Rightarrow> teacher \<Rightarrow> (load_error + string) \<times> teacher" where
  "login_answered req body s = (if lr_authMode req = JoinCode then joined_as req body s else logged_as req body s)"

definition load_answered :: "nat \<Rightarrow> load_error + json \<Rightarrow> json option \<Rightarrow> teacher \<Rightarrow> teacher" where
  "load_answered i r markers s =
     (case map_of (th_loads s) i of
        None \<Rightarrow> s
      | Some l \<Rightarrow>
          (case r of
             Inl e \<Rightarrow> load_failed l e (drop_load i s)
           | Inr body \<Rightarrow>
               (case ld_phase l of
                  AwaitingLogin \<Rightarrow>
                    (let (t, s1) = login_answered (ld_request l) body s
                     in case t of
                          Inl e \<Rightarrow> load_failed l e (drop_load i s1)
                        | Inr token \<Rightarrow> advance_load i (Reading token []) s1)
                | Reading token parts \<Rightarrow>
                    if length parts < 5 then advance_load i (Reading token (parts @ [body])) s
                    else load_done (lr_sessionId (ld_request l))
                      (apply_loaded (lr_sessionId (ld_request l)) token (parts @ [body]) markers (drop_load i s)))))"

section \<open>Logging out\<close>

definition session_id_of :: "teacher \<Rightarrow> string" where
  "session_id_of s = nullish (Option.bind (th_session s) (\<lambda>b. string_field b ''session_id'')) []"

definition logout :: "teacher \<Rightarrow> teacher" where
  "logout s =
     (let (stored, s1) = stored_login s;
          sid = (case stored of Some r \<Rightarrow> if rs_sessionId r \<noteq> [] then rs_sessionId r else session_id_of s | None \<Rightarrow> session_id_of s);
          token = (case stored of Some r \<Rightarrow> if rs_accessToken r \<noteq> [] then rs_accessToken r else th_auth s | None \<Rightarrow> th_auth s);
          s2 = s1\<lparr>th_error := None\<rparr>
      in if stored \<noteq> None \<and> sid \<noteq> [] \<and> token \<noteq> [] then
           s2\<lparr>th_logout_pending := True, th_logouts := th_logouts s2 @ [th_next s2], th_next := th_next s2 + 1\<rparr>
         else abandonReview None (in_review clearReviewSession s2))"

text \<open>The answer to a logout: done (a 200 or a 401), or an error.\<close>

definition logout_answered :: "nat \<Rightarrow> load_error option \<Rightarrow> teacher \<Rightarrow> teacher" where
  "logout_answered i failure s =
     (if i \<notin> set (th_logouts s) then s
      else
        let s1 = s\<lparr>th_logouts := filter (\<lambda>j. j \<noteq> i) (th_logouts s)\<rparr>;
            s2 = (case failure of
                None \<Rightarrow> abandonReview None (in_review clearReviewSession s1)
              | Some e \<Rightarrow>
                  (let (stored, s3) = stored_login s1
                   in if stored = None then abandonReview None s3 else s3\<lparr>th_error := Some (errorText e)\<rparr>))
        in s2\<lparr>th_logout_pending := False\<rparr>)"

section \<open>Events\<close>

text \<open>
  \<open>Login ev\<close> is a step of the login module for the page's own requests, or a page event. A form can
  be submitted with a session and a credential while nothing loads or logs out; the logout button is
  shown while the page is signed in.
\<close>

datatype teacher_event =
    Submit string string
  | ChooseMode auth_mode
  | ClickLogout
  | LoadAnswer nat "load_error + json" "json option"
  | LogoutAnswer nat "load_error option"
  | Login review_event
  | SeekTo rat
  | SaveMarkers json

definition canSubmit :: "string \<Rightarrow> string \<Rightarrow> teacher \<Rightarrow> bool" where
  "canSubmit sid credential s \<longleftrightarrow> js_trim sid \<noteq> [] \<and> js_trim credential \<noteq> [] \<and> \<not> th_loading s \<and> \<not> th_logout_pending s"

definition teacher_handles :: "teacher_event \<Rightarrow> teacher \<Rightarrow> teacher" where
  "teacher_handles ev s =
     (case ev of
        Submit sid credential \<Rightarrow>
          if canSubmit sid credential s then
            loadSession \<lparr>lr_sessionId = js_trim sid, lr_authMode = th_mode s, lr_credential = js_trim credential\<rparr> s
          else s
      | ChooseMode mode \<Rightarrow> setMode mode s
      | ClickLogout \<Rightarrow> if th_signed_in s \<and> \<not> th_logout_pending s then logout s else s
      | LoadAnswer i r markers \<Rightarrow> load_answered i r markers s
      | LogoutAnswer i failure \<Rightarrow> logout_answered i failure s
      | Login e \<Rightarrow> in_review (review_step e) s
      | SeekTo t \<Rightarrow> s\<lparr>th_seek := Some (max 0 t)\<rparr>
      | SaveMarkers ms \<Rightarrow> s\<lparr>th_markers := ms\<rparr>)"

definition teacher_event :: "teacher_event \<Rightarrow> teacher \<Rightarrow> teacher" where
  "teacher_event ev s = hear s (teacher_handles ev s)"

definition teacher_run :: "teacher_event list \<Rightarrow> teacher \<Rightarrow> teacher" where
  "teacher_run = fold teacher_event"

text \<open>The page is opened over the login of the document, which it loads at once.\<close>

definition open_page :: "string option \<Rightarrow> web_storage \<Rightarrow> teacher" where
  "open_page nav st =
     (let (stored, r) = readReviewSession (open_document nav st);
          r1 = subscribeReviewSessionDrop 0 r;
          s = \<lparr>th_review = r1, th_mode = (if stored = None then readAuthMode (au_storage r1) else ReviewCode),
            th_auth = [], th_session = None, th_timeline = None, th_status = None, th_rubric = None, th_clips = None,
            th_audit = None, th_markers = JArr [], th_time = 0, th_seek = None, th_loading = (stored \<noteq> None),
            th_error = None, th_signed_in = (stored \<noteq> None), th_logout_pending = False, th_nonce = 0, th_loads = [],
            th_logouts = [], th_next = 0, th_loaded = []\<rparr>
      in case stored of
           None \<Rightarrow> s
         | Some j \<Rightarrow> begin_load \<lparr>ld_boot = True,
             ld_request = \<lparr>lr_sessionId = rs_sessionId j, lr_authMode = ReviewCode, lr_credential = []\<rparr>,
             ld_phase = Reading (rs_accessToken j) []\<rparr> (setMode ReviewCode s))"

section \<open>What every event keeps\<close>

definition shows_nothing :: "teacher \<Rightarrow> bool" where
  "shows_nothing s \<longleftrightarrow> th_session s = None \<and> th_timeline s = None \<and> th_status s = None \<and> th_rubric s = None \<and>
     th_clips s = None \<and> th_audit s = None"

definition shows_parts :: "json list \<Rightarrow> teacher \<Rightarrow> bool" where
  "shows_parts parts s \<longleftrightarrow> th_session s = Some (parts ! 0) \<and> th_timeline s = Some (parts ! 1) \<and>
     th_status s = Some (parts ! 2) \<and> th_rubric s = Some (parts ! 3) \<and> th_clips s = Some (parts ! 4) \<and>
     th_audit s = (if parts ! 5 = JNull then None else Some (parts ! 5))"

definition whole :: "teacher \<Rightarrow> bool" where
  "whole s \<longleftrightarrow> shows_nothing s \<or> (\<exists>(sid, parts) \<in> set (th_loaded s). shows_parts parts s)"

definition page_inv :: "teacher \<Rightarrow> bool" where
  "page_inv s \<longleftrightarrow> whole s \<and> (th_loading s \<longrightarrow> th_loads s \<noteq> []) \<and>
     length (th_logouts s) = (if th_logout_pending s then 1 else 0)"

text \<open>The fields that the invariant reads.\<close>

definition shown_core where
  "shown_core s = (th_session s, th_timeline s, th_status s, th_rubric s, th_clips s, th_audit s, th_loaded s)"

definition busy_core where
  "busy_core s = (th_loading s, th_loads s, th_logouts s, th_logout_pending s)"

lemma whole_core: "shown_core s = shown_core s' \<Longrightarrow> whole s = whole s'"
  by (simp add: shown_core_def whole_def shows_nothing_def shows_parts_def)

lemma page_inv_same: "shown_core s = shown_core s' \<Longrightarrow> busy_core s = busy_core s' \<Longrightarrow> page_inv s' \<Longrightarrow> page_inv s"
  using whole_core [of s s'] by (simp add: busy_core_def page_inv_def)

named_theorems page_frame \<open>the steps that leave what is shown, and what is under way, alone\<close>

lemma frame_updates [page_frame]:
  "shown_core (s\<lparr>th_review := r\<rparr>) = shown_core s" "busy_core (s\<lparr>th_review := r\<rparr>) = busy_core s"
  "shown_core (s\<lparr>th_mode := m\<rparr>) = shown_core s" "busy_core (s\<lparr>th_mode := m\<rparr>) = busy_core s"
  "shown_core (s\<lparr>th_error := e\<rparr>) = shown_core s" "busy_core (s\<lparr>th_error := e\<rparr>) = busy_core s"
  "shown_core (s\<lparr>th_signed_in := b\<rparr>) = shown_core s" "busy_core (s\<lparr>th_signed_in := b\<rparr>) = busy_core s"
  "shown_core (s\<lparr>th_markers := j\<rparr>) = shown_core s" "busy_core (s\<lparr>th_markers := j\<rparr>) = busy_core s"
  "shown_core (s\<lparr>th_seek := t\<rparr>) = shown_core s" "busy_core (s\<lparr>th_seek := t\<rparr>) = busy_core s"
  "shown_core (s\<lparr>th_loading := b\<rparr>) = shown_core s" "shown_core (s\<lparr>th_loads := l\<rparr>) = shown_core s"
  "shown_core (s\<lparr>th_logouts := os\<rparr>) = shown_core s" "shown_core (s\<lparr>th_logout_pending := b\<rparr>) = shown_core s"
  "shown_core (s\<lparr>th_next := n\<rparr>) = shown_core s" "busy_core (s\<lparr>th_next := n\<rparr>) = busy_core s"
  by (simp_all add: shown_core_def busy_core_def)

lemma frame_login [page_frame]:
  "shown_core (in_review f s) = shown_core s" "busy_core (in_review f s) = busy_core s"
  "shown_core (setMode m s) = shown_core s" "busy_core (setMode m s) = busy_core s"
  "shown_core (snd (stored_login s)) = shown_core s" "busy_core (snd (stored_login s)) = busy_core s"
  by (simp_all add: in_review_def setMode_def rememberAuthMode_def stored_login_def split_def Let_def page_frame)

lemma frame_answered [page_frame]:
  "shown_core (snd (login_answered req body s)) = shown_core s" "busy_core (snd (login_answered req body s)) = busy_core s"
  by (simp_all add: login_answered_def joined_as_def logged_as_def Let_def page_frame split: option.split)

lemma abandoned: "shows_nothing (abandonReview m s)" "th_loading (abandonReview m s) = False"
  "th_loads (abandonReview m s) = th_loads s" "th_logouts (abandonReview m s) = th_logouts s"
  "th_logout_pending (abandonReview m s) = th_logout_pending s"
  by (simp_all add: abandonReview_def setMode_def rememberAuthMode_def in_review_def clear_parts_def shows_nothing_def)

lemma inv_abandon: "page_inv s \<Longrightarrow> page_inv (abandonReview m s)"
  by (simp add: page_inv_def whole_def abandoned)

lemma inv_hear: "page_inv s \<Longrightarrow> page_inv (hear before s)"
proof -
  have "page_inv s \<Longrightarrow> page_inv (fold (\<lambda>e. abandonReview (Some (reviewErrorMessage (snd e)))) es s)" for es
    by (induction es arbitrary: s) (simp_all add: inv_abandon)
  then show "page_inv s \<Longrightarrow> page_inv (hear before s)" by (simp add: hear_def)
qed

lemma inv_finish:
  assumes "whole s" and "length (th_logouts s) = (if th_logout_pending s then 1 else 0)" and "\<not> th_loading s"
  shows "page_inv s"
  using assms by (simp add: page_inv_def)

lemma failed_parts:
  "shown_core (load_failed l e s) = shown_core s" "th_loading (load_failed l e s) = False"
  "th_logouts (load_failed l e s) = th_logouts s" "th_logout_pending (load_failed l e s) = th_logout_pending s"
proof -
  have b: "busy_core s' = busy_core s \<Longrightarrow> th_logouts s' = th_logouts s \<and> th_logout_pending s' = th_logout_pending s" for s'
    by (simp add: busy_core_def)
  show "shown_core (load_failed l e s) = shown_core s"
    by (simp add: load_failed_def Let_def split_def page_frame)
  show "th_loading (load_failed l e s) = False"
    by (simp add: load_failed_def Let_def split_def)
  show "th_logouts (load_failed l e s) = th_logouts s" "th_logout_pending (load_failed l e s) = th_logout_pending s"
    by (simp_all add: load_failed_def Let_def split_def setMode_def rememberAuthMode_def in_review_def stored_login_def)
qed

lemma inv_failed:
  assumes "page_inv s"
  shows "page_inv (load_failed l e (drop_load i s))"
proof (rule inv_finish)
  have "shown_core (drop_load i s) = shown_core s" by (simp add: drop_load_def page_frame)
  from whole_core [OF failed_parts(1)] whole_core [OF this] assms show "whole (load_failed l e (drop_load i s))"
    by (auto simp: page_inv_def)
qed (use assms in \<open>simp_all add: failed_parts drop_load_def page_inv_def\<close>)

lemma inv_advance: "page_inv s \<Longrightarrow> page_inv (advance_load i p s)"
  by (simp add: page_inv_def advance_load_def whole_def shows_nothing_def shows_parts_def)

lemma inv_applied:
  assumes "page_inv s"
  shows "page_inv (load_done sid (apply_loaded sid token parts markers s))"
proof (rule inv_finish)
  let ?a = "apply_loaded sid token parts markers s"
  have "shows_parts parts ?a" "(sid, parts) \<in> set (th_loaded ?a)"
    by (simp_all add: apply_loaded_def shows_parts_def Let_def split_def)
  then have w: "whole ?a" unfolding whole_def by blast
  have "shown_core (load_done sid ?a) = shown_core ?a" by (simp add: load_done_def Let_def split_def page_frame)
  from whole_core [OF this] w show "whole (load_done sid ?a)" by blast
  show "\<not> th_loading (load_done sid ?a)" by (simp add: load_done_def Let_def split_def)
  show "length (th_logouts (load_done sid ?a)) = (if th_logout_pending (load_done sid ?a) then 1 else 0)"
    using assms by (simp add: load_done_def apply_loaded_def Let_def split_def stored_login_def in_review_def page_inv_def)
qed

lemma inv_load_dropped: "page_inv s \<Longrightarrow> page_inv ((drop_load i s)\<lparr>th_loading := False\<rparr>)"
  by (simp add: page_inv_def drop_load_def whole_def shows_nothing_def shows_parts_def)

lemma applied_loading: "load_done sid (apply_loaded sid token parts markers (s\<lparr>th_loading := b\<rparr>)) =
    load_done sid (apply_loaded sid token parts markers s)"
  by (simp add: load_done_def apply_loaded_def Let_def split_def stored_login_def in_review_def)

lemma inv_load_answered:
  assumes "page_inv s"
  shows "page_inv (load_answered i r markers s)"
proof (cases "map_of (th_loads s) i")
  case (Some l)
  show ?thesis
  proof (cases r)
    case (Inl e)
    with Some inv_failed [OF assms] show ?thesis by (simp add: load_answered_def)
  next
    case (Inr body)
    show ?thesis
    proof (cases "ld_phase l")
      case AwaitingLogin
      have "page_inv (snd (login_answered (ld_request l) body s))"
        by (rule page_inv_same [OF _ _ assms]) (simp_all add: page_frame)
      with Some Inr AwaitingLogin show ?thesis
        by (simp add: load_answered_def Let_def split_def inv_failed inv_advance split: sum.split)
    next
      case (Reading token parts)
      from inv_applied [OF inv_load_dropped [OF assms]] Some Inr Reading inv_advance [OF assms] show ?thesis
        by (simp add: load_answered_def applied_loading)
    qed
  qed
qed (simp add: load_answered_def assms)

lemma inv_logout:
  assumes "page_inv s" and "\<not> th_logout_pending s"
  shows "page_inv (logout s)"
proof -
  let ?s = "(snd (stored_login s))\<lparr>th_error := None\<rparr>"
  have f: "shown_core ?s = shown_core s" "busy_core ?s = busy_core s" by (simp_all add: page_frame)
  have s: "page_inv ?s" by (rule page_inv_same [OF f assms(1)])
  have "page_inv (in_review clearReviewSession ?s)" by (rule page_inv_same [OF _ _ s]) (simp_all add: page_frame)
  then have a: "page_inv (abandonReview None (in_review clearReviewSession ?s))" by (rule inv_abandon)
  have "th_logout_pending ?s = False" using f(2) assms(2) by (simp add: busy_core_def)
  with s have "page_inv (?s\<lparr>th_logout_pending := True, th_logouts := th_logouts ?s @ [k], th_next := n\<rparr>)" for k n
    by (simp add: page_inv_def whole_def shows_nothing_def shows_parts_def)
  with a show ?thesis by (simp add: logout_def Let_def split_def)
qed

lemma inv_logout_answered:
  assumes "page_inv s"
  shows "page_inv (logout_answered i failure s)"
proof (cases "i \<in> set (th_logouts s)")
  case True
  with assms have one: "th_logouts s = [i]" "th_logout_pending s"
    by (auto simp: page_inv_def length_Suc_conv split: if_splits)
  have settled: "page_inv (t\<lparr>th_logout_pending := False\<rparr>)"
    if "whole t" "th_logouts t = []" "th_loading t \<longrightarrow> th_loads t \<noteq> []" for t
    using that by (simp add: page_inv_def whole_def shows_nothing_def shows_parts_def)
  let ?s = "s\<lparr>th_logouts := []\<rparr>"
  have gone: "page_inv ((abandonReview m t)\<lparr>th_logout_pending := False\<rparr>)" if "th_logouts t = []" for m t
    using that by (intro settled) (simp_all add: whole_def abandoned)
  have keep: "page_inv ((snd (stored_login ?s))\<lparr>th_error := e, th_logout_pending := False\<rparr>)" for e
  proof -
    let ?t = "(snd (stored_login ?s))\<lparr>th_error := e\<rparr>"
    have "shown_core ?t = shown_core s" "busy_core ?t = busy_core ?s" by (simp_all add: page_frame)
    with assms whole_core [of ?t s] show ?thesis by (intro settled) (simp_all add: page_inv_def busy_core_def)
  qed
  have "th_logouts (snd (stored_login ?s)) = []" "th_logouts (in_review clearReviewSession ?s) = []"
    by (simp_all add: stored_login_def in_review_def split_def Let_def)
  with gone keep one True show ?thesis
    by (simp add: logout_answered_def Let_def split_def split: option.split)
qed (simp add: logout_answered_def assms)

lemma inv_handles:
  assumes "page_inv s"
  shows "page_inv (teacher_handles ev s)"
proof -
  note same = page_inv_same [OF _ _ assms]

  have load: "page_inv (loadSession req s)" for req
    using assms by (cases "th_logout_pending s") (simp_all add: loadSession_def begin_load_def Let_def page_inv_def
        in_review_def clear_parts_def whole_def shows_nothing_def shows_parts_def)
  show ?thesis using assms load inv_logout [OF assms] inv_load_answered [OF assms] inv_logout_answered [OF assms]
    by (cases ev) (auto simp: teacher_handles_def page_frame intro: same)
qed

lemma inv_open_page: "page_inv (open_page nav st)"
  by (simp add: open_page_def begin_load_def setMode_def rememberAuthMode_def in_review_def page_inv_def whole_def shows_nothing_def
      Let_def split_def split: option.split)

lemma inv_teacher_run: "page_inv (teacher_run evs (open_page nav st))"
proof -
  have "page_inv s \<Longrightarrow> page_inv (fold teacher_event evs s)" for s
    by (induction evs arbitrary: s) (simp_all add: teacher_event_def inv_hear inv_handles)
  then show ?thesis by (simp add: teacher_run_def inv_open_page)
qed

text \<open>
  C17: a review is shown whole. In every run, however loads of different sessions, logins, logouts and
  revocations overlap and fail: the page shows nothing of a review, or the six parts that one and the
  same completed load has read; it never mixes two sessions, nor shows half of one. While it shows
  that it is loading there is a load under way, and while it shows that it is signing out there is
  exactly one logout under way.
\<close>

theorem review_is_shown_whole:
  "let s = teacher_run evs (open_page nav st) in
     (shows_nothing s \<or> (\<exists>(sid, parts) \<in> set (th_loaded s). shows_parts parts s)) \<and>
     \<not> (th_loading s \<and> th_loads s = []) \<and>
     length (th_logouts s) = (if th_logout_pending s then 1 else 0)"
  using inv_teacher_run [of evs nav st] by (auto simp: page_inv_def whole_def Let_def)

section \<open>What a logout leaves\<close>

lemma login_cleared: "readStorageJson REVIEW_SESSION_KEY (au_storage (clearReviewSession r)) = None"
  by (simp add: clearReviewSession_def readStorageJson_def clearJoined_values in_storage_def removeStorage_def)

lemma stored_fst: "fst (stored_login s) = fst (readReviewSession (th_review s))"
  by (simp add: stored_login_def split_def Let_def)

lemma nothing_read: "fst (readReviewSession r) = None \<longleftrightarrow> rv_memory r = None \<and>
    (case readStorageJson REVIEW_SESSION_KEY (au_storage r) of Some v \<Rightarrow> \<not> isStoredReviewSession v | None \<Rightarrow> True)"
  by (simp add: readReviewSession_def Let_def split: option.split)

lemma abandon_review: "rv_memory (th_review (abandonReview m s)) = rv_memory (th_review s)"
  "readStorageJson k (au_storage (th_review (abandonReview m s))) = readStorageJson k (au_storage (th_review s))"
  "rv_notified (th_review (abandonReview m s)) = rv_notified (th_review s)"
  by (simp_all add: abandonReview_def setMode_def rememberAuthMode_def in_review_def clear_parts_def in_storage_def readStorageJson_def
      writeStorage_def)

lemma nothing_stored: "fst (stored_login (abandonReview m (in_review clearReviewSession s))) = None"
  "fst (stored_login t) = None \<Longrightarrow> fst (stored_login (abandonReview m t)) = None"
  by (simp_all add: stored_fst nothing_read abandon_review) (simp add: in_review_def login_cleared)

lemma still_nothing: "fst (stored_login s) = None \<Longrightarrow> fst (stored_login (snd (stored_login s))) = None"
proof -
  have "fst (readReviewSession r) = None \<Longrightarrow> snd (readReviewSession r) = r" for r
    by (auto simp: readReviewSession_def Let_def split: option.splits if_splits)
  then show "fst (stored_login s) = None \<Longrightarrow> fst (stored_login (snd (stored_login s))) = None"
    by (simp add: stored_fst) (simp add: stored_login_def split_def Let_def)
qed

lemma hear_nothing: "rv_notified (th_review s') = rv_notified (th_review s) \<Longrightarrow> hear s s' = s'"
  by (simp add: hear_def)

lemma clear_notified: "rv_notified (clearReviewSession r) = rv_notified r"
proof -
  obtain f t where "clearReviewSession r = (in_storage f (in_storage (removeStorage RELOAD_MARKER_KEY)
      (in_storage (removeStorage REVIEW_SESSION_KEY)
        (r\<lparr>rv_epoch := rv_epoch r + 1, rv_memory := None, rv_known := [], rv_flight := None\<rparr>))))
      \<lparr>au_active := None, au_tokens := t\<rparr>"
    unfolding clearReviewSession_def by (rule clearJoined_shape)
  then show ?thesis by (simp add: in_storage_def)
qed

lemma stored_notified: "rv_notified (th_review (snd (stored_login s))) = rv_notified (th_review s)"
  by (simp add: stored_login_def readReviewSession_def hold_def persistReview_def in_storage_def Let_def split_def
      split: option.split)

text \<open>
  C33: a logout leaves nothing behind, and a failed one pretends nothing. When the server confirms the
  logout (or no longer knows the login), the page shows nothing of the review, holds no token, and
  neither its memory nor its storage has a login that a reload could restore. When the logout fails
  while the login is still held, the page goes on showing what it showed and says why; when the login
  is gone by then, the page is signed out all the same.
\<close>

theorem logout_leaves_nothing:
  "let s = teacher_run evs (open_page nav st); s' = teacher_event (LogoutAnswer i failure) s in
     if i \<notin> set (th_logouts s) then True
     else \<not> th_logout_pending s' \<and>
       (if failure = None \<or> fst (stored_login s) = None
        then shows_nothing s' \<and> th_auth s' = [] \<and> th_signed_in s' = False \<and> th_mode s' = ReviewCode \<and>
          th_markers s' = JArr [] \<and> fst (stored_login s') = None
        else shown_core s' = shown_core s \<and> th_auth s' = th_auth s \<and> th_signed_in s' = th_signed_in s \<and>
          th_error s' = Some (errorText (the failure)))"
proof -
  define s where "s = teacher_run evs (open_page nav st)"
  let ?s = "s\<lparr>th_logouts := filter (\<lambda>j. j \<noteq> i) (th_logouts s)\<rparr>"
  have eq: "fst (stored_login ?s) = fst (stored_login s)" by (simp add: stored_fst)
  have pend: "fst (stored_login (t\<lparr>th_logout_pending := b\<rparr>)) = fst (stored_login t)" for t b
    by (simp add: stored_fst)
  have left: "shows_nothing t \<and> th_auth t = [] \<and> th_signed_in t = False \<and> th_mode t = ReviewCode \<and> th_markers t = JArr []"
    if "t = (abandonReview None u)\<lparr>th_logout_pending := False\<rparr>" for t u
    using that by (simp add: abandonReview_def setMode_def rememberAuthMode_def in_review_def clear_parts_def shows_nothing_def)
  show ?thesis
  proof (cases "i \<in> set (th_logouts s)")
    case True
    show ?thesis
    proof (cases "failure = None \<or> fst (stored_login s) = None")
      case gone: True
      define u where "u = (if failure = None then in_review clearReviewSession ?s else snd (stored_login ?s))"
      let ?t = "(abandonReview None u)\<lparr>th_logout_pending := False\<rparr>"
      have "logout_answered i failure s = ?t"
        using True gone eq by (auto simp: logout_answered_def u_def Let_def split_def)
      moreover have "rv_notified (th_review u) = rv_notified (th_review s)"
        by (simp add: u_def clear_notified stored_notified in_review_def)
      ultimately have e: "teacher_event (LogoutAnswer i failure) s = ?t"
        by (simp add: teacher_event_def teacher_handles_def hear_nothing abandon_review)
      have "fst (stored_login ?t) = None"
        using gone eq nothing_stored still_nothing [of ?s] unfolding pend u_def by auto
      with left [OF refl, of u] True gone show ?thesis by (simp add: Let_def e flip: s_def)
    next
      case False
      then obtain x y where x: "failure = Some x" and y: "fst (readReviewSession (th_review s)) = Some y"
        by (auto simp: stored_fst)
      let ?t = "(snd (stored_login ?s))\<lparr>th_error := Some (errorText x), th_logout_pending := False\<rparr>"
      have "logout_answered i failure s = ?t"
        using True False eq x by (auto simp: logout_answered_def Let_def split_def)
      then have e: "teacher_event (LogoutAnswer i failure) s = ?t"
        by (simp add: teacher_event_def teacher_handles_def hear_nothing stored_notified)
      have "shown_core ?t = shown_core s" by (simp add: page_frame)
      moreover have "\<not> th_logout_pending ?t" "th_auth ?t = th_auth s" "th_signed_in ?t = th_signed_in s"
        "th_error ?t = Some (errorText x)"
        by (simp_all add: stored_login_def split_def Let_def)
      ultimately show ?thesis using True y unfolding Let_def s_def [symmetric] e by (simp add: x stored_fst)
    qed
  qed (simp flip: s_def)
qed

text \<open>
  Nothing cancels a load: the last answer of one that was under way when the review was abandoned
  puts that review back on the page.
\<close>

lemma late_load_shows_an_abandoned_review:
  assumes "map_of (th_loads s) i = Some l" and "ld_phase l = Reading token parts" and "length parts = 5"
  shows "th_session (teacher_handles (LoadAnswer i (Inr b) markers) (abandonReview m s)) = Some (parts ! 0)"
proof -
  have "th_loads (abandonReview m s) = th_loads s" by (rule abandoned)
  with assms show ?thesis
    by (simp add: teacher_handles_def load_answered_def load_done_def apply_loaded_def stored_login_def in_review_def
        nth_append split_def Let_def)
qed

end
