(* ===== verification/Spec2Isabelle.thy ===== *)
theory Spec2Isabelle
  imports UploadQueue RecordingDb RecordingSafety RecordingStart ClockSync StudentSocket WizardSocket
    SessionStart ReviewSession OpConsole StudentEntry WizardConsole SuspectPlayer
    ReplayPlayer RubricPanel TeacherPage
begin

text \<open>
  A verification library for mind-probe, a simulator for interview training. A student's browser
  plays clips of a simulated character and records the student; a wizard's console chooses the
  clips; a teacher reviews the recording; an operator manages the sessions. The four clients
  (\<open>apps/student\<close>, \<open>apps/wizard\<close>, \<open>apps/teacher\<close>, \<open>apps/op\<close>) and their shared package
  (\<open>packages/shared\<close>) are TypeScript; they talk to a session server over HTTP and a WebSocket. The
  library models the logic of the clients.

  \<^bold>\<open>The parts and the theories.\<close>

  The recording path of the student, from the recorder's slices to the server's confirmation:

  \<^item> \<open>UploadQueue\<close> (\<open>uploadQueue.ts\<close>): the persisted row of a take and the decisions over it: when an
    upload or a finalize is due, what a stop, a loss, a takeover, a server status, a permanent
    failure and an upload code do to the row, what the page shows, when records may be discarded.
  \<^item> \<open>RecordingDb\<close> (\<open>recordingDb.ts\<close>): the database with its two object stores and the transactions,
    each of which commits or aborts as a whole.
  \<^item> \<open>Tasks\<close>: asynchronous functions as trees of atomic steps and awaits, and their interleavings.
  \<^item> \<open>RecordingState\<close>, \<open>RecordingTasks\<close>, \<open>RecordingStart\<close> (\<open>recordingController.ts\<close>): the module state,
    the functions that do not wait, those that do, and the start of a take; \<open>RecordingSafety\<close> holds
    the invariant that every interleaving of them keeps.
  \<^item> \<open>StudentEntry\<close> (\<open>api.ts\<close>, \<open>restoreSession.ts\<close>, \<open>uploadRecovery.ts\<close> of the student): what a request
    makes of an answer, the restore after a reload, and who is asked for an upload code.

  The session socket:

  \<^item> \<open>SocketLifecycle\<close> (\<open>socketLifecycle.ts\<close>): the class that decides about admission and reconnects.
  \<^item> \<open>Messages\<close> (\<open>events.ts\<close>, \<open>messages.ts\<close>): the frames, the guards and what the handlers read.
  \<^item> \<open>SocketHook\<close>: what the two socket hooks share (timers, heartbeat, clock probes, pending frames,
    the application of the lifecycle's effects) over an explicit browser with sockets and a clock;
    \<open>StudentSocket\<close> (\<open>useStudentSocket.ts\<close>) and \<open>WizardSocket\<close> (\<open>useSessionSocket.ts\<close>) are the two hooks.
  \<^item> \<open>ClockSync\<close>: how good the clock offset of the hooks is. \<open>SessionStart\<close> (\<open>sessionStart.ts\<close>): the
    start button of the wizard.

  The student's page:

  \<^item> \<open>StudentPage\<close> (\<open>App.tsx\<close>, \<open>useMediaRecorder.ts\<close> of the student): the page with the socket hook of
    \<open>StudentSocket\<close> as a part of its state; its effects after each rendering, and what it asks of the
    recording controller, as the events of \<open>RecordingTasks\<close>.
  \<^item> \<open>SuspectPlayer\<close> (\<open>SuspectVideoPlayer.tsx\<close>): the stage with its two video elements.

  The wizard's page:

  \<^item> \<open>DecisionTree\<close> (\<open>api.ts\<close>, \<open>types.ts\<close> of the wizard): what a request makes of an answer, the parsing
    of the authored tree of questions and clips, and the clip of a selection.
  \<^item> \<open>WizardConsole\<close> (\<open>App.tsx\<close>, \<open>SessionJoinModal.tsx\<close> and the dialogs): the console with the socket
    hook of \<open>WizardSocket\<close> as a part of its state; every key, click, effect and answer.

  The teacher's page:

  \<^item> \<open>TeacherPage\<close> (\<open>App.tsx\<close>, \<open>api.ts\<close>, \<open>reviewErrors.ts\<close>, \<open>sessionAuthMode.ts\<close>): the loads and logouts
    of a review over the login module of \<open>ReviewSession\<close>, and what each request makes of an answer.
  \<^item> \<open>ReplayTimeline\<close> (\<open>InteractiveTimeline.tsx\<close>): where everything lies on the timeline of a session.
    \<open>ReplayPlayer\<close> (\<open>DualVideoPlayer.tsx\<close>, \<open>config.ts\<close>): the two videos in step, and the loading,
    refreshing and deletion of the recording. \<open>RubricPanel\<close> (\<open>RubricScoringPanel.tsx\<close>): the scores and
    their report.

  Credentials and operation:

  \<^item> \<open>SessionAuth\<close> (\<open>sessionAuth.ts\<close>): tokens in memory and in the session storage.
  \<^item> \<open>ReviewSession\<close> (\<open>reviewSession.ts\<close>): the teacher's login, its rotation and its requests.
  \<^item> \<open>OpLogic\<close>, \<open>OpConsole\<close> (\<open>opLogic.ts\<close>, \<open>App.tsx\<close> and \<open>SessionDetail.tsx\<close> of the operator): the page's
    helpers, and its state with the requests under way.

  \<open>Prelude\<close> holds the operators of JavaScript, insertion-ordered maps and the shared contracts.

  \<^bold>\<open>How code becomes definitions.\<close> A module's variables, or a component's state and refs, are a
  record; its functions are functions on the record, under their own names where these are free.
  Code that waits is cut at its awaits: the recording controller as trees of \<open>Tasks\<close>, because its
  functions nest and hold promises; the hooks, the review login and the pages as event
  handlers, with the requests under way in the state, because there each continuation is one step.
  Between two steps anything else that the page can do may happen. Errors are the left of a sum, a
  rejected promise is a value, and a transaction or request whose outcome is not the code's to
  decide is an argument or an event. Timestamps and counters are integers, values that can be
  fractions are rationals; texts shown to the user are constructors. A frame or body that was
  parsed is a value of \<open>json\<close>.

  \<^bold>\<open>Interfaces.\<close> \<open>bounded_delay\<close> is what the three retry schedules promise; \<open>object_store\<close> is what the
  stores promise to the transactions; \<open>meta_mutation\<close> is what every change of a row keeps; \<open>guarantee\<close>
  is rely and guarantee for interleaved tasks, interpreted for the started take and for the start;
  \<open>socket_app\<close> and \<open>socket_machine\<close> are what a hook has to provide to the shared socket machinery,
  interpreted for the student and the wizard; \<open>event_handler\<close> is a state machine with an invariant.

  \<^bold>\<open>What the lemmas show.\<close> Recording: what is uploaded was stored under its number and no slice
  vanishes unrecorded; finalizes never claim slices that do not exist; a revoked take is declared
  before it stops; a recorder starts only after the server accepted the claim; numbering and backlog
  survive every interleaving; records are purged only when the server has the take. Socket: the
  class implements the client of its comments; only the first snapshot admits; nothing is sent
  before; a final close is final; commands with a deadline are sent once; the casts of the handlers
  never lie; the clock offset is within half the round trip of the best probes. Student: the
  recorder follows the socket of the session that is shown, takes start only where they may, and once
  on their own; the page is one of the surroundings of its hook; the stage shows what is commanded and
  reports what it shows. Credentials: a tab's
  tokens behave as one table whatever is reloaded; no document presents a refresh token twice, nor
  do two that follow or duplicate each other; a login is dropped only when the server refused it.
  Wizard: a key plays the clip that the author wrote for the selection, and keys command nothing on a
  session that is paused, ended, not connected or behind a dialog; a session is ended by one request
  at a time. Teacher: a review is shown whole or not at all; a logout leaves nothing; the recording
  that plays is that of the session; the character is in step with the student; nothing lies before
  or after the timeline; a report adds up and its table reads back. Operator: nothing survives a sign-out, no spinner outlives its request, every click ends. The
  findings in the manifest name the theorems that show where the code or a comment falls short.

  \<^bold>\<open>Bounds and fuel.\<close> No definition uses fuel. Loops of the code are structural recursions (the claim
  loop over its remaining attempts, a refresh over its pages, a batch over its list), or one event
  of a run per round (pumps, timers, retries), so that runs of every length are covered; runs are
  lists of events, and the properties hold for all of them. JavaScript's numbers are taken to be
  exact: counters and timestamps stay far below \<open>2 ^ 53\<close>.

  \<^bold>\<open>What is assumed of others.\<close> A database transaction is atomic; a lock has one holder; a socket
  delivers frames only after it opened and before it closed; the server's refresh tokens are
  distinct (a named hypothesis where it is used). Sequence numbers and timestamps of the server are
  finite numbers only where a guard checks it. \<open>Date.parse\<close> and the text of a number are arguments.

  \<^bold>\<open>What is not modelled.\<close> The Python server; markup, labels and styles of all clients; the operator's
  forms and tables; the building of headers and request bodies; type declarations, configuration,
  tests and test hooks. A media element is what the code sets and reads of it. Effects compare what
  they depend on by value, where React compares objects by identity; the pages make new objects only
  when the values change, so no effect runs more often than in the models.
\<close>

end
